(* ===== verification/Nox_Prelude.thy ===== *)
theory Nox_Prelude
  imports Main "HOL-Library.Word" "HOL-Library.AList" "HOL-Library.Multiset"
begin

text \<open>
  Shared vocabulary of the development: the names of the machine types and identifiers that
  several crates of the node use, the Rust standard-library operations the modelled code calls
  (checked and saturating arithmetic, \<^verbatim>\<open>HashMap\<close> as an association list with distinct keys,
  \<^verbatim>\<open>trim_start_matches\<close>, \<^verbatim>\<open>to_ascii_lowercase\<close>), and the generic lemmas on lists, maps and
  words that the component theories share.
\<close>

section \<open>Names of types\<close>

type_synonym u32 = "32 word"
type_synonym u64 = "64 word"

text \<open>
  A libp2p \<^verbatim>\<open>PeerId\<close> is opaque to the node: it is compared for equality and printed in base58.
  It is represented by its base58 text, which determines it.  A compute unit id (\<^verbatim>\<open>CUID\<close>) is 32
  bytes, core ids are newtypes over \<^verbatim>\<open>u32\<close>.
\<close>

type_synonym peer_id = string
type_synonym cuid = "256 word"
type_synonym physical_core_id = u32
type_synonym logical_core_id = u32

section \<open>Collections of facts\<close>

named_theorems nox_inv \<open>preservation of component invariants by operations\<close>
named_theorems nox_frame \<open>fields that an operation leaves alone\<close>

section \<open>Checked and saturating arithmetic\<close>

definition checked_add :: "'a::len word \<Rightarrow> 'a word \<Rightarrow> 'a word option" where
  "checked_add a b = (if unat a + unat b < 2 ^ LENGTH('a) then Some (a + b) else None)"

lemma checked_add_Some_iff:
  "checked_add a b = Some c \<longleftrightarrow> unat c = unat a + unat (b :: 'a::len word)"
proof
  assume "checked_add a b = Some c"
  then show "unat c = unat a + unat b"
    by (auto simp: checked_add_def unat_word_ariths split: if_splits)
next
  assume h: "unat c = unat a + unat b"
  have "unat c < 2 ^ LENGTH('a)" by (rule unsigned_less)
  moreover have "a + b = c"
    using h by (metis of_nat_add of_nat_unat ucast_id)
  ultimately show "checked_add a b = Some c"
    using h by (simp add: checked_add_def)
qed

lemma checked_add_None_iff:
  "checked_add a b = None \<longleftrightarrow> 2 ^ LENGTH('a) \<le> unat a + unat (b :: 'a::len word)"
  by (auto simp: checked_add_def)

section \<open>Options\<close>

lemma option_ext: "(\<And>x. a = Some x \<longleftrightarrow> b = Some x) \<Longrightarrow> a = b"
  by (cases a; cases b) auto

section \<open>Hash maps\<close>

text \<open>
  A \<^verbatim>\<open>HashMap\<close> that is iterated or counted is an association list with distinct keys; the order
  of the list stands for the unspecified iteration order.  Maps that are only looked up and
  updated are functions \<open>'k \<rightharpoonup> 'v\<close>.
\<close>

type_synonym ('k, 'v) hash_map = "('k \<times> 'v) list"

definition hm_get :: "('k, 'v) hash_map \<Rightarrow> 'k \<Rightarrow> 'v option" where
  "hm_get m k = map_of m k"

definition hm_insert :: "'k \<Rightarrow> 'v \<Rightarrow> ('k, 'v) hash_map \<Rightarrow> ('k, 'v) hash_map" where
  "hm_insert k v m = AList.update k v m"

definition hm_remove :: "'k \<Rightarrow> ('k, 'v) hash_map \<Rightarrow> ('k, 'v) hash_map" where
  "hm_remove k m = AList.delete k m"

definition hm_keys :: "('k, 'v) hash_map \<Rightarrow> 'k list" where
  "hm_keys m = map fst m"

definition hm_values :: "('k, 'v) hash_map \<Rightarrow> 'v list" where
  "hm_values m = map snd m"

definition hm_contains :: "('k, 'v) hash_map \<Rightarrow> 'k \<Rightarrow> bool" where
  "hm_contains m k = (hm_get m k \<noteq> None)"

definition hm_ok :: "('k, 'v) hash_map \<Rightarrow> bool" where
  "hm_ok m = distinct (map fst m)"

text \<open>\<^verbatim>\<open>HashMap::values_mut\<close> and \<^verbatim>\<open>iter_mut\<close>: every value is rewritten in place.\<close>

definition hm_map_values :: "('v \<Rightarrow> 'w) \<Rightarrow> ('k, 'v) hash_map \<Rightarrow> ('k, 'w) hash_map" where
  "hm_map_values f m = map (\<lambda>(k, v). (k, f v)) m"

lemma hm_get_Nil [simp]: "hm_get [] k = None"
  by (simp add: hm_get_def)

lemma hm_ok_Nil [simp]: "hm_ok []"
  by (simp add: hm_ok_def)

lemma hm_get_insert [simp]: "hm_get (hm_insert k v m) k' = (if k' = k then Some v else hm_get m k')"
  by (simp add: hm_get_def hm_insert_def update_conv')

lemma hm_get_remove [simp]: "hm_get (hm_remove k m) k' = (if k' = k then None else hm_get m k')"
  by (simp add: hm_get_def hm_remove_def delete_conv')

lemma hm_ok_insert [simp]: "hm_ok m \<Longrightarrow> hm_ok (hm_insert k v m)"
  by (simp add: hm_ok_def hm_insert_def distinct_update)

lemma hm_ok_remove [simp]: "hm_ok m \<Longrightarrow> hm_ok (hm_remove k m)"
  by (simp add: hm_ok_def hm_remove_def distinct_delete)

lemma hm_get_map_values [simp]: "hm_get (hm_map_values f m) k = map_option f (hm_get m k)"
  by (induction m) (auto simp: hm_get_def hm_map_values_def)

lemma hm_keys_map_values [simp]: "map fst (hm_map_values f m) = map fst m"
  by (induction m) (auto simp: hm_map_values_def)

lemma hm_ok_map_values [simp]: "hm_ok (hm_map_values f m) = hm_ok m"
  by (simp add: hm_ok_def)

lemma hm_keys_get: "k \<in> set (hm_keys m) \<longleftrightarrow> hm_get m k \<noteq> None"
  by (simp add: hm_keys_def hm_get_def map_of_eq_None_iff)

lemma hm_contains_insert [simp]: "hm_contains (hm_insert k v m) k' \<longleftrightarrow> k' = k \<or> hm_contains m k'"
  by (simp add: hm_contains_def)

lemma hm_contains_remove [simp]: "hm_contains (hm_remove k m) k' \<longleftrightarrow> k' \<noteq> k \<and> hm_contains m k'"
  by (simp add: hm_contains_def)

lemma hm_get_in_set: "hm_ok m \<Longrightarrow> (k, v) \<in> set m \<longleftrightarrow> hm_get m k = Some v"
  by (auto simp: hm_ok_def hm_get_def dest: map_of_SomeD intro: map_of_is_SomeI)

text \<open>The sum of a multiset over the values of a hash map.\<close>

definition hm_msum :: "('v \<Rightarrow> 'a multiset) \<Rightarrow> ('k, 'v) hash_map \<Rightarrow> 'a multiset" where
  "hm_msum f m = sum_list (map (\<lambda>(k, v). f v) m)"

lemma hm_msum_Nil [simp]: "hm_msum f [] = {#}"
  by (simp add: hm_msum_def)

lemma hm_msum_insert:
  "hm_msum f (hm_insert k v m) + (case hm_get m k of Some u \<Rightarrow> f u | None \<Rightarrow> {#}) = hm_msum f m + f v"
proof (induction m)
  case (Cons p m)
  then show ?case
    by (cases p) (auto simp: hm_msum_def hm_insert_def hm_get_def algebra_simps split: option.splits)
qed (simp add: hm_msum_def hm_insert_def)

lemma hm_remove_absent: "hm_get m k = None \<Longrightarrow> hm_remove k m = m"
  by (induction m) (auto simp: hm_get_def hm_remove_def split: if_splits)

lemma hm_msum_remove:
  "hm_ok m \<Longrightarrow> hm_msum f (hm_remove k m) + (case hm_get m k of Some u \<Rightarrow> f u | None \<Rightarrow> {#}) = hm_msum f m"
proof (induction m)
  case (Cons p m)
  obtain k' v where p: "p = (k', v)" by (cases p)
  show ?case
  proof (cases "k' = k")
    case True
    then have "hm_get m k = None" using Cons.prems p by (simp add: hm_ok_def hm_get_def map_of_eq_None_iff)
    then show ?thesis using True p hm_remove_absent [of m k] by (simp add: hm_msum_def hm_remove_def hm_get_def)
  next
    case False
    then show ?thesis using Cons p by (simp add: hm_msum_def hm_remove_def hm_get_def hm_ok_def algebra_simps)
  qed
qed (simp add: hm_remove_def)

lemma hm_msum_insert_Some: "hm_get m k = Some u \<Longrightarrow> hm_msum f (hm_insert k v m) + f u = hm_msum f m + f v"
  using hm_msum_insert [of f k v m] by simp

lemma hm_msum_insert_None: "hm_get m k = None \<Longrightarrow> hm_msum f (hm_insert k v m) = hm_msum f m + f v"
  using hm_msum_insert [of f k v m] by simp

lemma hm_msum_remove_Some: "hm_ok m \<Longrightarrow> hm_get m k = Some u \<Longrightarrow> hm_msum f (hm_remove k m) + f u = hm_msum f m"
  using hm_msum_remove [of m f k] by simp

lemma distinct_submultiset:
  assumes "mset xs \<subseteq># mset ys" "distinct ys"
  shows "distinct xs"
proof (rule ccontr)
  assume "\<not> distinct xs"
  then obtain as x bs cs where "xs = as @ [x] @ bs @ [x] @ cs" using not_distinct_decomp by blast
  then have "2 \<le> count (mset xs) x" by simp
  moreover have "count (mset xs) x \<le> count (mset ys) x" using assms(1) by (rule mset_subset_eq_count)
  moreover have "count (mset ys) x \<le> 1" using assms(2) by (simp add: distinct_count_atmost_1)
  ultimately show False by linarith
qed

section \<open>Strings\<close>

text \<open>A Rust \<^verbatim>\<open>String\<close> is its sequence of UTF-8 bytes, which is what a HOL \<open>string\<close> is.\<close>

function trim_start_matches :: "string \<Rightarrow> string \<Rightarrow> string" where
  "trim_start_matches pat s =
     (if pat \<noteq> [] \<and> take (length pat) s = pat
      then trim_start_matches pat (drop (length pat) s) else s)"
  by pat_completeness auto
termination
proof (relation "measure (\<lambda>(pat, s). length s)", goal_cases)
  case (2 pat s)
  then have "length pat \<le> length s" and "pat \<noteq> []"
    by (metis length_take min.cobounded1, blast)
  then show ?case by (cases pat) auto
qed simp

declare trim_start_matches.simps [simp del]

definition to_ascii_lowercase_char :: "char \<Rightarrow> char" where
  "to_ascii_lowercase_char c =
     (if 65 \<le> (of_char c :: nat) \<and> (of_char c :: nat) \<le> 90 then char_of (of_char c + 32 :: nat) else c)"

definition to_ascii_lowercase :: "string \<Rightarrow> string" where
  "to_ascii_lowercase s = map to_ascii_lowercase_char s"

lemma of_char_to_ascii_lowercase_char:
  "(of_char (to_ascii_lowercase_char c) :: nat) =
     (if 65 \<le> (of_char c :: nat) \<and> (of_char c :: nat) \<le> 90 then of_char c + 32 else of_char c)"
  by (simp add: to_ascii_lowercase_char_def)

lemma to_ascii_lowercase_char_eq_iff:
  "to_ascii_lowercase_char c = d \<longleftrightarrow> (of_char (to_ascii_lowercase_char c) :: nat) = of_char d"
  by simp

lemma to_ascii_lowercase_char_idem [simp]:
  "to_ascii_lowercase_char (to_ascii_lowercase_char c) = to_ascii_lowercase_char c"
  by (subst to_ascii_lowercase_char_eq_iff) (auto simp: of_char_to_ascii_lowercase_char)

lemma to_ascii_lowercase_idem [simp]: "to_ascii_lowercase (to_ascii_lowercase s) = to_ascii_lowercase s"
  by (simp add: to_ascii_lowercase_def)

lemma length_to_ascii_lowercase [simp]: "length (to_ascii_lowercase s) = length s"
  by (simp add: to_ascii_lowercase_def)

lemma trim_start_matches_no_prefix:
  "pat \<noteq> [] \<Longrightarrow> take (length pat) (trim_start_matches pat s) \<noteq> pat"
proof (induction pat s rule: trim_start_matches.induct)
  case (1 pat s)
  then show ?case by (subst trim_start_matches.simps) auto
qed

lemma trim_start_matches_id: "take (length pat) s \<noteq> pat \<Longrightarrow> trim_start_matches pat s = s"
  by (subst trim_start_matches.simps) simp

lemma trim_start_matches_prefix: "trim_start_matches pat (pat @ s) = trim_start_matches pat s"
proof (cases "pat = []")
  case False
  then show ?thesis by (subst trim_start_matches.simps) simp
qed simp

lemma length_trim_start_matches: "length (trim_start_matches pat s) \<le> length s"
proof (induction pat s rule: trim_start_matches.induct)
  case (1 pat s)
  then show ?case by (subst trim_start_matches.simps) (auto intro: order_trans)
qed

lemma length_trim_start_matches_less:
  assumes "pat \<noteq> []" "take (length pat) s = pat"
  shows "length (trim_start_matches pat s) < length s"
proof -
  have "length pat \<le> length s" using assms(2) by (metis length_take min.cobounded1)
  then have "length (drop (length pat) s) < length s" using assms(1) by (cases pat) auto
  then show ?thesis
    using assms length_trim_start_matches [of pat "drop (length pat) s"]
    by (subst trim_start_matches.simps) simp
qed

section \<open>Event systems\<close>

text \<open>
  Components that react to events are labelled transition systems.  \<open>reachable\<close> is the least set of
  states that holds the start states and is closed under steps; a component interprets the locale
  \<open>invariant_system\<close> on its own start states, steps and invariant.
\<close>

inductive reachable :: "('s \<Rightarrow> bool) \<Rightarrow> ('s \<Rightarrow> 'e \<Rightarrow> 's \<Rightarrow> bool) \<Rightarrow> 's \<Rightarrow> bool"
  for start :: "'s \<Rightarrow> bool" and step :: "'s \<Rightarrow> 'e \<Rightarrow> 's \<Rightarrow> bool" where
  reach_start: "start s \<Longrightarrow> reachable start step s"
| reach_step: "reachable start step s \<Longrightarrow> step s e t \<Longrightarrow> reachable start step t"

inductive trace :: "('s \<Rightarrow> 'e \<Rightarrow> 's \<Rightarrow> bool) \<Rightarrow> 's \<Rightarrow> 'e list \<Rightarrow> 's \<Rightarrow> bool"
  for step :: "'s \<Rightarrow> 'e \<Rightarrow> 's \<Rightarrow> bool" where
  trace_Nil: "trace step s [] s"
| trace_Cons: "step s e t \<Longrightarrow> trace step t es u \<Longrightarrow> trace step s (e # es) u"

inductive_simps trace_Nil_simps [simp]: "trace step s [] t"
inductive_simps trace_Cons_simps: "trace step s (e # es) t"

lemma trace_reachable: "trace step s es t \<Longrightarrow> reachable start step s \<Longrightarrow> reachable start step t"
  by (induction rule: trace.induct) (auto intro: reach_step)

text \<open>Something every step with an allowed label keeps is kept by every run of allowed labels.\<close>

lemma trace_preserves:
  assumes "\<And>s e t. P s \<Longrightarrow> step s e t \<Longrightarrow> ok e \<Longrightarrow> P t"
    and "trace step s es t" and "P s" and "list_all ok es"
  shows "P t"
  using assms(2-4) by (induction rule: trace.induct) (auto intro: assms(1))

locale invariant_system =
  fixes start :: "'s \<Rightarrow> bool"
    and step :: "'s \<Rightarrow> 'e \<Rightarrow> 's \<Rightarrow> bool"
    and inv :: "'s \<Rightarrow> bool"
  assumes start_inv: "start s \<Longrightarrow> inv s"
    and step_inv: "inv s \<Longrightarrow> step s e t \<Longrightarrow> inv t"
begin

lemma reachable_inv: "reachable start step s \<Longrightarrow> inv s"
  by (induction rule: reachable.induct) (auto intro: start_inv step_inv)

lemma trace_inv: "trace step s es t \<Longrightarrow> inv s \<Longrightarrow> inv t"
  by (induction rule: trace.induct) (auto intro: step_inv)

end

end
