(* ===== verification/Deal_Id.thy ===== *)
theory Deal_Id
  imports Nox_Prelude
begin

text \<open>
  Deal identifiers and peer scopes (\<^verbatim>\<open>crates/types/src/deal_id.rs\<close>, \<^verbatim>\<open>peer_scope.rs\<close>).  A
  \<^verbatim>\<open>DealId\<close> is a string normalised on construction: every leading \<^verbatim>\<open>0x\<close> is cut off and ASCII
  letters are lower-cased.  The lemmas say when normalisation is stable, so that a deal id
  survives being stored as a string and read back.
\<close>

section \<open>Deal identifiers\<close>

datatype deal_id = DealId (deal_id_str: string)

definition normalize :: "string \<Rightarrow> string" where
  "normalize s = to_ascii_lowercase (trim_start_matches ''0x'' s)"

definition get_contract_address :: "deal_id \<Rightarrow> string" where
  "get_contract_address d = ''0x'' @ deal_id_str d"

definition to_address :: "deal_id \<Rightarrow> string" where
  "to_address d = ''0x'' @ deal_id_str d"

text \<open>
  \<^verbatim>\<open>to_bytes\<close> decodes with the \<^verbatim>\<open>hex\<close> crate, a parameter, and unwraps: \<open>None\<close> is the panic.
\<close>

definition to_bytes :: "(string \<Rightarrow> 8 word list option) \<Rightarrow> deal_id \<Rightarrow> 8 word list option" where
  "to_bytes hex_decode d = hex_decode (deal_id_str d)"

definition deal_id_from :: "string \<Rightarrow> deal_id" where
  "deal_id_from s = DealId (normalize s)"

definition deal_id_into :: "deal_id \<Rightarrow> string" where
  "deal_id_into d = deal_id_str d"

definition deal_id_eq_str :: "deal_id \<Rightarrow> string \<Rightarrow> bool" where
  "deal_id_eq_str d other = (deal_id_str d = normalize other)"

section \<open>Peer scopes\<close>

datatype worker_id = WorkerId (worker_peer_id: peer_id)

datatype peer_scope = ScopeWorkerId worker_id | ScopeHost

text \<open>\<^verbatim>\<open>Display for WorkerId\<close> prints the base58 text of the peer id.\<close>

definition worker_id_fmt :: "worker_id \<Rightarrow> string" where
  "worker_id_fmt w = worker_peer_id w"

lemma worker_id_fmt_inject [simp]: "worker_id_fmt v = worker_id_fmt w \<longleftrightarrow> v = w"
  by (cases v, cases w) (simp add: worker_id_fmt_def)

section \<open>Normalisation\<close>

text \<open>Only the two letters \<^verbatim>\<open>x\<close> and \<^verbatim>\<open>X\<close> are lower-cased to \<^verbatim>\<open>x\<close>, only \<^verbatim>\<open>0\<close> stays \<^verbatim>\<open>0\<close>.\<close>

lemma to_ascii_lowercase_char_eq_zero: "to_ascii_lowercase_char c = CHR ''0'' \<longleftrightarrow> c = CHR ''0''"
proof -
  have "c = CHR ''0'' \<longleftrightarrow> (of_char c :: nat) = 48" by (subst of_char_eq_iff [symmetric]) simp
  then show ?thesis
    by (subst to_ascii_lowercase_char_eq_iff) (auto simp: of_char_to_ascii_lowercase_char)
qed

lemma to_ascii_lowercase_char_eq_x:
  "to_ascii_lowercase_char c = CHR ''x'' \<longleftrightarrow> c = CHR ''x'' \<or> c = CHR ''X''"
proof -
  have "c = CHR ''x'' \<longleftrightarrow> (of_char c :: nat) = 120" by (subst of_char_eq_iff [symmetric]) simp
  moreover have "c = CHR ''X'' \<longleftrightarrow> (of_char c :: nat) = 88" by (subst of_char_eq_iff [symmetric]) simp
  ultimately show ?thesis
    by (subst to_ascii_lowercase_char_eq_iff) (auto simp: of_char_to_ascii_lowercase_char)
qed

lemma take2_eq: "take 2 xs = [a, b] \<longleftrightarrow> (\<exists>ys. xs = a # b # ys)"
  by (cases xs; cases "tl xs") (auto simp: numeral_2_eq_2)

lemma lowercase_prefix_0x:
  "take 2 (to_ascii_lowercase t) = ''0x'' \<longleftrightarrow> take 2 t = ''0x'' \<or> take 2 t = ''0X''"
  by (auto simp: take2_eq to_ascii_lowercase_def map_eq_Cons_conv
      to_ascii_lowercase_char_eq_zero to_ascii_lowercase_char_eq_x)

lemma normalize_fixpoint_iff:
  "normalize (normalize s) = normalize s \<longleftrightarrow> take 2 (trim_start_matches ''0x'' s) \<noteq> ''0X''"
proof -
  define t where "t = trim_start_matches ''0x'' s"
  have no: "take 2 t \<noteq> ''0x''"
    using trim_start_matches_no_prefix [of "''0x''" s] by (simp add: t_def numeral_2_eq_2)
  show ?thesis
  proof (cases "take 2 t = ''0X''")
    case True
    then have "take (length ''0x'') (to_ascii_lowercase t) = ''0x''"
      using lowercase_prefix_0x [of t] by (simp add: numeral_2_eq_2)
    then have "length (normalize (normalize s)) < length (normalize s)"
      using length_trim_start_matches_less [of "''0x''" "to_ascii_lowercase t"]
      by (simp add: normalize_def t_def)
    then show ?thesis using True by (auto simp: t_def)
  next
    case False
    then have "take (length ''0x'') (to_ascii_lowercase t) \<noteq> ''0x''"
      using no lowercase_prefix_0x [of t] by (simp add: numeral_2_eq_2)
    then show ?thesis
      using False by (simp add: normalize_def t_def trim_start_matches_id)
  qed
qed

definition is_hex_char :: "char \<Rightarrow> bool" where
  "is_hex_char c = (c \<in> set ''0123456789abcdefABCDEF'')"

lemma hex_no_x:
  assumes "list_all is_hex_char s" and "\<not> is_hex_char x"
  shows "take 2 s \<noteq> [c, x]"
  using assms by (auto simp: take2_eq)

lemma not_hex_x [simp]: "\<not> is_hex_char (CHR ''x'')" "\<not> is_hex_char (CHR ''X'')"
  by (simp_all add: is_hex_char_def)

lemma trim_hex_id:
  assumes "list_all is_hex_char s"
  shows "trim_start_matches ''0x'' s = s"
  using hex_no_x [OF assms not_hex_x(1)] by (intro trim_start_matches_id) (simp add: numeral_2_eq_2)

lemma normalize_hex:
  assumes "list_all is_hex_char s"
  shows "normalize s = to_ascii_lowercase s" and "normalize (''0x'' @ s) = to_ascii_lowercase s"
  using trim_hex_id [OF assms] trim_start_matches_prefix [of "''0x''" s]
  by (simp_all add: normalize_def)

text \<open>
  A deal id written out as a string (as the worker files do) and read back is the same deal
  id exactly when the text it was created from does not have an upper-case \<^verbatim>\<open>0X\<close> right after its
  leading \<^verbatim>\<open>0x\<close>s; with \<^verbatim>\<open>0X\<close> the deal id changes on the round trip.
\<close>

theorem deal_id_string_roundtrip_iff:
  "deal_id_from (deal_id_into (deal_id_from s)) = deal_id_from s \<longleftrightarrow>
     take 2 (trim_start_matches ''0x'' s) \<noteq> ''0X''"
  by (simp add: deal_id_from_def deal_id_into_def normalize_fixpoint_iff)

text \<open>
  Hex texts that differ only in letter case and in a leading \<^verbatim>\<open>0x\<close> name the same deal: they
  give equal deal ids, compare equal to each other's text, and reading the contract address of
  the deal id gives it back.
\<close>

theorem deal_id_hex_canonical:
  assumes "list_all is_hex_char s" "list_all is_hex_char t"
    and "to_ascii_lowercase s = to_ascii_lowercase t"
  shows "deal_id_from (''0x'' @ s) = deal_id_from t
    \<and> deal_id_eq_str (deal_id_from s) (''0x'' @ t)
    \<and> deal_id_from (get_contract_address (deal_id_from s)) = deal_id_from s"
proof -
  have "normalize (normalize s) = normalize s"
  proof -
    have "take 2 s \<noteq> ''0X''" by (rule hex_no_x [OF assms(1)]) simp
    then show ?thesis using trim_hex_id [OF assms(1)] by (simp add: normalize_fixpoint_iff)
  qed
  moreover have "normalize (''0x'' @ u) = normalize u" for u
    unfolding normalize_def using trim_start_matches_prefix [of "''0x''" u] by simp
  ultimately show ?thesis
    using normalize_hex [OF assms(1)] normalize_hex [OF assms(2)] assms(3)
    by (simp add: deal_id_from_def deal_id_eq_str_def get_contract_address_def)
qed

theorem deal_id_hex_canonical_witness:
  "deal_id_from (''0x'' @ ''12aB'') = deal_id_from ''12AB''
    \<and> deal_id_eq_str (deal_id_from ''12aB'') (''0x'' @ ''12AB'')
    \<and> deal_id_from (get_contract_address (deal_id_from ''12aB'')) = deal_id_from ''12aB''"
  by (rule deal_id_hex_canonical)
    (simp_all add: is_hex_char_def to_ascii_lowercase_def to_ascii_lowercase_char_def char_of_def bit_0)

end
