(* ===== verification/Spell_Config.thy ===== *)
theory Spell_Config
  imports Nox_Prelude
begin

text \<open>
  Trigger configurations of spells (\<^verbatim>\<open>crates/spell-event-bus/src/config.rs\<close>) and the trigger
  information sent to spells (\<^verbatim>\<open>crates/spell-event-bus/src/api.rs\<close>): the user configuration is
  validated against the clock and turned into timers and peer-event subscriptions.
\<close>

section \<open>Time\<close>

text \<open>
  \<^verbatim>\<open>std::time\<close>: a \<^verbatim>\<open>Duration\<close>, an \<^verbatim>\<open>Instant\<close> and a \<^verbatim>\<open>SystemTime\<close> are counted in nanoseconds, the
  first from zero, the second from the clock's origin, the third from the Unix epoch.  Adding to an
  \<^verbatim>\<open>Instant\<close> or a \<^verbatim>\<open>SystemTime\<close> fails when the seconds leave the range of \<^verbatim>\<open>i64\<close>.
\<close>

type_synonym duration = nat
type_synonym instant = nat

definition NANOS :: nat where
  "NANOS = 10 ^ 9"

definition TIME_MAX :: nat where
  "TIME_MAX = (2 ^ 63 - 1) * NANOS + (NANOS - 1)"

definition time_checked_add :: "nat \<Rightarrow> duration \<Rightarrow> nat option" where
  "time_checked_add t d = (if t + d \<le> TIME_MAX then Some (t + d) else None)"

definition from_secs :: "u64 \<Rightarrow> duration" where
  "from_secs s = unat s * NANOS"

text \<open>One look at both clocks.\<close>

record clock_reading =
  system_now :: nat
  instant_now :: instant

definition to_instant :: "clock_reading \<Rightarrow> u64 \<Rightarrow> instant option" where
  "to_instant clk timestamp =
     (case time_checked_add 0 (from_secs timestamp) of
        None \<Rightarrow> None
      | Some target_time \<Rightarrow>
          (if system_now clk \<le> target_time
           then time_checked_add (instant_now clk) (target_time - system_now clk) else None))"

section \<open>Configurations\<close>

definition MAX_PERIOD_YEAR :: u32 where
  "MAX_PERIOD_YEAR = 100"

definition MAX_PERIOD_SEC :: u32 where
  "MAX_PERIOD_SEC = 60 * 60 * 24 * 365 * MAX_PERIOD_YEAR"

datatype config_error = InvalidPeriod | InvalidEndSec

text \<open>The fields the code reads of the user's configuration.\<close>

record clock_config =
  start_sec :: u32
  end_sec :: u32
  period_sec :: u32

record connection_pool_config =
  connect :: bool
  disconnect :: bool

record user_trigger_config =
  clock :: clock_config
  connections :: connection_pool_config

datatype peer_event_type = Connected | Disconnected

record timer_config =
  tc_period :: duration
  tc_start_at :: instant
  tc_end_at :: "instant option"

record peer_event_config =
  events :: "peer_event_type list"

datatype trigger_config = Timer timer_config | PeerEvent peer_event_config

record spell_trigger_configs =
  triggers :: "trigger_config list"

definition timer_periodic :: "duration \<Rightarrow> instant \<Rightarrow> instant option \<Rightarrow> timer_config" where
  "timer_periodic period start_at end_at =
     \<lparr>tc_period = period, tc_start_at = start_at, tc_end_at = end_at\<rparr>"

definition timer_oneshot :: "instant \<Rightarrow> timer_config" where
  "timer_oneshot start_at = \<lparr>tc_period = 0, tc_start_at = start_at, tc_end_at = Some start_at\<rparr>"

definition from_connection_config :: "connection_pool_config \<Rightarrow> peer_event_config option" where
  "from_connection_config c =
     (let pool_events = (if connect c then [Connected] else [])
                      @ (if disconnect c then [Disconnected] else [])
      in if pool_events = [] then None else Some \<lparr>events = pool_events\<rparr>)"

text \<open>
  The clocks are read up to three times: for the end, for the start, and again for the start when
  that lies in the past.
\<close>

definition from_clock_config ::
    "clock_reading \<Rightarrow> clock_reading \<Rightarrow> instant \<Rightarrow> clock_config \<Rightarrow> config_error + timer_config" where
  "from_clock_config clk1 clk2 now3 c =
     (if MAX_PERIOD_SEC < period_sec c then Inl InvalidPeriod
      else
        case (if end_sec c = 0 then Inr None
              else if end_sec c < start_sec c then Inl InvalidEndSec
              else (case to_instant clk1 (ucast (end_sec c)) of
                      Some end_at \<Rightarrow> Inr (Some end_at)
                    | None \<Rightarrow> Inl InvalidEndSec)) of
          Inl e \<Rightarrow> Inl e
        | Inr end_at \<Rightarrow>
            (let start_at = (case to_instant clk2 (ucast (start_sec c)) of Some t \<Rightarrow> t | None \<Rightarrow> now3)
             in if period_sec c = 0 then Inr (timer_oneshot start_at)
                else Inr (timer_periodic (from_secs (ucast (period_sec c))) start_at end_at)))"

definition from_user_config ::
    "clock_reading \<Rightarrow> clock_reading \<Rightarrow> instant \<Rightarrow> user_trigger_config
      \<Rightarrow> config_error + spell_trigger_configs option" where
  "from_user_config clk1 clk2 now3 u =
     (case (if start_sec (clock u) \<noteq> 0
            then (case from_clock_config clk1 clk2 now3 (clock u) of
                    Inl e \<Rightarrow> Inl e | Inr t \<Rightarrow> Inr [Timer t])
            else Inr []) of
        Inl e \<Rightarrow> Inl e
      | Inr ts \<Rightarrow>
          (let ts' = (case from_connection_config (connections u) of
                        Some p \<Rightarrow> ts @ [PeerEvent p] | None \<Rightarrow> ts)
           in Inr (if ts' \<noteq> [] then Some \<lparr>triggers = ts'\<rparr> else None)))"

section \<open>Rescheduling after a restart\<close>

definition timer_into_rescheduled :: "instant \<Rightarrow> timer_config \<Rightarrow> timer_config option" where
  "timer_into_rescheduled now c =
     (if (case tc_end_at c of Some end_at \<Rightarrow> end_at \<le> now | None \<Rightarrow> False) then None
      else if tc_period c = 0 \<and> tc_start_at c < now then None
      else Some c)"

fun trigger_into_rescheduled :: "instant \<Rightarrow> trigger_config \<Rightarrow> trigger_config option" where
  "trigger_into_rescheduled now (Timer c) = map_option Timer (timer_into_rescheduled now c)"
| "trigger_into_rescheduled now (PeerEvent p) = Some (PeerEvent p)"

definition into_rescheduled :: "instant \<Rightarrow> spell_trigger_configs \<Rightarrow> spell_trigger_configs option" where
  "into_rescheduled now cfg =
     (let new_triggers = List.map_filter (trigger_into_rescheduled now) (triggers cfg)
      in if new_triggers = [] then None else Some \<lparr>triggers = new_triggers\<rparr>)"

section \<open>Trigger information\<close>

record timer_event =
  timestamp :: u64

record peer_event =
  pe_peer_id :: peer_id
  connected :: bool

datatype trigger_info = TimerInfo timer_event | PeerInfo peer_event

record trigger_info_aqua =
  aqua_timer :: "timer_event list"
  aqua_peer :: "peer_event list"

definition get_type :: "peer_event \<Rightarrow> peer_event_type" where
  "get_type e = (if connected e then Connected else Disconnected)"

fun to_aqua :: "trigger_info \<Rightarrow> trigger_info_aqua" where
  "to_aqua (TimerInfo t) = \<lparr>aqua_timer = [t], aqua_peer = []\<rparr>"
| "to_aqua (PeerInfo p) = \<lparr>aqua_timer = [], aqua_peer = [p]\<rparr>"

text \<open>The conversion back panics (\<open>None\<close>) unless exactly one of the two lists has an element.\<close>

definition from_aqua :: "trigger_info_aqua \<Rightarrow> trigger_info option" where
  "from_aqua i =
     (case (aqua_timer i, aqua_peer i) of
        (t # _, []) \<Rightarrow> Some (TimerInfo t)
      | ([], p # _) \<Rightarrow> Some (PeerInfo p)
      | _ \<Rightarrow> None)"

section \<open>Properties\<close>

lemma TIME_MAX_u32: "unat (x :: u32) * NANOS \<le> TIME_MAX"
proof -
  have "unat x < 2 ^ 32" using unsigned_less [of x] by simp
  then have "unat x * NANOS \<le> (2 ^ 63 - 1) * NANOS" by simp
  then show ?thesis unfolding TIME_MAX_def by linarith
qed

lemma from_secs_u32 [simp]: "from_secs (ucast (x :: u32)) = unat x * NANOS"
proof -
  have "unat x < 2 ^ 64" by (rule less_le_trans [OF unsigned_less]) simp
  then show ?thesis by (simp add: from_secs_def unsigned_ucast_eq take_bit_nat_eq_self)
qed

text \<open>A timestamp is in reach when the clock can still name it: not in the past, no overflow.\<close>

definition reach_at :: "clock_reading \<Rightarrow> u32 \<Rightarrow> instant" where
  "reach_at clk x = instant_now clk + (unat x * NANOS - system_now clk)"

definition in_reach :: "clock_reading \<Rightarrow> u32 \<Rightarrow> bool" where
  "in_reach clk x = (system_now clk \<le> unat x * NANOS \<and> reach_at clk x \<le> TIME_MAX)"

lemma to_instant_u32:
  "to_instant clk (ucast (x :: u32)) = (if in_reach clk x then Some (reach_at clk x) else None)"
  using TIME_MAX_u32 [of x] by (simp add: to_instant_def time_checked_add_def in_reach_def reach_at_def)

lemma from_clock_config_cases:
  "from_clock_config clk1 clk2 now3 c =
     (if MAX_PERIOD_SEC < period_sec c then Inl InvalidPeriod
      else if end_sec c \<noteq> 0 \<and> (end_sec c < start_sec c \<or> \<not> in_reach clk1 (end_sec c))
      then Inl InvalidEndSec
      else let start_at = (if in_reach clk2 (start_sec c) then reach_at clk2 (start_sec c) else now3);
               end_at = (if end_sec c = 0 then None else Some (reach_at clk1 (end_sec c)))
           in Inr (if period_sec c = 0 then timer_oneshot start_at
                   else timer_periodic (unat (period_sec c) * NANOS) start_at end_at))"
  by (simp add: from_clock_config_def to_instant_u32 Let_def)

definition is_timer :: "trigger_config \<Rightarrow> bool" where
  "is_timer t = (case t of Timer _ \<Rightarrow> True | PeerEvent _ \<Rightarrow> False)"

lemma is_timer_simps [simp]: "is_timer (Timer c)" "\<not> is_timer (PeerEvent p)"
  by (simp_all add: is_timer_def)

lemma from_connection_config_events:
  "from_connection_config c = Some p \<Longrightarrow>
     distinct (events p) \<and> events p \<noteq> []
     \<and> (Connected \<in> set (events p) \<longleftrightarrow> connect c) \<and> (Disconnected \<in> set (events p) \<longleftrightarrow> disconnect c)"
  by (auto simp: from_connection_config_def Let_def split: if_splits)

lemma from_connection_config_None:
  "from_connection_config c = None \<longleftrightarrow> \<not> connect c \<and> \<not> disconnect c"
  by (auto simp: from_connection_config_def Let_def)

text \<open>
  A user configuration is refused exactly when its clock is set (a non-zero \<^verbatim>\<open>start_sec\<close>) and
  its period is above the maximum, or its non-zero end lies before its start or out of the clock's
  reach; the period is checked first.
\<close>

theorem from_user_config_error_iff:
  "(from_user_config clk1 clk2 now3 u = Inl InvalidPeriod \<longleftrightarrow>
      start_sec (clock u) \<noteq> 0 \<and> MAX_PERIOD_SEC < period_sec (clock u))
   \<and> (from_user_config clk1 clk2 now3 u = Inl InvalidEndSec \<longleftrightarrow>
      start_sec (clock u) \<noteq> 0 \<and> period_sec (clock u) \<le> MAX_PERIOD_SEC \<and> end_sec (clock u) \<noteq> 0
      \<and> (end_sec (clock u) < start_sec (clock u) \<or> unat (end_sec (clock u)) * NANOS < system_now clk1
           \<or> TIME_MAX < reach_at clk1 (end_sec (clock u))))"
  by (auto simp: from_user_config_def from_clock_config_cases in_reach_def Let_def split: option.splits if_splits)

text \<open>
  An accepted configuration names at most one timer and it comes first, has no empty list of
  triggers, subscribes to each kind of peer event at most once and exactly to those the user asked
  for, and its period is at most 100 years.
\<close>

theorem from_user_config_wellformed:
  assumes "from_user_config clk1 clk2 now3 u = Inr (Some cfg)"
  shows "triggers cfg \<noteq> [] \<and> length (filter is_timer (triggers cfg)) \<le> 1
    \<and> (\<forall>c. Timer c \<in> set (triggers cfg) \<longrightarrow>
          hd (triggers cfg) = Timer c \<and> tc_period c \<le> unat MAX_PERIOD_SEC * NANOS)
    \<and> (\<forall>p. PeerEvent p \<in> set (triggers cfg) \<longrightarrow> distinct (events p) \<and> events p \<noteq> []
          \<and> (Connected \<in> set (events p) \<longleftrightarrow> connect (connections u))
          \<and> (Disconnected \<in> set (events p) \<longleftrightarrow> disconnect (connections u)))"
proof -
  have per: "from_clock_config clk1 clk2 now3 c = Inr t \<Longrightarrow> tc_period t \<le> unat MAX_PERIOD_SEC * NANOS" for c t
    by (auto simp: from_clock_config_cases Let_def timer_oneshot_def timer_periodic_def
        word_le_nat_alt not_less split: if_splits)
  from assms show ?thesis
    by (auto simp: from_user_config_def Let_def dest: per from_connection_config_events
        split: option.splits if_splits sum.splits)
qed

text \<open>The configuration of a spell run every minute, forever, and on every connection.\<close>

definition minutely_user_config :: user_trigger_config where
  "minutely_user_config = \<lparr>clock = \<lparr>start_sec = 1, end_sec = 0, period_sec = 60\<rparr>,
     connections = \<lparr>connect = True, disconnect = False\<rparr>\<rparr>"

definition minutely_config :: spell_trigger_configs where
  "minutely_config = \<lparr>triggers =
     [Timer (timer_periodic (60 * NANOS) 7 None), PeerEvent \<lparr>events = [Connected]\<rparr>]\<rparr>"

lemma minutely_accepted:
  "from_user_config \<lparr>system_now = 5 * NANOS, instant_now = 3\<rparr> \<lparr>system_now = 5 * NANOS, instant_now = 3\<rparr>
     7 minutely_user_config = Inr (Some minutely_config)"
  by (simp add: from_user_config_def from_clock_config_cases in_reach_def reach_at_def minutely_user_config_def
      minutely_config_def from_connection_config_def MAX_PERIOD_SEC_def MAX_PERIOD_YEAR_def NANOS_def)

theorem from_user_config_wellformed_witness:
  "triggers minutely_config \<noteq> [] \<and> length (filter is_timer (triggers minutely_config)) \<le> 1"
  using from_user_config_wellformed [OF minutely_accepted] by blast

lemma timer_into_rescheduled_compose:
  "t1 \<le> t2 \<Longrightarrow> Option.bind (timer_into_rescheduled t1 c) (timer_into_rescheduled t2)
     = timer_into_rescheduled t2 c"
  by (auto simp: timer_into_rescheduled_def split: option.splits)

lemma trigger_into_rescheduled_compose:
  "Option.bind (trigger_into_rescheduled t1 c) (trigger_into_rescheduled t2)
     = trigger_into_rescheduled t2 c"
  if "t1 \<le> t2"
proof (cases c)
  case (Timer tc)
  then show ?thesis
    using that timer_into_rescheduled_compose [of t1 t2 tc]
    by (cases "timer_into_rescheduled t1 tc") auto
qed simp

lemma map_filter_compose:
  "(\<And>x. Option.bind (f x) g = h x) \<Longrightarrow>
     List.map_filter g (List.map_filter f xs) = List.map_filter h xs"
proof (induction xs)
  case (Cons x xs)
  from Cons.prems have IH: "List.map_filter g (List.map_filter f xs) = List.map_filter h xs"
    by (rule Cons.IH)
  show ?case using Cons.prems [of x] IH
    by (cases "f x") (simp_all add: map_filter_simps split: option.split)
qed (simp add: map_filter_simps)

lemma map_filter_Nil: "List.map_filter f [] = []"
  by (simp add: map_filter_simps)

text \<open>
  Rescheduling is stable: rescheduling a configuration at one time and the result at a later
  time is the same as rescheduling the original at the later time, so restarting the node twice
  keeps the triggers that restarting it once at the second time would keep.
\<close>

theorem into_rescheduled_compose:
  assumes "t1 \<le> t2"
  shows "Option.bind (into_rescheduled t1 cfg) (into_rescheduled t2) = into_rescheduled t2 cfg"
proof -
  have "List.map_filter (trigger_into_rescheduled t2)
          (List.map_filter (trigger_into_rescheduled t1) (triggers cfg))
        = List.map_filter (trigger_into_rescheduled t2) (triggers cfg)"
    using assms by (intro map_filter_compose) (rule trigger_into_rescheduled_compose)
  then show ?thesis by (auto simp: into_rescheduled_def Let_def map_filter_Nil)
qed

theorem into_rescheduled_compose_witness:
  "Option.bind (into_rescheduled 5 minutely_config) (into_rescheduled 9) = into_rescheduled 9 minutely_config
   \<and> into_rescheduled 9 minutely_config = Some minutely_config"
  using into_rescheduled_compose [of 5 9 minutely_config]
  by (simp add: into_rescheduled_def minutely_config_def map_filter_simps
      timer_into_rescheduled_def timer_periodic_def NANOS_def)

lemma from_to_aqua: "from_aqua (to_aqua i) = Some i"
  by (cases i) (simp_all add: from_aqua_def)

end
