(* ===== verification/Spell_Bus.thy ===== *)
theory Spell_Bus
  imports Spell_Config
begin

text \<open>
  The spell event bus (\<^verbatim>\<open>crates/spell-event-bus/src/bus.rs\<close>): the actor that keeps the
  subscriptions of spells to peer events and timers and sends a trigger event for each of them.
  Its loop waits for a command, a peer event or the next timer; each iteration is one step of a
  labelled transition system.
\<close>

type_synonym spell_id = string

section \<open>Subscribers of peer events\<close>

record peer_event_subscribers =
  subscribers :: "peer_event_type \<rightharpoonup> spell_id list"

definition pes_new :: peer_event_subscribers where
  "pes_new = \<lparr>subscribers = Map.empty\<rparr>"

definition pes_add_one :: "spell_id \<Rightarrow> peer_event_type \<Rightarrow> peer_event_subscribers \<Rightarrow> peer_event_subscribers" where
  "pes_add_one i t p = p\<lparr>subscribers := (subscribers p)
     (t \<mapsto> (case subscribers p t of None \<Rightarrow> [] | Some xs \<Rightarrow> xs) @ [i])\<rparr>"

definition pes_add :: "spell_id \<Rightarrow> peer_event_type list \<Rightarrow> peer_event_subscribers \<Rightarrow> peer_event_subscribers" where
  "pes_add i ts p = fold (pes_add_one i) ts p"

definition pes_get :: "peer_event_subscribers \<Rightarrow> peer_event_type \<Rightarrow> spell_id list" where
  "pes_get p t = (case subscribers p t of Some xs \<Rightarrow> xs | None \<Rightarrow> [])"

definition pes_remove :: "spell_id \<Rightarrow> peer_event_subscribers \<Rightarrow> peer_event_subscribers" where
  "pes_remove i p = p\<lparr>subscribers := (\<lambda>t. map_option (filter (\<lambda>sub_id. sub_id \<noteq> i)) (subscribers p t))\<rparr>"

section \<open>Timers\<close>

record periodic =
  per_id :: spell_id
  per_period :: duration
  per_end_at :: "instant option"

record scheduled =
  data :: periodic
  run_at :: instant

definition scheduled_new :: "periodic \<Rightarrow> instant \<Rightarrow> scheduled" where
  "scheduled_new d t = \<lparr>data = d, run_at = t\<rparr>"

definition scheduled_at :: "periodic \<Rightarrow> instant \<Rightarrow> scheduled option" where
  "scheduled_at d now =
     (case time_checked_add now (per_period d) of
        None \<Rightarrow> None
      | Some r \<Rightarrow>
          if (case per_end_at d of Some end_at \<Rightarrow> end_at \<le> r | None \<Rightarrow> False) then None
          else Some \<lparr>data = d, run_at = r\<rparr>)"

text \<open>
  \<^verbatim>\<open>BinaryHeap<Scheduled>\<close> under the reversed order of \<^verbatim>\<open>run_at\<close> is a min-heap: the list of its
  elements, from which \<^verbatim>\<open>pop\<close> takes some element with the least \<^verbatim>\<open>run_at\<close>.  Which one it takes among
  equals is left open: \<open>heap_pop_ok h x\<close> holds for every one of them.
\<close>

definition heap_pop_ok :: "scheduled list \<Rightarrow> scheduled option \<Rightarrow> bool" where
  "heap_pop_ok h popped =
     (case popped of
        None \<Rightarrow> h = []
      | Some x \<Rightarrow> x \<in> set h \<and> list_all (\<lambda>y. run_at x \<le> run_at y) h)"

fun heap_peek_run_at :: "scheduled list \<Rightarrow> instant option" where
  "heap_peek_run_at [] = None"
| "heap_peek_run_at (x # xs) =
     Some (case heap_peek_run_at xs of None \<Rightarrow> run_at x | Some r \<Rightarrow> min (run_at x) r)"

section \<open>Subscriptions\<close>

record subscribers_state =
  st_subscribers :: peer_event_subscribers
  st_scheduled :: "scheduled list"
  st_active :: "spell_id set"

definition subscribers_state_new :: subscribers_state where
  "subscribers_state_new = \<lparr>st_subscribers = pes_new, st_scheduled = [], st_active = {}\<rparr>"

fun subscribe_trigger :: "spell_id \<Rightarrow> trigger_config \<Rightarrow> subscribers_state \<Rightarrow> subscribers_state" where
  "subscribe_trigger i (Timer c) st =
     st\<lparr>st_scheduled := scheduled_new \<lparr>per_id = i, per_period = tc_period c, per_end_at = tc_end_at c\<rparr>
                          (tc_start_at c) # st_scheduled st\<rparr>"
| "subscribe_trigger i (PeerEvent c) st =
     st\<lparr>st_subscribers := pes_add i (events c) (st_subscribers st)\<rparr>"

definition subscribe :: "spell_id \<Rightarrow> spell_trigger_configs \<Rightarrow> subscribers_state \<Rightarrow> subscribers_state" where
  "subscribe i cfg st =
     (let st' = fold (subscribe_trigger i) (triggers cfg) st
      in st'\<lparr>st_active := insert i (st_active st')\<rparr>)"

definition unsubscribe :: "spell_id \<Rightarrow> subscribers_state \<Rightarrow> subscribers_state" where
  "unsubscribe i st = st\<lparr>st_active := st_active st - {i},
     st_scheduled := filter (\<lambda>s. per_id (data s) \<noteq> i) (st_scheduled st),
     st_subscribers := pes_remove i (st_subscribers st)\<rparr>"

definition state_subscribers :: "subscribers_state \<Rightarrow> peer_event_type \<Rightarrow> spell_id list" where
  "state_subscribers st t = pes_get (st_subscribers st) t"

definition next_scheduled_in :: "subscribers_state \<Rightarrow> instant \<Rightarrow> duration option" where
  "next_scheduled_in st now = map_option (\<lambda>r. r - now) (heap_peek_run_at (st_scheduled st))"

section \<open>The bus\<close>

record trigger_event =
  te_spell_id :: spell_id
  te_info :: trigger_info

datatype action = Subscribe spell_id spell_trigger_configs | Unsubscribe spell_id | Start

datatype bus_internal_error = Reply action | SendEvent spell_id trigger_info

text \<open>
  The locals of the loop: the subscriptions, whether the bus is started, the trigger events put
  into the outgoing channel so far and, when the bus has metrics, the count of finished spells.
\<close>

record bus =
  bus_state :: subscribers_state
  is_started :: bool
  sent :: "trigger_event list"
  finished_spells :: "nat option"

definition bus_new :: "nat option \<Rightarrow> bus" where
  "bus_new metrics = \<lparr>bus_state = subscribers_state_new, is_started = False, sent = [],
     finished_spells = metrics\<rparr>"

text \<open>
  Sending to the unbounded channel fails once the receiver is dropped.  The argument \<open>room\<close> says
  when that happens: \<open>None\<close> if the receiver stays, \<open>Some n\<close> if it is gone after \<open>n\<close> more sends.
\<close>

fun trigger_spells ::
    "nat option \<Rightarrow> spell_id list \<Rightarrow> trigger_info \<Rightarrow> trigger_event list \<times> (bus_internal_error + unit)" where
  "trigger_spells room [] info = ([], Inr ())"
| "trigger_spells room (i # is) info =
     (if room = Some 0 then ([], Inl (SendEvent i info))
      else let (evs, r) = trigger_spells (map_option (\<lambda>n. n - 1) room) is info
           in (\<lparr>te_spell_id = i, te_info = info\<rparr> # evs, r))"

definition handle_action :: "action \<Rightarrow> bus \<Rightarrow> bus" where
  "handle_action a b =
     (case a of
        Subscribe i cfg \<Rightarrow>
          (let st = (if i \<in> st_active (bus_state b) then unsubscribe i (bus_state b) else bus_state b)
           in b\<lparr>bus_state := subscribe i cfg st\<rparr>)
      | Unsubscribe i \<Rightarrow> b\<lparr>bus_state := unsubscribe i (bus_state b)\<rparr>
      | Start \<Rightarrow> b\<lparr>is_started := True\<rparr>)"

definition handle_command :: "action \<Rightarrow> bool \<Rightarrow> bus \<Rightarrow> (bus_internal_error + unit) \<times> bus" where
  "handle_command a reply_ok b = (if reply_ok then Inr () else Inl (Reply a), handle_action a b)"

definition handle_peer_event ::
    "nat option \<Rightarrow> peer_event \<Rightarrow> bus \<Rightarrow> (bus_internal_error + unit) \<times> bus" where
  "handle_peer_event room e b =
     (let (evs, r) = trigger_spells room (state_subscribers (bus_state b) (get_type e)) (PeerInfo e)
      in (r, b\<lparr>sent := sent b @ evs\<rparr>))"

definition reschedule :: "scheduled \<Rightarrow> instant \<Rightarrow> bus \<Rightarrow> bus" where
  "reschedule x now b =
     (case scheduled_at (data x) now of
        Some r \<Rightarrow> b\<lparr>bus_state := (bus_state b)\<lparr>st_scheduled := r # st_scheduled (bus_state b)\<rparr>\<rparr>
      | None \<Rightarrow> b\<lparr>bus_state := (bus_state b)\<lparr>st_active := st_active (bus_state b) - {per_id (data x)}\<rparr>,
                 finished_spells := map_option Suc (finished_spells b)\<rparr>)"

definition handle_timer ::
    "nat option \<Rightarrow> scheduled option \<Rightarrow> u64 \<Rightarrow> instant \<Rightarrow> bus \<Rightarrow> (bus_internal_error + unit) \<times> bus" where
  "handle_timer room popped ts now b =
     (case popped of
        None \<Rightarrow> (Inr (), b)
      | Some x \<Rightarrow>
          (let b' = b\<lparr>bus_state := (bus_state b)\<lparr>st_scheduled := remove1 x (st_scheduled (bus_state b))\<rparr>\<rparr>;
               (evs, r) = trigger_spells room [per_id (data x)] (TimerInfo \<lparr>timestamp = ts\<rparr>);
               b'' = b'\<lparr>sent := sent b' @ evs\<rparr>
           in case r of
                Inl e \<Rightarrow> (Inl e, b'')
              | Inr _ \<Rightarrow> (Inr (), reschedule x now b'')))"

text \<open>
  One iteration of the loop.  A peer event or a timer is taken only once the bus is started, and
  the timer only once the least \<^verbatim>\<open>run_at\<close> has come (\<^verbatim>\<open>now\<close> is the later reading at rescheduling).
\<close>

datatype bus_event =
    BusCommand action bool
  | BusPeerEvent "nat option" peer_event
  | BusTimer "nat option" "scheduled option" u64 instant

fun bus_handle :: "bus_event \<Rightarrow> bus \<Rightarrow> (bus_internal_error + unit) \<times> bus" where
  "bus_handle (BusCommand a reply_ok) b = handle_command a reply_ok b"
| "bus_handle (BusPeerEvent room e) b = handle_peer_event room e b"
| "bus_handle (BusTimer room popped ts now) b = handle_timer room popped ts now b"

fun bus_enabled :: "bus_event \<Rightarrow> bus \<Rightarrow> bool" where
  "bus_enabled (BusCommand a reply_ok) b = True"
| "bus_enabled (BusPeerEvent room e) b = is_started b"
| "bus_enabled (BusTimer room popped ts now) b =
     (is_started b \<and> popped \<noteq> None \<and> heap_pop_ok (st_scheduled (bus_state b)) popped
      \<and> next_scheduled_in (bus_state b) now = Some 0)"

inductive bus_step :: "bus \<Rightarrow> bus_event \<Rightarrow> bus \<Rightarrow> bool" where
  bus_stepI: "bus_enabled ev b \<Longrightarrow> snd (bus_handle ev b) = b' \<Longrightarrow> bus_step b ev b'"

inductive_simps bus_step_simps: "bus_step b ev b'"

section \<open>What subscribing and unsubscribing do\<close>

text \<open>The timers and the peer events a configuration asks for.\<close>

definition trigger_timers :: "spell_id \<Rightarrow> trigger_config list \<Rightarrow> scheduled list" where
  "trigger_timers i ts = List.map_filter (\<lambda>t. case t of
     Timer c \<Rightarrow> Some (scheduled_new \<lparr>per_id = i, per_period = tc_period c, per_end_at = tc_end_at c\<rparr> (tc_start_at c))
   | PeerEvent _ \<Rightarrow> None) ts"

definition trigger_events :: "trigger_config list \<Rightarrow> peer_event_type list" where
  "trigger_events ts = concat (map (\<lambda>t. case t of Timer _ \<Rightarrow> [] | PeerEvent p \<Rightarrow> events p) ts)"

lemma trigger_timers_simps [simp]:
  "trigger_timers i [] = []"
  "trigger_timers i (Timer c # ts) = scheduled_new \<lparr>per_id = i, per_period = tc_period c,
     per_end_at = tc_end_at c\<rparr> (tc_start_at c) # trigger_timers i ts"
  "trigger_timers i (PeerEvent p # ts) = trigger_timers i ts"
  by (simp_all add: trigger_timers_def map_filter_simps)

lemma trigger_events_simps [simp]:
  "trigger_events [] = []"
  "trigger_events (Timer c # ts) = trigger_events ts"
  "trigger_events (PeerEvent p # ts) = events p @ trigger_events ts"
  by (simp_all add: trigger_events_def)

lemma per_id_trigger_timers: "s \<in> set (trigger_timers i ts) \<Longrightarrow> per_id (data s) = i"
proof (induction ts)
  case (Cons t ts)
  then show ?case by (cases t) (auto simp: scheduled_new_def)
qed simp

lemma length_trigger_timers: "length (trigger_timers i ts) = length (filter is_timer ts)"
proof (induction ts)
  case (Cons t ts)
  then show ?case by (cases t) auto
qed simp

lemma pes_get_add: "pes_get (pes_add i ts p) t = pes_get p t @ replicate (count_list ts t) i"
proof (induction ts arbitrary: p)
  case (Cons u ts)
  have "pes_get (pes_add i (u # ts) p) t = pes_get (pes_add i ts (pes_add_one i u p)) t"
    by (simp add: pes_add_def)
  also have "\<dots> = pes_get (pes_add_one i u p) t @ replicate (count_list ts t) i"
    by (rule Cons.IH)
  also have "\<dots> = pes_get p t @ replicate (count_list (u # ts) t) i"
    by (auto simp: pes_get_def pes_add_one_def split: option.splits)
  finally show ?case .
qed (simp add: pes_add_def)

lemma pes_get_remove: "pes_get (pes_remove i p) t = filter (\<lambda>j. j \<noteq> i) (pes_get p t)"
  by (auto simp: pes_get_def pes_remove_def split: option.splits)

lemma fold_subscribe_trigger:
  "st_active (fold (subscribe_trigger i) ts st) = st_active st
   \<and> mset (st_scheduled (fold (subscribe_trigger i) ts st)) = mset (trigger_timers i ts) + mset (st_scheduled st)
   \<and> state_subscribers (fold (subscribe_trigger i) ts st) t =
       state_subscribers st t @ replicate (count_list (trigger_events ts) t) i"
proof (induction ts arbitrary: st)
  case (Cons x ts)
  show ?case using Cons.IH [of "subscribe_trigger i x st"]
    by (cases x) (simp_all add: state_subscribers_def pes_get_add replicate_add)
qed simp

lemma subscribe_effect:
  "st_active (subscribe i cfg st) = insert i (st_active st)"
  "mset (st_scheduled (subscribe i cfg st)) = mset (trigger_timers i (triggers cfg)) + mset (st_scheduled st)"
  "state_subscribers (subscribe i cfg st) t =
     state_subscribers st t @ replicate (count_list (trigger_events (triggers cfg)) t) i"
  using fold_subscribe_trigger [of i "triggers cfg" st t]
  by (simp_all add: subscribe_def Let_def state_subscribers_def)

lemma unsubscribe_effect:
  "st_active (unsubscribe i st) = st_active st - {i}"
  "st_scheduled (unsubscribe i st) = filter (\<lambda>s. per_id (data s) \<noteq> i) (st_scheduled st)"
  "state_subscribers (unsubscribe i st) t = filter (\<lambda>j. j \<noteq> i) (state_subscribers st t)"
  by (simp_all add: unsubscribe_def state_subscribers_def pes_get_remove)

lemma set_scheduled_subscribe:
  "set (st_scheduled (subscribe i cfg st)) = set (trigger_timers i (triggers cfg)) \<union> set (st_scheduled st)"
  using subscribe_effect(2) [of i cfg st] by (metis set_mset_mset set_mset_union)

text \<open>A spell is known to the bus when a timer or a peer-event list holds it.\<close>

definition mentions :: "spell_id \<Rightarrow> subscribers_state \<Rightarrow> bool" where
  "mentions i st \<longleftrightarrow> i \<in> (\<lambda>s. per_id (data s)) ` set (st_scheduled st)
     \<or> i \<in> set (state_subscribers st Connected) \<or> i \<in> set (state_subscribers st Disconnected)"

lemma mentions_scheduled: "\<not> mentions i st \<Longrightarrow> s \<in> set (st_scheduled st) \<Longrightarrow> per_id (data s) \<noteq> i"
  by (auto simp: mentions_def)

lemma mentions_subscribers: "\<not> mentions i st \<Longrightarrow> i \<notin> set (state_subscribers st t)"
  by (cases t) (auto simp: mentions_def)

lemma not_mentions_unsubscribe: "\<not> mentions i (unsubscribe i st)"
  by (auto simp: mentions_def unsubscribe_effect)

lemma mentions_unsubscribe: "mentions j (unsubscribe i st) \<Longrightarrow> mentions j st"
  by (auto simp: mentions_def unsubscribe_effect)

lemma mentions_subscribe: "mentions j (subscribe i cfg st) \<Longrightarrow> j = i \<or> mentions j st"
  by (auto simp: mentions_def subscribe_effect(3) set_scheduled_subscribe dest: per_id_trigger_timers)

text \<open>
  A \<^verbatim>\<open>Subscribe\<close> command for a spell that is active, or that the bus does not know, leaves
  exactly the new configuration: the spell's timers are those of the configuration, it stands in
  the list of a peer event as often as the configuration names the event, and all other spells keep
  their timers and their places.
\<close>

theorem subscribe_replaces:
  fixes i :: spell_id and cfg :: spell_trigger_configs and b :: bus and t :: peer_event_type
  assumes "i \<in> st_active (bus_state b) \<or> \<not> mentions i (bus_state b)"
  defines "st \<equiv> bus_state b" and "st' \<equiv> bus_state (handle_action (Subscribe i cfg) b)"
  shows "filter_mset (\<lambda>s. per_id (data s) = i) (mset (st_scheduled st')) = mset (trigger_timers i (triggers cfg))
    \<and> filter_mset (\<lambda>s. per_id (data s) \<noteq> i) (mset (st_scheduled st'))
        = filter_mset (\<lambda>s. per_id (data s) \<noteq> i) (mset (st_scheduled st))
    \<and> state_subscribers st' t = filter (\<lambda>j. j \<noteq> i) (state_subscribers st t)
        @ replicate (count_list (trigger_events (triggers cfg)) t) i
    \<and> i \<in> st_active st'"
proof -
  let ?T = "trigger_timers i (triggers cfg)"
  have yes: "filter_mset (\<lambda>s. per_id (data s) = i) (mset ?T) = mset ?T"
    by (auto simp: filter_mset_eq_conv dest: per_id_trigger_timers)
  have no: "filter_mset (\<lambda>s. per_id (data s) \<noteq> i) (mset ?T) = {#}"
    by (auto dest: per_id_trigger_timers)
  have "\<exists>st0. st' = subscribe i cfg st0 \<and> st_scheduled st0 = filter (\<lambda>s. per_id (data s) \<noteq> i) (st_scheduled st)
      \<and> state_subscribers st0 t = filter (\<lambda>j. j \<noteq> i) (state_subscribers st t)"
  proof (cases "i \<in> st_active st")
    case True
    then show ?thesis
      by (intro exI [of _ "unsubscribe i st"])
        (simp add: st'_def st_def handle_action_def unsubscribe_effect)
  next
    case False
    with assms(1) have "\<not> mentions i st" by (simp add: st_def)
    then have "filter (\<lambda>s. per_id (data s) \<noteq> i) (st_scheduled st) = st_scheduled st"
      "filter (\<lambda>j. j \<noteq> i) (state_subscribers st t) = state_subscribers st t"
      by (auto simp: filter_id_conv dest: mentions_scheduled mentions_subscribers)
    with False show ?thesis
      by (intro exI [of _ st]) (simp add: st'_def st_def handle_action_def)
  qed
  then obtain st0 where st0: "st' = subscribe i cfg st0"
    "st_scheduled st0 = filter (\<lambda>s. per_id (data s) \<noteq> i) (st_scheduled st)"
    "state_subscribers st0 t = filter (\<lambda>j. j \<noteq> i) (state_subscribers st t)" by blast
  have "filter_mset (\<lambda>s. per_id (data s) = i) (mset (st_scheduled st0)) = {#}"
    "filter_mset (\<lambda>s. per_id (data s) \<noteq> i) (mset (st_scheduled st0))
       = filter_mset (\<lambda>s. per_id (data s) \<noteq> i) (mset (st_scheduled st))"
    by (simp_all add: st0(2) filter_filter_mset)
  then show ?thesis
    using yes no by (simp add: st0(1) st0(3) subscribe_effect)
qed

lemma subscribers_state_new_simps [simp]:
  "st_scheduled subscribers_state_new = []" "st_active subscribers_state_new = {}"
  "state_subscribers subscribers_state_new t = []"
  by (simp_all add: subscribers_state_new_def state_subscribers_def pes_new_def pes_get_def)

lemma not_mentions_new [simp]: "\<not> mentions i subscribers_state_new"
  by (simp add: mentions_def)

theorem subscribe_replaces_witness:
  "state_subscribers (bus_state (handle_action (Subscribe ''s1'' minutely_config) (bus_new None))) Connected = [''s1'']"
  using subscribe_replaces [of "''s1''" "bus_new None" minutely_config Connected]
  by (simp add: bus_new_def minutely_config_def)

section \<open>An unsubscribed spell is silent\<close>

lemma trigger_spells_ids: "te_spell_id ` set (fst (trigger_spells room is info)) \<subseteq> set is"
  by (induction room "is" info rule: trigger_spells.induct) (auto simp: split_beta Let_def)

lemma trigger_spells_eq:
  "trigger_spells room is info =
     (let n = (case room of None \<Rightarrow> length is | Some n \<Rightarrow> min n (length is))
      in (map (\<lambda>i. \<lparr>te_spell_id = i, te_info = info\<rparr>) (take n is),
          if n < length is then Inl (SendEvent (is ! n) info) else Inr ()))"
proof (induction room "is" info rule: trigger_spells.induct)
  case (2 room i "is" info)
  show ?case
  proof (cases room)
    case None
    with 2 show ?thesis by (simp add: Let_def)
  next
    case (Some n)
    with 2 show ?thesis by (cases n) (auto simp: Let_def)
  qed
qed (auto simp: Let_def split: option.splits)

definition events_for :: "spell_id \<Rightarrow> bus \<Rightarrow> trigger_event list" where
  "events_for i b = filter (\<lambda>e. te_spell_id e = i) (sent b)"

lemma filter_trigger_spells:
  "i \<notin> set is \<Longrightarrow> filter (\<lambda>e. te_spell_id e = i) (fst (trigger_spells room is info)) = []"
  using trigger_spells_ids [of room "is" info] by (auto simp: filter_empty_conv)

lemma reschedule_frame [nox_frame]:
  "sent (reschedule x now b) = sent b"
  "is_started (reschedule x now b) = is_started b"
  "st_subscribers (bus_state (reschedule x now b)) = st_subscribers (bus_state b)"
  by (simp_all add: reschedule_def split: option.splits)

lemma set_scheduled_reschedule:
  "s \<in> set (st_scheduled (bus_state (reschedule x now b))) \<Longrightarrow>
     s \<in> set (st_scheduled (bus_state b)) \<or> data s = data x"
  by (auto simp: reschedule_def scheduled_at_def split: option.splits if_splits)

lemma mentions_reschedule:
  "mentions i (bus_state (reschedule x now b)) \<Longrightarrow> mentions i (bus_state b) \<or> i = per_id (data x)"
  by (auto simp: mentions_def state_subscribers_def nox_frame dest!: set_scheduled_reschedule)

lemma not_mentions_remove1:
  "\<not> mentions i st \<Longrightarrow> \<not> mentions i (st\<lparr>st_scheduled := remove1 x (st_scheduled st)\<rparr>)"
  using set_remove1_subset [of x "st_scheduled st"]
  by (auto simp: mentions_def state_subscribers_def)

definition subscribes :: "spell_id \<Rightarrow> bus_event \<Rightarrow> bool" where
  "subscribes i ev = (case ev of BusCommand (Subscribe j _) _ \<Rightarrow> j = i | _ \<Rightarrow> False)"

definition silent_from :: "spell_id \<Rightarrow> trigger_event list \<Rightarrow> bus \<Rightarrow> bool" where
  "silent_from i evs b \<longleftrightarrow> \<not> mentions i (bus_state b) \<and> events_for i b = evs"

text \<open>The timer branch sends one event: it fails only when there is no room for it.\<close>

definition timer_taken :: "scheduled \<Rightarrow> bus \<Rightarrow> bus" where
  "timer_taken x b = b\<lparr>bus_state := (bus_state b)\<lparr>st_scheduled := remove1 x (st_scheduled (bus_state b))\<rparr>\<rparr>"

definition timer_sent :: "scheduled \<Rightarrow> u64 \<Rightarrow> bus \<Rightarrow> bus" where
  "timer_sent x ts b = (timer_taken x b)\<lparr>sent := sent b
     @ [\<lparr>te_spell_id = per_id (data x), te_info = TimerInfo \<lparr>timestamp = ts\<rparr>\<rparr>]\<rparr>"

lemma handle_timer_Some:
  "handle_timer room (Some x) ts now b =
     (if room = Some 0 then (Inl (SendEvent (per_id (data x)) (TimerInfo \<lparr>timestamp = ts\<rparr>)), timer_taken x b)
      else (Inr (), reschedule x now (timer_sent x ts b)))"
  by (simp add: handle_timer_def timer_taken_def timer_sent_def Let_def)

lemma timer_simps [simp]:
  "sent (timer_taken x b) = sent b"
  "is_started (timer_taken x b) = is_started b"
  "bus_state (timer_sent x ts b) = bus_state (timer_taken x b)"
  "is_started (timer_sent x ts b) = is_started b"
  "st_scheduled (bus_state (timer_taken x b)) = remove1 x (st_scheduled (bus_state b))"
  "st_active (bus_state (timer_taken x b)) = st_active (bus_state b)"
  by (simp_all add: timer_taken_def timer_sent_def)

lemma not_mentions_timer_taken: "\<not> mentions i (bus_state b) \<Longrightarrow> \<not> mentions i (bus_state (timer_taken x b))"
  by (simp add: timer_taken_def not_mentions_remove1)

lemma silent_timer:
  assumes "silent_from i evs b" and "x \<in> set (st_scheduled (bus_state b))"
  shows "silent_from i evs (snd (handle_timer room (Some x) ts now b))"
proof -
  have i: "per_id (data x) \<noteq> i"
    using assms mentions_scheduled by (auto simp: silent_from_def)
  have m: "\<not> mentions i (bus_state (timer_taken x b))"
    using assms(1) by (simp add: silent_from_def not_mentions_timer_taken)
  then have "\<not> mentions i (bus_state (reschedule x now (timer_sent x ts b)))"
    using mentions_reschedule [of i x now "timer_sent x ts b"] i by auto
  with m i assms(1) show ?thesis
    by (simp add: handle_timer_Some silent_from_def events_for_def nox_frame timer_sent_def)
qed

lemma silent_step:
  assumes "silent_from i evs b" and "bus_step b ev b'" and "\<not> subscribes i ev"
  shows "silent_from i evs b'"
proof (cases ev)
  case (BusCommand a ok)
  with assms show ?thesis
    by (auto simp: bus_step_simps silent_from_def handle_command_def handle_action_def subscribes_def
        events_for_def Let_def dest!: mentions_subscribe mentions_unsubscribe
        split: action.splits if_splits)
next
  case (BusPeerEvent room e)
  with assms show ?thesis
    using filter_trigger_spells [OF mentions_subscribers, of i "bus_state b" room "get_type e" "PeerInfo e"]
    by (auto simp: bus_step_simps silent_from_def handle_peer_event_def events_for_def split_beta)
next
  case (BusTimer room popped ts now)
  with assms(2) obtain x where x: "popped = Some x" "x \<in> set (st_scheduled (bus_state b))"
    by (auto simp: bus_step_simps heap_pop_ok_def)
  with assms(1) have "silent_from i evs (snd (handle_timer room (Some x) ts now b))"
    by (intro silent_timer)
  with x BusTimer assms(2) show ?thesis by (simp add: bus_step_simps)
qed

text \<open>
  C4: once a spell is unsubscribed the bus sends it nothing more until it is subscribed again:
  along every run of the loop without a \<^verbatim>\<open>Subscribe\<close> command for the spell, the trigger events sent
  to it are those sent before.
\<close>

theorem unsubscribed_spell_is_silent:
  assumes "trace bus_step (snd (handle_command (Unsubscribe i) ok b)) evs b'"
    and "list_all (\<lambda>ev. \<not> subscribes i ev) evs"
  shows "events_for i b' = events_for i b"
proof -
  have "silent_from i (events_for i b) (snd (handle_command (Unsubscribe i) ok b))"
    by (simp add: silent_from_def handle_command_def handle_action_def not_mentions_unsubscribe events_for_def)
  from trace_preserves [where P = "silent_from i (events_for i b)", OF silent_step assms(1) this assms(2)]
  show ?thesis by (simp add: silent_from_def)
qed

theorem unsubscribed_spell_is_silent_witness:
  "events_for ''s1'' (snd (handle_peer_event None \<lparr>pe_peer_id = ''p'', connected = True\<rparr>
       (snd (handle_command Start True (snd (handle_command (Unsubscribe ''s1'') True
         (handle_action (Subscribe ''s1'' minutely_config) (bus_new None)))))))) = []"
  (is "events_for _ ?b3 = []")
proof -
  let ?b0 = "handle_action (Subscribe ''s1'' minutely_config) (bus_new None)"
  let ?evs = "[BusCommand Start True, BusPeerEvent None \<lparr>pe_peer_id = ''p'', connected = True\<rparr>]"
  have t: "trace bus_step (snd (handle_command (Unsubscribe ''s1'') True ?b0)) ?evs ?b3"
    by (simp add: trace_Cons_simps bus_step_simps handle_command_def handle_action_def)
  have ok: "list_all (\<lambda>ev. \<not> subscribes ''s1'' ev) ?evs"
    by (simp add: subscribes_def)
  have "events_for ''s1'' ?b0 = []" by (simp add: events_for_def handle_action_def bus_new_def)
  with unsubscribed_spell_is_silent [OF t ok] show ?thesis by simp
qed

section \<open>Invariant of the loop\<close>

text \<open>
  Configurations that come from users name at most one timer (C4), and rescheduling them keeps
  that.  Under such subscriptions every active timer belongs to an active spell, and to one only.
\<close>

definition cfg_ok :: "spell_trigger_configs \<Rightarrow> bool" where
  "cfg_ok cfg = (length (filter is_timer (triggers cfg)) \<le> 1)"

definition bus_event_ok :: "bus_event \<Rightarrow> bool" where
  "bus_event_ok ev = (case ev of BusCommand (Subscribe _ cfg) _ \<Rightarrow> cfg_ok cfg | _ \<Rightarrow> True)"

definition bus_start :: "bus \<Rightarrow> bool" where
  "bus_start b = (\<exists>metrics. b = bus_new metrics)"

definition bus_user_step :: "bus \<Rightarrow> bus_event \<Rightarrow> bus \<Rightarrow> bool" where
  "bus_user_step b ev b' = (bus_step b ev b' \<and> bus_event_ok ev)"

definition sched_ids :: "subscribers_state \<Rightarrow> spell_id list" where
  "sched_ids st = map (\<lambda>s. per_id (data s)) (st_scheduled st)"

definition sched_inv :: "subscribers_state \<Rightarrow> bool" where
  "sched_inv st \<longleftrightarrow> distinct (sched_ids st) \<and> set (sched_ids st) \<subseteq> st_active st"

definition bus_inv :: "bus \<Rightarrow> bool" where
  "bus_inv b \<longleftrightarrow> sched_inv (bus_state b) \<and> (\<not> is_started b \<longrightarrow> sent b = [])"

lemma mset_sched_ids: "mset (sched_ids st) = image_mset (\<lambda>s. per_id (data s)) (mset (st_scheduled st))"
  by (simp add: sched_ids_def)

lemma sched_inv_cong:
  "mset (st_scheduled st) = mset xs \<Longrightarrow>
     sched_inv st \<longleftrightarrow> distinct (map (\<lambda>s. per_id (data s)) xs) \<and> (\<lambda>s. per_id (data s)) ` set xs \<subseteq> st_active st"
  using mset_eq_imp_distinct_iff [of "sched_ids st" "map (\<lambda>s. per_id (data s)) xs"]
    mset_eq_setD [of "sched_ids st" "map (\<lambda>s. per_id (data s)) xs"]
  by (simp add: sched_inv_def mset_sched_ids)

lemma sched_inv_unsubscribe [nox_inv]: "sched_inv st \<Longrightarrow> sched_inv (unsubscribe i st)"
  by (auto simp: sched_inv_def sched_ids_def unsubscribe_effect distinct_map_filter)

lemma sched_inv_subscribe [nox_inv]:
  assumes "sched_inv st" "i \<notin> set (sched_ids st)" "cfg_ok cfg"
  shows "sched_inv (subscribe i cfg st)"
proof -
  let ?T = "trigger_timers i (triggers cfg)"
  have "length ?T \<le> 1" using assms(3) by (simp add: length_trigger_timers cfg_ok_def)
  then have "distinct (map (\<lambda>s. per_id (data s)) ?T)" by (cases ?T) simp_all
  then show ?thesis
    using assms subscribe_effect(2) [of i cfg st]
    by (subst sched_inv_cong [where xs = "?T @ st_scheduled st"])
      (auto simp: subscribe_effect(1) sched_inv_def sched_ids_def dest!: per_id_trigger_timers)
qed

lemma sched_inv_taken:
  assumes "sched_inv (bus_state b)" "x \<in> set (st_scheduled (bus_state b))"
  shows "sched_inv (bus_state (timer_taken x b))"
    and "per_id (data x) \<notin> set (sched_ids (bus_state (timer_taken x b)))"
    and "per_id (data x) \<in> st_active (bus_state b)"
proof -
  have m: "mset (st_scheduled (bus_state b)) = mset (x # remove1 x (st_scheduled (bus_state b)))"
    using assms(2) by simp
  show "sched_inv (bus_state (timer_taken x b))"
    "per_id (data x) \<notin> set (sched_ids (bus_state (timer_taken x b)))"
    "per_id (data x) \<in> st_active (bus_state b)"
    using assms(1) unfolding sched_inv_cong [OF m] by (auto simp: sched_inv_def sched_ids_def)
qed

lemma sched_inv_reschedule [nox_inv]:
  assumes "sched_inv (bus_state b)" "per_id (data x) \<notin> set (sched_ids (bus_state b))"
    and "per_id (data x) \<in> st_active (bus_state b)"
  shows "sched_inv (bus_state (reschedule x now b))"
proof (cases "scheduled_at (data x) now")
  case None
  with assms show ?thesis
    by (simp add: reschedule_def sched_inv_def sched_ids_def subset_Diff_insert)
next
  case (Some r)
  then have "data r = data x" by (auto simp: scheduled_at_def split: option.splits if_splits)
  with Some assms show ?thesis by (auto simp: reschedule_def sched_inv_def sched_ids_def)
qed

lemma bus_inv_command [nox_inv]:
  assumes "bus_inv b" "bus_event_ok (BusCommand a ok)"
  shows "bus_inv (handle_action a b)"
proof (cases a)
  case (Subscribe i cfg)
  define st where "st = (if i \<in> st_active (bus_state b) then unsubscribe i (bus_state b) else bus_state b)"
  have inv: "sched_inv (bus_state b)" using assms(1) by (simp add: bus_inv_def)
  have "sched_inv st" using inv by (simp add: st_def sched_inv_unsubscribe)
  moreover have "i \<notin> set (sched_ids st)"
    using inv by (auto simp: st_def sched_ids_def unsubscribe_effect sched_inv_def)
  ultimately have "sched_inv (subscribe i cfg st)"
    using assms(2) Subscribe by (intro sched_inv_subscribe) (auto simp: bus_event_ok_def)
  then show ?thesis using assms(1) Subscribe by (simp add: bus_inv_def handle_action_def st_def)
qed (use assms in \<open>auto simp: bus_inv_def handle_action_def nox_inv\<close>)

lemma bus_inv_timer [nox_inv]:
  assumes "bus_inv b" "is_started b" "x \<in> set (st_scheduled (bus_state b))"
  shows "bus_inv (snd (handle_timer room (Some x) ts now b))"
proof -
  have inv: "sched_inv (bus_state b)" using assms(1) by (simp add: bus_inv_def)
  note taken = sched_inv_taken [OF inv assms(3)]
  then have "sched_inv (bus_state (reschedule x now (timer_sent x ts b)))"
    by (intro sched_inv_reschedule) simp_all
  with taken(1) assms(2) show ?thesis by (simp add: bus_inv_def handle_timer_Some nox_frame)
qed

lemma bus_inv_step: "bus_inv b \<Longrightarrow> bus_user_step b ev b' \<Longrightarrow> bus_inv b'"
proof (cases ev)
  case (BusCommand a ok)
  assume "bus_inv b" "bus_user_step b ev b'"
  then show ?thesis
    using BusCommand bus_inv_command [of b a ok]
    by (auto simp: bus_user_step_def bus_step_simps handle_command_def)
next
  case (BusPeerEvent room e)
  assume "bus_inv b" "bus_user_step b ev b'"
  then show ?thesis
    using BusPeerEvent
    by (auto simp: bus_user_step_def bus_step_simps handle_peer_event_def bus_inv_def split_beta)
next
  case (BusTimer room popped ts now)
  assume "bus_inv b" "bus_user_step b ev b'"
  then show ?thesis
    using BusTimer bus_inv_timer [of b]
    by (auto simp: bus_user_step_def bus_step_simps heap_pop_ok_def)
qed

interpretation bus: invariant_system bus_start bus_user_step bus_inv
proof unfold_locales
  show "bus_start b \<Longrightarrow> bus_inv b" for b
    by (auto simp: bus_start_def bus_new_def bus_inv_def sched_inv_def sched_ids_def)
qed (rule bus_inv_step)

text \<open>
  C7: in every state the loop reaches, whatever the order of commands, peer events and timers, each
  spell has at most one timer in the heap, only active spells have one, and nothing has been sent
  before the \<^verbatim>\<open>Start\<close> command.
\<close>

theorem bus_reachable_inv:
  assumes "reachable bus_start bus_user_step b"
  shows "distinct (sched_ids (bus_state b)) \<and> set (sched_ids (bus_state b)) \<subseteq> st_active (bus_state b)
    \<and> (\<not> is_started b \<longrightarrow> sent b = [])"
  using bus.reachable_inv [OF assms] by (simp add: bus_inv_def sched_inv_def)

text \<open>A spell with a timer is subscribed, the bus started, and the timer fires twice.\<close>

definition tick :: "instant \<Rightarrow> scheduled" where
  "tick t = \<lparr>data = \<lparr>per_id = ''s1'', per_period = 60 * NANOS, per_end_at = None\<rparr>, run_at = t\<rparr>"

definition bus_demo_events :: "bus_event list" where
  "bus_demo_events = [BusCommand (Subscribe ''s1'' minutely_config) True, BusCommand Start True,
     BusTimer None (Some (tick 7)) 1 8, BusTimer None (Some (tick (8 + 60 * NANOS))) 61 (9 + 60 * NANOS)]"

definition bus_demo :: bus where
  "bus_demo = fold (\<lambda>ev b. snd (bus_handle ev b)) bus_demo_events (bus_new (Some 0))"

lemmas bus_eval = bus_handle.simps handle_command_def handle_action_def handle_timer_Some
  handle_peer_event_def reschedule_def scheduled_at_def time_checked_add_def timer_sent_def
  timer_taken_def subscribe_def unsubscribe_def pes_add_def pes_add_one_def pes_remove_def
  pes_get_def state_subscribers_def bus_new_def subscribers_state_new_def pes_new_def
  scheduled_new_def get_type_def

lemma bus_demo_reachable: "reachable bus_start bus_user_step bus_demo"
proof (rule trace_reachable)
  show "reachable bus_start bus_user_step (bus_new (Some 0))"
    by (rule reach_start) (auto simp: bus_start_def)
  show "trace bus_user_step (bus_new (Some 0)) bus_demo_events bus_demo"
    by (simp add: bus_demo_def bus_demo_events_def trace_Cons_simps bus_user_step_def bus_step_simps
        bus_event_ok_def cfg_ok_def minutely_config_def timer_periodic_def tick_def heap_pop_ok_def
        next_scheduled_in_def bus_eval TIME_MAX_def NANOS_def)
qed

theorem bus_reachable_inv_witness:
  "distinct (sched_ids (bus_state bus_demo))
    \<and> set (sched_ids (bus_state bus_demo)) \<subseteq> st_active (bus_state bus_demo) \<and> length (sent bus_demo) = 2"
proof -
  have "length (sent bus_demo) = 2"
    by (simp add: bus_demo_def bus_demo_events_def minutely_config_def timer_periodic_def tick_def
        bus_eval TIME_MAX_def NANOS_def)
  with bus_reachable_inv [OF bus_demo_reachable] show ?thesis by blast
qed

section \<open>What is sent\<close>

text \<open>
  A peer event is sent to the subscribers of its kind in the order they subscribed, once per
  subscription, as long as the receiver is there; subscriptions do not change, and the only error is
  that of a receiver that is gone before the last of them.
\<close>

theorem peer_event_dispatch:
  "let subs = state_subscribers (bus_state b) (get_type e) in
    sent (snd (handle_peer_event room e b)) =
      sent b @ map (\<lambda>i. \<lparr>te_spell_id = i, te_info = PeerInfo e\<rparr>)
                 (case room of None \<Rightarrow> subs | Some n \<Rightarrow> take n subs)
    \<and> bus_state (snd (handle_peer_event room e b)) = bus_state b
    \<and> (fst (handle_peer_event room e b) = Inr () \<longleftrightarrow>
        (case room of None \<Rightarrow> True | Some n \<Rightarrow> length subs \<le> n))"
  by (auto simp: handle_peer_event_def trigger_spells_eq Let_def min_def split: option.splits)

lemma scheduled_at_Some:
  "scheduled_at d now = Some r \<longleftrightarrow>
     data r = d \<and> run_at r = now + per_period d \<and> run_at r \<le> TIME_MAX
     \<and> (\<forall>e. per_end_at d = Some e \<longrightarrow> run_at r < e) \<and> scheduled.more r = ()"
  by (cases r) (auto simp: scheduled_at_def time_checked_add_def split: option.splits if_splits)

lemma bus_timer_step:
  assumes "reachable bus_start bus_user_step b"
    and "bus_step b (BusTimer room (Some x) ts now) b'"
  shows "sched_inv (bus_state (timer_taken x b))"
    and "per_id (data x) \<notin> set (sched_ids (bus_state (timer_taken x b)))"
    and "per_id (data x) \<in> st_active (bus_state b)"
    and "b' = snd (handle_timer room (Some x) ts now b)"
proof -
  have inv: "sched_inv (bus_state b)" using bus.reachable_inv [OF assms(1)] by (simp add: bus_inv_def)
  have "x \<in> set (st_scheduled (bus_state b))" and b': "b' = snd (handle_timer room (Some x) ts now b)"
    using assms(2) by (auto simp: bus_step_simps heap_pop_ok_def)
  from sched_inv_taken [OF inv this(1)] b' show "sched_inv (bus_state (timer_taken x b))"
    "per_id (data x) \<notin> set (sched_ids (bus_state (timer_taken x b)))"
    "per_id (data x) \<in> st_active (bus_state b)" "b' = snd (handle_timer room (Some x) ts now b)"
    by auto
qed

lemma heap_peek_Min: "h \<noteq> [] \<Longrightarrow> heap_peek_run_at h = Some (Min (run_at ` set h))"
proof (induction h)
  case (Cons z h)
  then show ?case by (cases h) auto
qed simp

lemma timer_is_due: "bus_step b (BusTimer room (Some x) ts now) b' \<Longrightarrow> run_at x \<le> now"
proof -
  assume step: "bus_step b (BusTimer room (Some x) ts now) b'"
  let ?h = "st_scheduled (bus_state b)"
  have h: "?h \<noteq> []" "\<forall>y \<in> set ?h. run_at x \<le> run_at y"
    using step by (auto simp: bus_step_simps heap_pop_ok_def list_all_iff)
  have "Min (run_at ` set ?h) \<le> now"
    using step h(1) by (simp add: bus_step_simps next_scheduled_in_def heap_peek_Min)
  moreover have "run_at x \<le> Min (run_at ` set ?h)" using h by simp
  ultimately show ?thesis by (rule order_trans [rotated])
qed


lemma demo_timer_step:
  "bus_step bus_demo (BusTimer None (Some (tick (9 + 120 * NANOS))) 121 (9 + 120 * NANOS))
     (snd (handle_timer None (Some (tick (9 + 120 * NANOS))) 121 (9 + 120 * NANOS) bus_demo))"
  by (simp add: bus_demo_def bus_demo_events_def bus_step_simps minutely_config_def timer_periodic_def
      tick_def heap_pop_ok_def next_scheduled_in_def bus_eval TIME_MAX_def NANOS_def)


text \<open>
  A one-shot timer fires once: after it has fired the spell has no timer and is not active, and
  the metrics count it as finished.
\<close>

theorem oneshot_fires_once:
  assumes "reachable bus_start bus_user_step b"
    and "bus_step b (BusTimer None (Some x) ts now) b'"
    and "x = scheduled_new \<lparr>per_id = i, per_period = tc_period (timer_oneshot t),
               per_end_at = tc_end_at (timer_oneshot t)\<rparr> (tc_start_at (timer_oneshot t))"
  shows "i \<notin> set (sched_ids (bus_state b')) \<and> i \<notin> st_active (bus_state b')
    \<and> finished_spells b' = map_option Suc (finished_spells b)
    \<and> length (events_for i b') = Suc (length (events_for i b))"
proof -
  note s = bus_timer_step [OF assms(1,2)]
  have x: "per_id (data x) = i" "per_period (data x) = 0" "per_end_at (data x) = Some t" "run_at x = t"
    using assms(3) by (simp_all add: scheduled_new_def timer_oneshot_def)
  have "run_at x \<le> now" using assms(2) by (rule timer_is_due)
  then have none: "scheduled_at (data x) now = None"
    using x by (auto simp: scheduled_at_def time_checked_add_def)
  show ?thesis
    using s(2) x none
    by (auto simp: s(4) handle_timer_Some reschedule_def events_for_def timer_sent_def timer_taken_def
        sched_ids_def)
qed

text \<open>A spell with a one-shot timer at instant 7 that also listens for connections.\<close>

definition once_config :: spell_trigger_configs where
  "once_config = \<lparr>triggers = [Timer (timer_oneshot 7), PeerEvent \<lparr>events = [Connected]\<rparr>]\<rparr>"

definition once_timer :: scheduled where
  "once_timer = scheduled_new \<lparr>per_id = ''s1'', per_period = tc_period (timer_oneshot 7),
     per_end_at = tc_end_at (timer_oneshot 7)\<rparr> (tc_start_at (timer_oneshot 7))"

definition bus_once :: bus where
  "bus_once = handle_action Start (handle_action (Subscribe ''s1'' once_config) (bus_new (Some 0)))"

lemma bus_once_reachable: "reachable bus_start bus_user_step bus_once"
proof (rule trace_reachable)
  show "reachable bus_start bus_user_step (bus_new (Some 0))"
    by (rule reach_start) (auto simp: bus_start_def)
  show "trace bus_user_step (bus_new (Some 0))
      [BusCommand (Subscribe ''s1'' once_config) True, BusCommand Start True] bus_once"
    by (simp add: bus_once_def trace_Cons_simps bus_user_step_def bus_step_simps handle_command_def
        bus_event_ok_def cfg_ok_def once_config_def)
qed

lemma once_timer_step:
  "bus_step bus_once (BusTimer None (Some once_timer) 3 8)
     (snd (handle_timer None (Some once_timer) 3 8 bus_once))"
  by (simp add: bus_once_def once_config_def once_timer_def bus_step_simps timer_oneshot_def
      heap_pop_ok_def next_scheduled_in_def bus_eval)

theorem oneshot_fires_once_witness:
  "''s1'' \<notin> st_active (bus_state (snd (handle_timer None (Some once_timer) 3 8 bus_once)))
   \<and> finished_spells (snd (handle_timer None (Some once_timer) 3 8 bus_once)) = Some 1"
proof -
  have "finished_spells bus_once = Some 0"
    by (simp add: bus_once_def handle_action_def bus_new_def)
  with oneshot_fires_once [OF bus_once_reachable once_timer_step once_timer_def] show ?thesis by simp
qed

text \<open>
  The hypothesis of C6 matters.  When the timer of a spell has finished, the spell is no longer
  active although its peer-event subscriptions are still there; subscribing it again adds to them,
  and a single connection then triggers the spell twice although each configuration asks for it once.
\<close>

definition bus_resubscribed :: bus where
  "bus_resubscribed = handle_action (Subscribe ''s1'' once_config)
     (snd (handle_timer None (Some once_timer) 3 8 bus_once))"

lemma bus_resubscribed_reachable: "reachable bus_start bus_user_step bus_resubscribed"
proof (rule trace_reachable [OF _ bus_once_reachable])
  show "trace bus_user_step bus_once
      [BusTimer None (Some once_timer) 3 8, BusCommand (Subscribe ''s1'' once_config) True] bus_resubscribed"
    using once_timer_step
    by (simp add: trace_Cons_simps bus_user_step_def bus_step_simps handle_command_def
        bus_event_ok_def cfg_ok_def once_config_def bus_resubscribed_def)
qed

lemma resubscribe_duplicates:
  "reachable bus_start bus_user_step bus_resubscribed
   \<and> map te_spell_id (sent (snd (handle_peer_event None \<lparr>pe_peer_id = ''p'', connected = True\<rparr> bus_resubscribed)))
       = [''s1'', ''s1'', ''s1'']"
  using bus_resubscribed_reachable
  by (simp add: bus_resubscribed_def bus_once_def once_config_def once_timer_def timer_oneshot_def bus_eval)

end
