(* ===== verification/Core_Types.thy ===== *)
theory Core_Types
  imports Nox_Prelude
begin

text \<open>
  Data of the core manager (\<^verbatim>\<open>crates/core-manager/src/types.rs\<close>, \<^verbatim>\<open>errors.rs\<close>, \<^verbatim>\<open>persistence.rs\<close>) and
  the operations it takes from third-party crates.  Those crates are parameters: a record of
  operations for each, with the documented behaviour the managers rely on as a named predicate, and
  an instance that has it.
\<close>

section \<open>Requests, assignments, errors\<close>

datatype work_type = CapacityCommitment | Deal

record acquire_request =
  unit_ids :: "cuid list"
  worker_type :: work_type

definition acquire_request_new :: "cuid list \<Rightarrow> work_type \<Rightarrow> acquire_request" where
  "acquire_request_new us t = \<lparr>unit_ids = us, worker_type = t\<rparr>"

record cores =
  c_physical_core_id :: physical_core_id
  c_logical_core_ids :: "logical_core_id list"

text \<open>A \<^verbatim>\<open>BTreeSet\<close> is a finite set, a \<^verbatim>\<open>Map\<close> that is only looked up a partial function.\<close>

record assignment =
  physical_core_ids :: "physical_core_id set"
  logical_core_ids :: "logical_core_id set"
  cuid_cores :: "cuid \<rightharpoonup> cores"

type_synonym current_assignment = "(physical_core_id \<times> cuid) list"

datatype acquire_error = NotFoundAvailableCores nat nat current_assignment

datatype 'te create_error =
    IllegalSystemCoreCount
  | NotEnoughCores nat nat
  | CreateTopology 'te
  | CollectCoresData 'te

datatype ('io, 'ser) persist_error = PersistIoError 'io | SerializationError 'ser

datatype ('te, 'io, 'utf, 'de, 'ser) loading_error =
    CreateCoreManager "'te create_error"
  | LoadIoError 'io
  | DecodeError 'utf
  | DeserializationError 'de
  | LoadPersistError "('io, 'ser) persist_error"

text \<open>
  \<^verbatim>\<open>Display for CurrentAssignment\<close> slices the vector up to its length minus one and then reads the
  last element: on an empty vector it panics (\<open>None\<close>).  The printers of the ids are third-party.
\<close>

definition current_assignment_fmt ::
    "(physical_core_id \<Rightarrow> string) \<Rightarrow> (cuid \<Rightarrow> string) \<Rightarrow> current_assignment \<Rightarrow> string option" where
  "current_assignment_fmt fmt_core fmt_cuid ca =
     (if ca = [] then None
      else let entry = (\<lambda>(core, cu). fmt_core core @ '' -> '' @ fmt_cuid cu)
           in Some (''['' @ concat (map (\<lambda>e. entry e @ '', '') (butlast ca)) @ entry (last ca) @ '']''))"

text \<open>The state as it is written to disk.\<close>

record persistent_state =
  ps_cores_mapping :: "(physical_core_id \<times> logical_core_id) list"
  ps_system_cores :: "physical_core_id list"
  ps_available_cores :: "physical_core_id list"
  ps_unit_id_mapping :: "(physical_core_id \<times> cuid) list"
  ps_work_type_mapping :: "(cuid \<times> work_type) list"

text \<open>
  \<^verbatim>\<open>PersistentCoreManagerState::persist\<close>: serialise, create (and thereby empty) the file, write it.
  Serialiser and file system are parameters.  A single \<^verbatim>\<open>File::write\<close> returns how many bytes it
  wrote; the code does not look at the number, so a short write leaves a prefix of the text.  The
  second component is the content of the file afterwards.
\<close>

record ('io, 'utf, 'de, 'ser) core_file_io =
  cf_read_err :: "'io option"
  cf_utf8_err :: "string \<Rightarrow> 'utf option"
  cf_toml_de :: "string \<Rightarrow> 'de + persistent_state"
  cf_toml_ser :: "persistent_state \<Rightarrow> 'ser + string"
  cf_create_err :: "'io option"
  cf_write :: "'io + nat"

definition persist_state ::
    "('io, 'utf, 'de, 'ser) core_file_io \<Rightarrow> persistent_state \<Rightarrow> string option
      \<Rightarrow> (('io, 'ser) persist_error + unit) \<times> string option" where
  "persist_state io ps file =
     (case cf_toml_ser io ps of
        Inl e \<Rightarrow> (Inl (SerializationError e), file)
      | Inr t \<Rightarrow> (case cf_create_err io of
          Some e \<Rightarrow> (Inl (PersistIoError e), file)
        | None \<Rightarrow> (case cf_write io of
            Inl e \<Rightarrow> (Inl (PersistIoError e), Some '''')
          | Inr n \<Rightarrow> (Inr (), Some (take n t)))))"

section \<open>Ordered sets\<close>

definition btree_pop_first :: "'a::linorder set \<Rightarrow> ('a \<times> 'a set) option" where
  "btree_pop_first s = (if s = {} then None else Some (Min s, s - {Min s}))"

definition btree_pop_last :: "'a::linorder set \<Rightarrow> ('a \<times> 'a set) option" where
  "btree_pop_last s = (if s = {} then None else Some (Max s, s - {Max s}))"

lemma btree_pop_last_Some:
  assumes "btree_pop_last s = Some (x, s')" "finite s"
  shows "x \<in> s" "s' = s - {x}" "card s = Suc (card s')"
proof -
  have s: "s \<noteq> {}" "x = Max s" "s' = s - {Max s}" using assms by (auto simp: btree_pop_last_def split: if_splits)
  with Max_in [OF assms(2) s(1)] show "x \<in> s" "s' = s - {x}" "card s = Suc (card s')"
    using assms(2) card_gt_0_iff [of s] by simp_all
qed

lemma btree_pop_first_Some:
  assumes "btree_pop_first s = Some (x, s')" "finite s"
  shows "x \<in> s" "s' = s - {x}" "card s = Suc (card s')"
proof -
  have s: "s \<noteq> {}" "x = Min s" "s' = s - {Min s}" using assms by (auto simp: btree_pop_first_def split: if_splits)
  with Min_in [OF assms(2) s(1)] show "x \<in> s" "s' = s - {x}" "card s = Suc (card s')"
    using assms(2) card_gt_0_iff [of s] by simp_all
qed

lemma btree_pop_last_None [simp]: "btree_pop_last s = None \<longleftrightarrow> s = {}"
  by (simp add: btree_pop_last_def)

lemma btree_pop_first_None [simp]: "btree_pop_first s = None \<longleftrightarrow> s = {}"
  by (simp add: btree_pop_first_def)

lemma btree_pop_empty [simp]: "btree_pop_first {} = None" "btree_pop_last {} = None"
  by simp_all

section \<open>Third-party containers\<close>

subsection \<open>Bidirectional maps (crate bimap)\<close>

record ('b, 'l, 'r) bimap_api =
  bm_new :: 'b
  bm_insert :: "'l \<Rightarrow> 'r \<Rightarrow> 'b \<Rightarrow> 'b"
  bm_get_by_right :: "'b \<Rightarrow> 'r \<Rightarrow> 'l option"
  bm_remove_by_right :: "'r \<Rightarrow> 'b \<Rightarrow> ('l \<times> 'r) option \<times> 'b"
  bm_iter :: "'b \<Rightarrow> ('l \<times> 'r) list"

definition bm_pairs :: "('b, 'l, 'r) bimap_api \<Rightarrow> 'b \<Rightarrow> ('l \<times> 'r) set" where
  "bm_pairs bm b = set (bm_iter bm b)"

text \<open>
  Every left value has one right value and every right value one left value; inserting a pair
  removes the pairs that share a side with it.
\<close>

definition bimap_laws :: "('b, 'l, 'r) bimap_api \<Rightarrow> bool" where
  "bimap_laws bm \<longleftrightarrow>
     bm_iter bm (bm_new bm) = []
   \<and> (\<forall>b. distinct (map fst (bm_iter bm b)) \<and> distinct (map snd (bm_iter bm b)))
   \<and> (\<forall>l r b. bm_pairs bm (bm_insert bm l r b) =
          insert (l, r) {p \<in> bm_pairs bm b. fst p \<noteq> l \<and> snd p \<noteq> r})
   \<and> (\<forall>b l r. bm_get_by_right bm b r = Some l \<longleftrightarrow> (l, r) \<in> bm_pairs bm b)
   \<and> (\<forall>r b. fst (bm_remove_by_right bm r b) = map_option (\<lambda>l. (l, r)) (bm_get_by_right bm b r)
        \<and> bm_pairs bm (snd (bm_remove_by_right bm r b)) = {p \<in> bm_pairs bm b. snd p \<noteq> r})"

lemma bimap_lawsD:
  assumes "bimap_laws bm"
  shows "bm_pairs bm (bm_new bm) = {}"
    and "bm_pairs bm (bm_insert bm l r b) = insert (l, r) {p \<in> bm_pairs bm b. fst p \<noteq> l \<and> snd p \<noteq> r}"
    and "bm_get_by_right bm b r = Some l \<longleftrightarrow> (l, r) \<in> bm_pairs bm b"
    and "fst (bm_remove_by_right bm r b) = map_option (\<lambda>l. (l, r)) (bm_get_by_right bm b r)"
    and "bm_pairs bm (snd (bm_remove_by_right bm r b)) = {p \<in> bm_pairs bm b. snd p \<noteq> r}"
    and "distinct (map fst (bm_iter bm b))" and "distinct (map snd (bm_iter bm b))"
  using assms by (auto simp: bimap_laws_def bm_pairs_def)

lemma bimap_inj_left:
  assumes "bimap_laws bm" "(l, r) \<in> bm_pairs bm b" "(l', r) \<in> bm_pairs bm b"
  shows "l = l'"
  using assms(2,3) bimap_lawsD(3) [OF assms(1), of b r] by (metis option.inject)

lemma bimap_inj_right:
  assumes "bimap_laws bm" "(l, r) \<in> bm_pairs bm b" "(l, r') \<in> bm_pairs bm b"
  shows "r = r'"
  using assms(2,3) bimap_lawsD(6) [OF assms(1), of b] eq_key_imp_eq_value
  unfolding bm_pairs_def by metis

lemma bimap_get_None:
  assumes "bimap_laws bm"
  shows "bm_get_by_right bm b r = None \<longleftrightarrow> r \<notin> snd ` bm_pairs bm b"
  using bimap_lawsD(3) [OF assms, of b r] by (cases "bm_get_by_right bm b r") force+

subsection \<open>Multimaps (crate multimap)\<close>

record ('m, 'k, 'v) multimap_api =
  mm_new :: 'm
  mm_insert :: "'k \<Rightarrow> 'v \<Rightarrow> 'm \<Rightarrow> 'm"
  mm_get_vec :: "'m \<Rightarrow> 'k \<Rightarrow> 'v list option"
  mm_set_vec :: "'k \<Rightarrow> 'v list \<Rightarrow> 'm \<Rightarrow> 'm"
  mm_remove :: "'k \<Rightarrow> 'm \<Rightarrow> 'm"
  mm_iter :: "'m \<Rightarrow> ('k \<times> 'v) list"

text \<open>
  \<open>mm_set_vec\<close> is the effect of writing through \<^verbatim>\<open>get_vec_mut\<close>.  \<^verbatim>\<open>iter\<close> visits every key once, with
  the first value of its vector.
\<close>

definition multimap_laws :: "('m, 'k, 'v) multimap_api \<Rightarrow> bool" where
  "multimap_laws mm \<longleftrightarrow>
     (\<forall>k. mm_get_vec mm (mm_new mm) k = None)
   \<and> (\<forall>k v m k'. mm_get_vec mm (mm_insert mm k v m) k' =
        (if k' = k then Some ((case mm_get_vec mm m k of None \<Rightarrow> [] | Some vs \<Rightarrow> vs) @ [v])
         else mm_get_vec mm m k'))
   \<and> (\<forall>k vs m k'. mm_get_vec mm (mm_set_vec mm k vs m) k' = (if k' = k then Some vs else mm_get_vec mm m k'))
   \<and> (\<forall>k m k'. mm_get_vec mm (mm_remove mm k m) k' = (if k' = k then None else mm_get_vec mm m k'))
   \<and> (\<forall>m. distinct (map fst (mm_iter mm m)))
   \<and> (\<forall>m k v. (k, v) \<in> set (mm_iter mm m) \<longleftrightarrow> (\<exists>vs. mm_get_vec mm m k = Some (v # vs)))"

lemma multimap_lawsD:
  assumes "multimap_laws mm"
  shows "mm_get_vec mm (mm_new mm) k = None"
    and "mm_get_vec mm (mm_insert mm k v m) k' =
        (if k' = k then Some ((case mm_get_vec mm m k of None \<Rightarrow> [] | Some vs \<Rightarrow> vs) @ [v])
         else mm_get_vec mm m k')"
    and "mm_get_vec mm (mm_set_vec mm k vs m) k' = (if k' = k then Some vs else mm_get_vec mm m k')"
    and "mm_get_vec mm (mm_remove mm k m) k' = (if k' = k then None else mm_get_vec mm m k')"
    and "distinct (map fst (mm_iter mm m))"
    and "(k, v) \<in> set (mm_iter mm m) \<longleftrightarrow> (\<exists>vs. mm_get_vec mm m k = Some (v # vs))"
  using assms unfolding multimap_laws_def by blast+

subsection \<open>Instances\<close>

text \<open>A bidirectional map as the list of its insertions, newest first.\<close>

fun bm_norm :: "('l \<times> 'r) list \<Rightarrow> ('l \<times> 'r) list" where
  "bm_norm [] = []"
| "bm_norm ((l, r) # b) = (l, r) # filter (\<lambda>p. fst p \<noteq> l \<and> snd p \<noteq> r) (bm_norm b)"

definition list_bimap :: "(('l \<times> 'r) list, 'l, 'r) bimap_api" where
  "list_bimap = \<lparr>bm_new = [], bm_insert = (\<lambda>l r b. (l, r) # b),
     bm_get_by_right = (\<lambda>b r. map_option fst (find (\<lambda>p. snd p = r) (bm_norm b))),
     bm_remove_by_right = (\<lambda>r b. (find (\<lambda>p. snd p = r) (bm_norm b), filter (\<lambda>p. snd p \<noteq> r) (bm_norm b))),
     bm_iter = bm_norm\<rparr>"

definition list_multimap :: "(('k \<times> 'v list) list, 'k, 'v) multimap_api" where
  "list_multimap = \<lparr>mm_new = [],
     mm_insert = (\<lambda>k v m. AList.update k ((case map_of m k of None \<Rightarrow> [] | Some vs \<Rightarrow> vs) @ [v]) m),
     mm_get_vec = map_of, mm_set_vec = AList.update, mm_remove = AList.delete,
     mm_iter = (\<lambda>m. map (\<lambda>(k, vs). (k, hd vs)) (filter (\<lambda>(k, vs). vs \<noteq> []) (AList.clearjunk m)))\<rparr>"

lemma bm_norm_distinct: "distinct (map fst (bm_norm b)) \<and> distinct (map snd (bm_norm b))"
  by (induction b rule: bm_norm.induct) (auto simp: distinct_map_filter)

lemma bm_norm_id: "distinct (map fst b) \<Longrightarrow> distinct (map snd b) \<Longrightarrow> bm_norm b = b"
proof (induction b rule: bm_norm.induct)
  case (2 l r b)
  then have "bm_norm b = b" by simp
  moreover have "filter (\<lambda>p. fst p \<noteq> l \<and> snd p \<noteq> r) b = b"
    using 2 by (auto simp: filter_id_conv)
  ultimately show ?case by simp
qed simp

lemma bm_norm_filter: "bm_norm (filter P (bm_norm b)) = filter P (bm_norm b)"
  using bm_norm_distinct [of b] by (intro bm_norm_id) (simp_all add: distinct_map_filter)

lemma find_by_right:
  assumes "distinct (map snd xs)"
  shows "find (\<lambda>p. snd p = r) xs = Some (l, r') \<longleftrightarrow> (l, r) \<in> set xs \<and> r' = r"
  using assms
proof (induction xs)
  case (Cons p xs)
  then show ?case by (cases p) (force simp: rev_image_eqI)
qed simp

lemma find_SomeD: "find P xs = Some p \<Longrightarrow> P p"
  by (induction xs) (auto split: if_splits)

lemma list_bimap_laws: "bimap_laws (list_bimap :: (('l \<times> 'r) list, 'l, 'r) bimap_api)"
proof -
  have get: "map_option fst (find (\<lambda>p. snd p = r) (bm_norm b)) = Some l \<longleftrightarrow> (l, r) \<in> set (bm_norm b)"
    for b :: "('l \<times> 'r) list" and l r
    using find_by_right [of "bm_norm b" r l] bm_norm_distinct [of b] find_SomeD by fastforce
  have rem: "map_option (\<lambda>l. (l, r)) (map_option fst (find (\<lambda>p. snd p = r) (bm_norm b)))
      = find (\<lambda>p. snd p = r) (bm_norm b)"
    for b :: "('l \<times> 'r) list" and r
  proof (cases "find (\<lambda>p. snd p = r) (bm_norm b)")
    case (Some p)
    with find_SomeD [OF Some] show ?thesis by (cases p) simp
  qed simp
  show ?thesis
    unfolding bimap_laws_def bm_pairs_def list_bimap_def bimap_api.simps
    by (intro conjI allI)
      (simp_all add: bm_norm_distinct bm_norm_filter get rem del: map_option_eq_Some)
qed

lemma map_of_clearjunk_iff: "(k, ws) \<in> set (AList.clearjunk m) \<longleftrightarrow> map_of m k = Some ws"
  using distinct_clearjunk [of m] map_of_clearjunk [of m] by (metis map_of_eq_Some_iff)

lemma list_multimap_laws: "multimap_laws (list_multimap :: (('k \<times> 'v list) list, 'k, 'v) multimap_api)"
proof -
  let ?it = "\<lambda>m :: ('k \<times> 'v list) list. map (\<lambda>(k, vs). (k, hd vs)) (filter (\<lambda>(k, vs). vs \<noteq> []) (AList.clearjunk m))"
  have it: "(k, v) \<in> set (?it m) \<longleftrightarrow> (\<exists>vs. map_of m k = Some (v # vs))" for m k v
  proof
    assume "(k, v) \<in> set (?it m)"
    then obtain ws where "(k, ws) \<in> set (AList.clearjunk m)" "ws \<noteq> []" "v = hd ws" by auto
    then show "\<exists>vs. map_of m k = Some (v # vs)"
      by (cases ws) (auto simp: map_of_clearjunk_iff)
  next
    assume "\<exists>vs. map_of m k = Some (v # vs)"
    then obtain vs where "(k, v # vs) \<in> set (AList.clearjunk m)" by (auto simp: map_of_clearjunk_iff)
    then have "(k, v # vs) \<in> set (filter (\<lambda>(k, vs). vs \<noteq> []) (AList.clearjunk m))" by simp
    then have "(\<lambda>(k, vs). (k, hd vs)) (k, v # vs) \<in> set (?it m)" unfolding set_map by (rule imageI)
    then show "(k, v) \<in> set (?it m)" by simp
  qed
  have "map fst (?it m) = map fst (filter (\<lambda>(k, vs). vs \<noteq> []) (AList.clearjunk m))" for m
    by (induction "AList.clearjunk m") auto
  then have dist: "distinct (map fst (?it m))" for m
    using distinct_clearjunk [of m] by (simp only: distinct_map_filter)
  show ?thesis
    unfolding multimap_laws_def list_multimap_def multimap_api.simps
    by (intro conjI allI) (use it dist in \<open>simp_all only: update_conv' delete_conv' map_of.simps fun_upd_apply simp_thms if_True\<close>)
qed

end
