(* ===== verification/Core_Range.thy ===== *)
theory Core_Range
  imports Core_Types
begin

text \<open>
  The set of physical cores the node may use (\<^verbatim>\<open>crates/core-manager/src/core_range.rs\<close>): parsing a
  text such as \<^verbatim>\<open>1,2-30,31\<close>, printing it, and the round trip between the two.  The set itself is the
  third-party \<^verbatim>\<open>RangeSetBlaze<usize>\<close>, a parameter with its documented behaviour.
\<close>

section \<open>Sets of integers (crate range-set-blaze)\<close>

record 'r range_api =
  rs_new :: 'r
  rs_insert :: "nat \<Rightarrow> 'r \<Rightarrow> 'r"
  rs_ranges_insert :: "nat \<Rightarrow> nat \<Rightarrow> 'r \<Rightarrow> 'r"
  rs_contains :: "'r \<Rightarrow> nat \<Rightarrow> bool"
  rs_len :: "'r \<Rightarrow> nat"
  rs_ranges :: "'r \<Rightarrow> (nat \<times> nat) list"
  rs_eq :: "'r \<Rightarrow> 'r \<Rightarrow> bool"

definition rs_set :: "'r range_api \<Rightarrow> 'r \<Rightarrow> nat set" where
  "rs_set rs r = {n. rs_contains rs r n}"

text \<open>\<^verbatim>\<open>ranges\<close> gives the maximal inclusive ranges of the set, in increasing order.\<close>

definition range_laws :: "'r range_api \<Rightarrow> bool" where
  "range_laws rs \<longleftrightarrow>
     rs_set rs (rs_new rs) = {}
   \<and> (\<forall>n r. rs_set rs (rs_insert rs n r) = insert n (rs_set rs r))
   \<and> (\<forall>a b r. rs_set rs (rs_ranges_insert rs a b r) = {a..b} \<union> rs_set rs r)
   \<and> (\<forall>r. finite (rs_set rs r) \<and> rs_len rs r = card (rs_set rs r))
   \<and> (\<forall>r. (\<Union>(a, b) \<in> set (rs_ranges rs r). {a..b}) = rs_set rs r
        \<and> list_all (\<lambda>(a, b). a \<le> b) (rs_ranges rs r)
        \<and> sorted_wrt (\<lambda>p q. snd p + 1 < fst q) (rs_ranges rs r))
   \<and> (\<forall>r r'. rs_eq rs r r' \<longleftrightarrow> rs_set rs r = rs_set rs r')"

lemma range_lawsD:
  assumes "range_laws rs"
  shows "rs_set rs (rs_new rs) = {}"
    and "rs_set rs (rs_insert rs n r) = insert n (rs_set rs r)"
    and "rs_set rs (rs_ranges_insert rs a b r) = {a..b} \<union> rs_set rs r"
    and "finite (rs_set rs r)" and "rs_len rs r = card (rs_set rs r)"
    and "(\<Union>(a, b) \<in> set (rs_ranges rs r). {a..b}) = rs_set rs r"
    and "list_all (\<lambda>(a, b). a \<le> b) (rs_ranges rs r)"
    and "rs_eq rs r r' \<longleftrightarrow> rs_set rs r = rs_set rs r'"
  using assms by (simp_all add: range_laws_def)

section \<open>Standard-library text operations\<close>

text \<open>
  \<^verbatim>\<open>str::trim\<close> cuts Unicode white space off both ends: the UTF-8 encodings of the code points with
  the property \<^verbatim>\<open>White_Space\<close>.
\<close>

definition whitespace_utf8 :: "nat list list" where
  "whitespace_utf8 = [[9], [10], [11], [12], [13], [32], [194, 133], [194, 160], [225, 154, 128],
     [226, 128, 128], [226, 128, 129], [226, 128, 130], [226, 128, 131], [226, 128, 132],
     [226, 128, 133], [226, 128, 134], [226, 128, 135], [226, 128, 136], [226, 128, 137],
     [226, 128, 138], [226, 128, 168], [226, 128, 169], [226, 128, 175], [226, 129, 159],
     [227, 128, 128]]"

text \<open>The length of the white-space character a byte sequence starts with, if it does.\<close>

definition ws_prefix :: "nat list list \<Rightarrow> string \<Rightarrow> nat option" where
  "ws_prefix pats s = map_option length (find (\<lambda>w. take (length w) (map of_char s) = w) pats)"

function trim_front :: "nat list list \<Rightarrow> string \<Rightarrow> string" where
  "trim_front pats s =
     (case ws_prefix pats s of
        Some n \<Rightarrow> if n = 0 \<or> s = [] then s else trim_front pats (drop n s)
      | None \<Rightarrow> s)"
  by pat_completeness auto
termination
  by (relation "measure (\<lambda>(pats, s). length s)") auto

declare trim_front.simps [simp del]

definition str_trim :: "string \<Rightarrow> string" where
  "str_trim s = rev (trim_front (map rev whitespace_utf8) (rev (trim_front whitespace_utf8 s)))"

fun split_on :: "char \<Rightarrow> string \<Rightarrow> string list" where
  "split_on c [] = [[]]"
| "split_on c (x # xs) =
     (if x = c then [] # split_on c xs
      else case split_on c xs of y # ys \<Rightarrow> (x # y) # ys | [] \<Rightarrow> [[x]])"

definition USIZE_MAX :: nat where
  "USIZE_MAX = 2 ^ 64 - 1"

text \<open>\<^verbatim>\<open>str::parse::<usize>\<close>: an optional plus sign, then decimal digits, with overflow refused.\<close>

definition is_digit :: "char \<Rightarrow> bool" where
  "is_digit c = (48 \<le> (of_char c :: nat) \<and> (of_char c :: nat) \<le> 57)"

fun parse_digits :: "nat \<Rightarrow> string \<Rightarrow> nat option" where
  "parse_digits acc [] = Some acc"
| "parse_digits acc (c # cs) =
     (if \<not> is_digit c then None
      else let acc' = acc * 10 + (of_char c - 48) in
           if USIZE_MAX < acc' then None else parse_digits acc' cs)"

definition parse_usize :: "string \<Rightarrow> nat option" where
  "parse_usize s =
     (case s of
        [] \<Rightarrow> None
      | c # cs \<Rightarrow> let body = (if c = CHR ''+'' then cs else s)
                  in if body = [] then None else parse_digits 0 body)"

text \<open>\<^verbatim>\<open>Display for usize\<close>.\<close>

fun fmt_usize :: "nat \<Rightarrow> string" where
  "fmt_usize n = (if n < 10 then [char_of (48 + n)] else fmt_usize (n div 10) @ [char_of (48 + n mod 10)])"

declare fmt_usize.simps [simp del]

section \<open>Core ranges\<close>

datatype parse_error = EmptyRange | WrongRangeFormat string

definition core_range_default :: "'r range_api \<Rightarrow> nat \<Rightarrow> 'r" where
  "core_range_default rs num_physical = fold (rs_insert rs) [0..<num_physical] (rs_new rs)"

definition core_range_try_from :: "'r range_api \<Rightarrow> nat list \<Rightarrow> parse_error + 'r" where
  "core_range_try_from rs value =
     (if value = [] then Inl EmptyRange else Inr (fold (rs_insert rs) value (rs_new rs)))"

definition parse_part :: "'r range_api \<Rightarrow> string \<Rightarrow> 'r \<Rightarrow> parse_error + 'r" where
  "parse_part rs part result =
     (let trimmed = str_trim part in
      case split_on (CHR ''-'') trimmed of
        [l, r] \<Rightarrow>
          (case parse_usize l of
             None \<Rightarrow> Inl (WrongRangeFormat trimmed)
           | Some lo \<Rightarrow> (case parse_usize r of
               None \<Rightarrow> Inl (WrongRangeFormat trimmed)
             | Some hi \<Rightarrow> Inr (rs_ranges_insert rs lo hi result)))
      | [value] \<Rightarrow>
          (case parse_usize value of
             None \<Rightarrow> Inl (WrongRangeFormat trimmed)
           | Some v \<Rightarrow> Inr (rs_insert rs v result))
      | _ \<Rightarrow> Inl (WrongRangeFormat trimmed))"

fun parse_parts :: "'r range_api \<Rightarrow> string list \<Rightarrow> 'r \<Rightarrow> parse_error + 'r" where
  "parse_parts rs [] result = Inr result"
| "parse_parts rs (part # parts) result =
     (case parse_part rs part result of Inl e \<Rightarrow> Inl e | Inr r \<Rightarrow> parse_parts rs parts r)"

definition core_range_from_str :: "'r range_api \<Rightarrow> string \<Rightarrow> parse_error + 'r" where
  "core_range_from_str rs s =
     (let trimmed = str_trim s in
      if trimmed = [] then Inl EmptyRange
      else parse_parts rs (split_on (CHR '','') trimmed) (rs_new rs))"

definition fmt_range :: "nat \<times> nat \<Rightarrow> string" where
  "fmt_range p = (if fst p = snd p then fmt_usize (fst p)
     else fmt_usize (fst p) @ ''-'' @ fmt_usize (snd p))"

fun fmt_ranges :: "bool \<Rightarrow> (nat \<times> nat) list \<Rightarrow> string" where
  "fmt_ranges first [] = []"
| "fmt_ranges first (p # ps) = (if first then [] else '','') @ fmt_range p @ fmt_ranges False ps"

definition core_range_fmt :: "'r range_api \<Rightarrow> 'r \<Rightarrow> string" where
  "core_range_fmt rs r = fmt_ranges True (rs_ranges rs r)"

section \<open>Round trip\<close>

lemma of_char_digit [simp]: "d < 10 \<Longrightarrow> of_char (char_of (48 + d :: nat)) = (48 + d :: nat)"
  by simp

lemma is_digit_digit [simp]: "d < 10 \<Longrightarrow> is_digit (char_of (48 + d :: nat))"
  by (simp add: is_digit_def)

lemma fmt_usize_digits: "list_all is_digit (fmt_usize n)"
proof (induction n rule: fmt_usize.induct)
  case (1 n)
  then show ?case by (subst fmt_usize.simps) simp
qed

lemma fmt_usize_nonempty [simp]: "fmt_usize n \<noteq> []"
  by (subst fmt_usize.simps) simp

lemma parse_digits_append:
  "parse_digits acc (xs @ ys) = Option.bind (parse_digits acc xs) (\<lambda>a. parse_digits a ys)"
  by (induction acc xs rule: parse_digits.induct) (simp_all add: Let_def)

lemma parse_digits_fmt: "n \<le> USIZE_MAX \<Longrightarrow> parse_digits 0 (fmt_usize n) = Some n"
proof (induction n rule: fmt_usize.induct)
  case (1 n)
  show ?case
  proof (cases "n < 10")
    case True
    then show ?thesis using "1.prems" by (subst fmt_usize.simps) (simp add: Let_def)
  next
    case False
    then have "parse_digits 0 (fmt_usize (n div 10)) = Some (n div 10)"
      using 1 by (metis div_le_dividend order_trans)
    then show ?thesis
      using False "1.prems" by (subst fmt_usize.simps) (simp add: parse_digits_append Let_def)
  qed
qed

lemma digit_neq [simp]:
  "\<not> is_digit (CHR ''+'')" "\<not> is_digit (CHR ''-'')" "\<not> is_digit (CHR '','')"
  by (simp_all add: is_digit_def)

lemma parse_usize_fmt:
  assumes "n \<le> USIZE_MAX"
  shows "parse_usize (fmt_usize n) = Some n"
proof -
  obtain c cs where c: "fmt_usize n = c # cs" "is_digit c"
    using fmt_usize_digits [of n] fmt_usize_nonempty [of n] by (cases "fmt_usize n") auto
  then have "c \<noteq> CHR ''+''" using digit_neq(1) by blast
  then show ?thesis
    using parse_digits_fmt [OF assms] c(1) by (simp add: parse_usize_def del: parse_digits.simps)
qed

lemma split_on_none: "c \<notin> set s \<Longrightarrow> split_on c s = [s]"
  by (induction s) auto

lemma split_on_append: "c \<notin> set a \<Longrightarrow> split_on c (a @ c # b) = a # split_on c b"
  by (induction a) auto

lemma ws_prefix_None:
  assumes "list_all (\<lambda>w. w \<noteq> [] \<and> hd w \<noteq> of_char c) pats"
  shows "ws_prefix pats (c # s) = None"
proof -
  have "take (length w) (of_char c # map of_char s) \<noteq> w" if "w \<in> set pats" for w
  proof -
    have "w \<noteq> []" "hd w \<noteq> of_char c" using that assms by (auto simp: list_all_iff)
    then show ?thesis by (cases w) auto
  qed
  then show ?thesis by (auto simp: ws_prefix_def find_None_iff)
qed

lemma digit_not_ws:
  assumes "is_digit c"
  shows "list_all (\<lambda>w. w \<noteq> [] \<and> hd w \<noteq> of_char c) whitespace_utf8"
    and "list_all (\<lambda>w. w \<noteq> [] \<and> hd w \<noteq> of_char c) (map rev whitespace_utf8)"
  using assms unfolding is_digit_def whitespace_utf8_def by auto

lemma trim_front_digit:
  assumes "s \<noteq> []" "is_digit (hd s)"
  shows "trim_front whitespace_utf8 s = s" and "trim_front (map rev whitespace_utf8) s = s"
  using assms digit_not_ws [of "hd s"]
  by (cases s; subst trim_front.simps; simp add: ws_prefix_None)+

lemma str_trim_digits:
  assumes "s \<noteq> []" "is_digit (hd s)" "is_digit (last s)"
  shows "str_trim s = s"
  using assms trim_front_digit [of s] trim_front_digit [of "rev s"]
  by (simp add: str_trim_def hd_rev)

lemma no_sep_in_digits: "list_all is_digit s \<Longrightarrow> \<not> is_digit c \<Longrightarrow> c \<notin> set s"
  by (auto simp: list_all_iff)

text \<open>A printed range starts and ends with a digit and holds no comma.\<close>

lemma digits_hd_last: "list_all is_digit s \<Longrightarrow> s \<noteq> [] \<Longrightarrow> is_digit (hd s) \<and> is_digit (last s)"
  by (simp add: list_all_iff)

lemma fmt_range_ends: "fmt_range p \<noteq> [] \<and> is_digit (hd (fmt_range p)) \<and> is_digit (last (fmt_range p))"
  using digits_hd_last [OF fmt_usize_digits fmt_usize_nonempty] by (auto simp: fmt_range_def)

lemma fmt_range_no_comma: "CHR '','' \<notin> set (fmt_range p)"
  using no_sep_in_digits [OF fmt_usize_digits digit_neq(3)] by (auto simp: fmt_range_def)

lemma parse_part_fmt:
  assumes "fst p \<le> USIZE_MAX" "snd p \<le> USIZE_MAX"
  shows "parse_part rs (fmt_range p) acc =
     Inr (if fst p = snd p then rs_insert rs (fst p) acc else rs_ranges_insert rs (fst p) (snd p) acc)"
proof -
  have no: "CHR ''-'' \<notin> set (fmt_usize n)" for n
    by (rule no_sep_in_digits [OF fmt_usize_digits digit_neq(2)])
  have "str_trim (fmt_range p) = fmt_range p"
    using fmt_range_ends [of p] by (intro str_trim_digits) auto
  moreover have "split_on (CHR ''-'') (fmt_range p) =
      (if fst p = snd p then [fmt_usize (fst p)] else [fmt_usize (fst p), fmt_usize (snd p)])"
    using no by (simp add: fmt_range_def split_on_none split_on_append)
  ultimately show ?thesis
    using assms by (simp add: parse_part_def parse_usize_fmt)
qed

lemma split_fmt_ranges:
  "ps \<noteq> [] \<Longrightarrow> split_on (CHR '','') (fmt_ranges True ps) = map fmt_range ps"
proof (induction ps)
  case (Cons p ps)
  show ?case
  proof (cases ps)
    case Nil
    then show ?thesis using fmt_range_no_comma by (simp add: split_on_none)
  next
    case (Cons q qs)
    then have "fmt_ranges True (p # ps) = fmt_range p @ CHR '','' # fmt_ranges True ps" by simp
    then have "split_on (CHR '','') (fmt_ranges True (p # ps)) = fmt_range p # split_on (CHR '','') (fmt_ranges True ps)"
      by (simp only: split_on_append fmt_range_no_comma not_False_eq_True)
    then show ?thesis using Cons.IH Cons by simp
  qed
qed simp

lemma fmt_ranges_ends:
  assumes "ps \<noteq> []"
  shows "fmt_ranges True ps \<noteq> [] \<and> is_digit (hd (fmt_ranges True ps)) \<and> is_digit (last (fmt_ranges True ps))"
proof -
  have "fmt_ranges False qs \<noteq> [] \<and> is_digit (last (fmt_ranges False qs))" if "qs \<noteq> []" for qs
    using that
  proof (induction qs)
    case (Cons q qs)
    then show ?case using fmt_range_ends [of q] by (cases "qs = []") (auto simp: last_append)
  qed simp
  moreover obtain p qs where "ps = p # qs" using assms by (cases ps) auto
  ultimately show ?thesis
    using fmt_range_ends [of p] by (cases "qs = []") (auto simp: last_append)
qed

definition in_usize :: "nat \<times> nat \<Rightarrow> bool" where
  "in_usize p \<longleftrightarrow> fst p \<le> snd p \<and> snd p \<le> USIZE_MAX"

lemma parse_parts_fmt:
  assumes "range_laws rs" "list_all in_usize ps"
  shows "\<exists>r. parse_parts rs (map fmt_range ps) acc = Inr r
    \<and> rs_set rs r = (\<Union>(a, b) \<in> set ps. {a..b}) \<union> rs_set rs acc"
  using assms(2)
proof (induction ps arbitrary: acc)
  case (Cons p ps)
  define acc' where "acc' = (if fst p = snd p then rs_insert rs (fst p) acc else rs_ranges_insert rs (fst p) (snd p) acc)"
  have "parse_part rs (fmt_range p) acc = Inr acc'"
    unfolding acc'_def using Cons.prems by (intro parse_part_fmt) (auto simp: in_usize_def)
  moreover have "rs_set rs acc' = {fst p..snd p} \<union> rs_set rs acc"
    by (auto simp: acc'_def range_lawsD(2,3) [OF assms(1)])
  moreover obtain r where "parse_parts rs (map fmt_range ps) acc' = Inr r"
    "rs_set rs r = (\<Union>(a, b) \<in> set ps. {a..b}) \<union> rs_set rs acc'"
    using Cons.IH [of acc'] Cons.prems by auto
  ultimately show ?case by (auto simp: split_beta)
qed simp

text \<open>
  Printing a non-empty set of cores and parsing the text gives back the same set, whatever
  ranges it is made of.
\<close>

theorem core_range_roundtrip:
  assumes "range_laws rs" "rs_set rs r \<noteq> {}" "\<forall>n \<in> rs_set rs r. n \<le> USIZE_MAX"
  shows "\<exists>r'. core_range_from_str rs (core_range_fmt rs r) = Inr r' \<and> rs_eq rs r' r"
proof -
  let ?ps = "rs_ranges rs r"
  note laws = range_lawsD [OF assms(1)]
  have ne: "?ps \<noteq> []" using assms(2) laws(6) [of r] by auto
  have ok: "list_all in_usize ?ps"
  proof -
    have "snd p \<in> rs_set rs r \<and> fst p \<le> snd p" if "p \<in> set ?ps" for p
      using that laws(7) [of r] laws(6) [of r] by (force simp: list_all_iff split_beta)
    with assms(3) show ?thesis by (auto simp: list_all_iff in_usize_def)
  qed
  from parse_parts_fmt [OF assms(1) ok, of "rs_new rs"] obtain r' where
    r': "parse_parts rs (map fmt_range ?ps) (rs_new rs) = Inr r'" "rs_set rs r' = rs_set rs r"
    using laws(6) [of r] laws(1) by auto
  have "str_trim (fmt_ranges True ?ps) = fmt_ranges True ?ps"
    using fmt_ranges_ends [OF ne] by (intro str_trim_digits) auto
  then have "core_range_from_str rs (core_range_fmt rs r) = Inr r'"
    using fmt_ranges_ends [OF ne] r'(1)
    by (simp add: core_range_from_str_def core_range_fmt_def split_fmt_ranges [OF ne])
  then show ?thesis using r'(2) laws(8) by blast
qed

text \<open>An instance of the third-party set: a list of its elements.\<close>

fun to_ranges :: "nat list \<Rightarrow> (nat \<times> nat) list" where
  "to_ranges [] = []"
| "to_ranges (n # ns) =
     (case to_ranges ns of
        [] \<Rightarrow> [(n, n)]
      | (a, b) # ps \<Rightarrow> if a = Suc n then (n, b) # ps else (n, n) # (a, b) # ps)"

definition list_range_set :: "nat list range_api" where
  "list_range_set = \<lparr>rs_new = [], rs_insert = (#), rs_ranges_insert = (\<lambda>a b r. [a..<Suc b] @ r),
     rs_contains = (\<lambda>r n. n \<in> set r), rs_len = (\<lambda>r. length (remdups r)),
     rs_ranges = (\<lambda>r. to_ranges (sort (remdups r))), rs_eq = (\<lambda>r r'. set r = set r')\<rparr>"

lemma to_ranges_correct:
  assumes "sorted ns" "distinct ns"
  shows "(\<Union>(a, b) \<in> set (to_ranges ns). {a..b}) = set ns
    \<and> list_all (\<lambda>(a, b). a \<le> b) (to_ranges ns)
    \<and> sorted_wrt (\<lambda>p q. snd p + 1 < fst q) (to_ranges ns)
    \<and> (ns \<noteq> [] \<longrightarrow> to_ranges ns \<noteq> [] \<and> fst (hd (to_ranges ns)) = hd ns)"
  using assms
proof (induction ns)
  case (Cons n ns)
  show ?case
  proof (cases ns)
    case (Cons m ms)
    then have m: "n < m" using Cons.prems by auto
    obtain b ps where ps: "to_ranges ns = (m, b) # ps"
      using Cons.IH Cons.prems Cons by (cases "to_ranges ns") auto
    have IH: "{m..b} \<union> (\<Union>(a, b) \<in> set ps. {a..b}) = set ns" "m \<le> b" "list_all (\<lambda>(a, b). a \<le> b) ps"
      "\<forall>q \<in> set ps. b + 1 < fst q" "sorted_wrt (\<lambda>p q. snd p + 1 < fst q) ps"
      using Cons.IH Cons.prems ps by auto
    show ?thesis
    proof (cases "m = Suc n")
      case True
      moreover have "{n..b} = insert n {m..b}" using True IH(2) by auto
      ultimately show ?thesis using IH ps m by auto
    next
      case False
      have "n + 1 < fst q" if "q \<in> set ps" for q using that IH(2,4) m by fastforce
      then show ?thesis using IH ps m False by auto
    qed
  qed simp
qed simp

lemma list_range_laws: "range_laws list_range_set"
  unfolding range_laws_def rs_set_def list_range_set_def
  using to_ranges_correct [OF sorted_sort distinct_sort [THEN iffD2, OF distinct_remdups]]
  by (auto simp: length_remdups_card_conv)

theorem core_range_roundtrip_witness:
  "\<exists>r'. core_range_from_str list_range_set (core_range_fmt list_range_set [0, 1, 2, 5, 7, 8]) = Inr r'
     \<and> rs_eq list_range_set r' [0, 1, 2, 5, 7, 8]"
  by (rule core_range_roundtrip [OF list_range_laws]) (auto simp: rs_set_def list_range_set_def USIZE_MAX_def)

end
