(* ===== verification/Core_Manager.thy ===== *)
theory Core_Manager
  imports Core_Range
begin

text \<open>
  What the core managers share: the topology their constructors read, the loops
  that collect the available cores and set the system cores apart (the same code in \<^verbatim>\<open>strict.rs\<close> and
  \<^verbatim>\<open>dev.rs\<close>), and the contract of \<^verbatim>\<open>CoreManagerFunctions\<close> (\<^verbatim>\<open>manager.rs\<close>) as a locale.
\<close>

section \<open>Topology and core collection\<close>

text \<open>\<^verbatim>\<open>cpu_utils::CPUTopology\<close> is third-party: what it reports is a parameter.\<close>

record 'te topology =
  topo_physical_cores :: "'te + physical_core_id list"
  topo_logical_cores :: "physical_core_id \<Rightarrow> 'te + logical_core_id list"

definition loaded_range :: "'r range_api \<Rightarrow> persistent_state \<Rightarrow> 'r" where
  "loaded_range rs ps = fold (\<lambda>(c, _). rs_insert rs (unat c)) (ps_cores_mapping ps) (rs_new rs)"

text \<open>The constructors' loop over the physical cores of the machine.\<close>

fun collect_cores ::
    "'r range_api \<Rightarrow> 'r \<Rightarrow> ('m, physical_core_id, logical_core_id) multimap_api \<Rightarrow> 'te topology
      \<Rightarrow> physical_core_id list \<Rightarrow> 'm \<times> physical_core_id set
      \<Rightarrow> 'te create_error + ('m \<times> physical_core_id set)" where
  "collect_cores rs rng mm topo [] (m, av) = Inr (m, av)"
| "collect_cores rs rng mm topo (c # cs) (m, av) =
     (if rs_contains rs rng (unat c)
      then case topo_logical_cores topo c of
             Inl e \<Rightarrow> Inl (CollectCoresData e)
           | Inr ls \<Rightarrow> collect_cores rs rng mm topo cs (fold (mm_insert mm c) ls m, insert c av)
      else collect_cores rs rng mm topo cs (m, av))"

text \<open>The loop that takes the system cores; \<open>None\<close> is the \<^verbatim>\<open>expect\<close> on an empty set.\<close>

fun take_system_cores ::
    "nat \<Rightarrow> physical_core_id set \<Rightarrow> physical_core_id set
      \<Rightarrow> (physical_core_id set \<times> physical_core_id set) option" where
  "take_system_cores 0 av sys = Some (av, sys)"
| "take_system_cores (Suc n) av sys =
     (case btree_pop_first av of
        None \<Rightarrow> None
      | Some (c, av') \<Rightarrow> take_system_cores n av' (insert c sys))"

lemma take_system_cores_Some:
  assumes "take_system_cores n av sys = Some (av', sys')" "finite av" "finite sys" "av \<inter> sys = {}"
  shows "finite av' \<and> finite sys' \<and> av' \<inter> sys' = {} \<and> av' \<union> sys' = av \<union> sys
    \<and> card sys' = card sys + n \<and> card av = card av' + n"
  using assms
proof (induction n av sys rule: take_system_cores.induct)
  case (2 n av sys)
  then obtain c av0 where pop: "btree_pop_first av = Some (c, av0)"
    and rest: "take_system_cores n av0 (insert c sys) = Some (av', sys')"
    by (auto split: option.splits)
  note p = btree_pop_first_Some [OF pop "2.prems"(2)]
  have "finite av' \<and> finite sys' \<and> av' \<inter> sys' = {} \<and> av' \<union> sys' = av0 \<union> insert c sys
      \<and> card sys' = card (insert c sys) + n \<and> card av0 = card av' + n"
    by (rule "2.IH" [OF pop refl rest]) (use 2 p in auto)
  moreover have "c \<notin> sys" using 2 p(1) by auto
  moreover have "av0 \<union> insert c sys = av \<union> sys" using p(1,2) by auto
  ultimately show ?case using p(3) "2.prems"(3) by simp
qed simp

lemma take_system_cores_None:
  assumes "finite av"
  shows "take_system_cores n av sys = None \<longleftrightarrow> card av < n"
  using assms
proof (induction n av sys rule: take_system_cores.induct)
  case (2 n av sys)
  show ?case
  proof (cases "btree_pop_first av")
    case None
    then show ?thesis by simp
  next
    case (Some p)
    then obtain c av0 where pop: "btree_pop_first av = Some (c, av0)" by (cases p) auto
    note p = btree_pop_first_Some [OF pop "2.prems"]
    have "finite av0" using p(2) "2.prems" by simp
    then show ?thesis using "2.IH" [OF pop refl] pop p(3) by simp
  qed
qed simp

lemma mm_fold_insert:
  assumes "multimap_laws mm"
  shows "mm_get_vec mm (fold (mm_insert mm c) ls m) k =
     (if k = c \<and> ls \<noteq> [] then Some ((case mm_get_vec mm m c of None \<Rightarrow> [] | Some vs \<Rightarrow> vs) @ ls)
      else mm_get_vec mm m k)"
proof (induction ls arbitrary: m)
  case (Cons l ls)
  show ?case using Cons.IH [of "mm_insert mm c l m"] multimap_lawsD(2) [OF assms, of c l m] by auto
qed simp

text \<open>
  What the managers expect of the topology: the list of logical cores of a physical core is not empty.
\<close>

definition topology_ok :: "'te topology \<Rightarrow> bool" where
  "topology_ok topo \<longleftrightarrow> (\<forall>c ls. topo_logical_cores topo c = Inr ls \<longrightarrow> ls \<noteq> [])"

text \<open>The cores that have logical cores recorded.\<close>

definition mapped_cores :: "('m, physical_core_id, logical_core_id) multimap_api \<Rightarrow> 'm \<Rightarrow> physical_core_id set" where
  "mapped_cores mm m = {c. mm_get_vec mm m c \<noteq> None}"

definition no_empty_vec :: "('m, physical_core_id, logical_core_id) multimap_api \<Rightarrow> 'm \<Rightarrow> bool" where
  "no_empty_vec mm m \<longleftrightarrow> (\<forall>c. mm_get_vec mm m c \<noteq> Some [])"

lemma collect_cores_Inr:
  assumes "multimap_laws mm" "topology_ok topo"
    and "collect_cores rs rng mm topo cs (m, av) = Inr (m', av')"
    and "finite av" "mapped_cores mm m = av" "no_empty_vec mm m"
  shows "finite av' \<and> mapped_cores mm m' = av' \<and> no_empty_vec mm m'
    \<and> av' = av \<union> {c \<in> set cs. rs_contains rs rng (unat c)}"
  using assms(3-)
proof (induction cs arbitrary: m av)
  case (Cons c cs)
  show ?case
  proof (cases "rs_contains rs rng (unat c)")
    case True
    then obtain ls where ls: "topo_logical_cores topo c = Inr ls"
      and rest: "collect_cores rs rng mm topo cs (fold (mm_insert mm c) ls m, insert c av) = Inr (m', av')"
      using Cons.prems(1) by (auto split: sum.splits)
    have "ls \<noteq> []" using ls assms(2) by (auto simp: topology_ok_def)
    then have g: "mm_get_vec mm (fold (mm_insert mm c) ls m) k =
        (if k = c then Some ((case mm_get_vec mm m c of None \<Rightarrow> [] | Some vs \<Rightarrow> vs) @ ls) else mm_get_vec mm m k)" for k
      using mm_fold_insert [OF assms(1), of c ls m k] by simp
    have "mapped_cores mm (fold (mm_insert mm c) ls m) = insert c av"
      "no_empty_vec mm (fold (mm_insert mm c) ls m)"
      using Cons.prems(3,4) \<open>ls \<noteq> []\<close> by (auto simp: mapped_cores_def no_empty_vec_def g)
    with Cons.IH [OF rest] Cons.prems(2) True show ?thesis by auto
  next
    case False
    with Cons show ?thesis by auto
  qed
qed simp

lemma collect_cores_Inl:
  "(\<exists>e. collect_cores rs rng mm topo cs (m, av) = Inl e) \<longleftrightarrow>
     \<not> (\<forall>c \<in> set cs. rs_contains rs rng (unat c) \<longrightarrow> (\<exists>ls. topo_logical_cores topo c = Inr ls))"
proof (induction cs arbitrary: m av)
  case (Cons c cs)
  then show ?case by (cases "topo_logical_cores topo c") simp_all
qed simp

lemma mm_iter_map_of:
  assumes "multimap_laws mm" "no_empty_vec mm m"
  shows "map_of (mm_iter mm m) c = map_option hd (mm_get_vec mm m c)"
proof (rule option_ext)
  fix v
  have "map_of (mm_iter mm m) c = Some v \<longleftrightarrow> (\<exists>vs. mm_get_vec mm m c = Some (v # vs))"
    using multimap_lawsD(5,6) [OF assms(1)] by (simp add: map_of_eq_Some_iff)
  also have "\<dots> \<longleftrightarrow> map_option hd (mm_get_vec mm m c) = Some v"
    using assms(2) by (auto simp: no_empty_vec_def) (metis list.collapse)
  finally show "map_of (mm_iter mm m) c = Some v \<longleftrightarrow> map_option hd (mm_get_vec mm m c) = Some v" .
qed

text \<open>Free, system and assigned cores divide the known cores among them.\<close>

definition core_partition :: "'a set \<Rightarrow> 'a set \<Rightarrow> 'a set \<Rightarrow> 'a set \<Rightarrow> bool" where
  "core_partition free sys assigned known \<longleftrightarrow>
     free \<inter> sys = {} \<and> free \<inter> assigned = {} \<and> sys \<inter> assigned = {} \<and> free \<union> sys \<union> assigned = known"

lemma core_partition_assign:
  "core_partition A S H M \<Longrightarrow> c \<in> A \<Longrightarrow> core_partition (A - {c}) S (insert c H) M"
  unfolding core_partition_def by blast

lemma core_partition_free:
  "core_partition A S H M \<Longrightarrow> c \<in> H \<Longrightarrow> core_partition (insert c A) S (H - {c}) M"
  unfolding core_partition_def by blast

lemma core_partitionD:
  assumes "core_partition A S H M"
  shows "c \<in> A \<Longrightarrow> c \<notin> S \<and> c \<notin> H" "c \<in> H \<Longrightarrow> c \<notin> S \<and> c \<in> M" "c \<in> S \<Longrightarrow> c \<in> M"
  using assms unfolding core_partition_def by blast+

section \<open>Assignments\<close>

text \<open>The result of the acquire loops is built unit by unit.\<close>

definition assignment_add :: "cuid \<Rightarrow> physical_core_id \<Rightarrow> logical_core_id list \<Rightarrow> assignment \<Rightarrow> assignment" where
  "assignment_add unit_id core logical a =
     \<lparr>physical_core_ids = insert core (physical_core_ids a),
      logical_core_ids = logical_core_ids a \<union> set logical,
      cuid_cores = (cuid_cores a)(unit_id \<mapsto> \<lparr>c_physical_core_id = core, c_logical_core_ids = logical\<rparr>)\<rparr>"

definition assignment_empty :: assignment where
  "assignment_empty = \<lparr>physical_core_ids = {}, logical_core_ids = {}, cuid_cores = Map.empty\<rparr>"

text \<open>What the result should be, given who holds which core and which logical cores a core has.\<close>

definition assignment_for ::
    "(physical_core_id \<Rightarrow> logical_core_id list option) \<Rightarrow> (cuid \<rightharpoonup> physical_core_id) \<Rightarrow> cuid list \<Rightarrow> assignment" where
  "assignment_for vec held us =
     \<lparr>physical_core_ids = {c. \<exists>u \<in> set us. held u = Some c},
      logical_core_ids = {l. \<exists>u \<in> set us. \<exists>c. held u = Some c \<and> l \<in> set (the (vec c))},
      cuid_cores = (\<lambda>u. if u \<in> set us
        then map_option (\<lambda>c. \<lparr>c_physical_core_id = c, c_logical_core_ids = the (vec c)\<rparr>) (held u) else None)\<rparr>"

definition assignment_join :: "assignment \<Rightarrow> assignment \<Rightarrow> assignment" where
  "assignment_join a b = \<lparr>physical_core_ids = physical_core_ids a \<union> physical_core_ids b,
     logical_core_ids = logical_core_ids a \<union> logical_core_ids b, cuid_cores = cuid_cores a ++ cuid_cores b\<rparr>"

lemma assignment_join_empty [simp]:
  "assignment_join assignment_empty a = a" "assignment_join a (assignment_for vec held []) = a"
  by (simp_all add: assignment_join_def assignment_empty_def assignment_for_def)

lemma assignment_join_add:
  assumes "held u = Some c" "vec c = Some ls"
  shows "assignment_join (assignment_add u c ls a) (assignment_for vec held us)
    = assignment_join a (assignment_for vec held (u # us))"
  using assms by (auto simp: assignment_join_def assignment_add_def assignment_for_def map_add_def fun_eq_iff split: option.splits)

lemma cuid_cores_assignment_for:
  "map_option c_physical_core_id (cuid_cores (assignment_for vec held us) u) = (if u \<in> set us then held u else None)"
  by (cases "held u") (simp_all add: assignment_for_def)

section \<open>The contract of a core manager\<close>

text \<open>
  \<^verbatim>\<open>CoreManagerFunctions\<close> as its clients see it.  \<open>held s u\<close> is the physical core the manager has given
  to the compute unit \<open>u\<close>; an operation returns \<open>None\<close> where it would panic.
\<close>

locale core_manager =
  fixes inv :: "'s \<Rightarrow> bool"
    and acquire_worker_core :: "acquire_request \<Rightarrow> 's \<Rightarrow> ((acquire_error + assignment) \<times> 's) option"
    and release :: "cuid list \<Rightarrow> 's \<Rightarrow> 's option"
    and held :: "'s \<Rightarrow> cuid \<Rightarrow> physical_core_id option"
    and system :: "'s \<Rightarrow> physical_core_id set"
  assumes acquire_total: "inv s \<Longrightarrow> \<exists>r s'. acquire_worker_core req s = Some (r, s') \<and> inv s'"
    and acquire_err: "inv s \<Longrightarrow> acquire_worker_core req s = Some (Inl e, s') \<Longrightarrow> s' = s"
    and acquire_held: "inv s \<Longrightarrow> acquire_worker_core req s = Some (Inr a, s') \<Longrightarrow>
      map_option c_physical_core_id (cuid_cores a u) = (if u \<in> set (unit_ids req) then held s' u else None)"
    and acquire_covers: "inv s \<Longrightarrow> acquire_worker_core req s = Some (Inr a, s') \<Longrightarrow>
      u \<in> set (unit_ids req) \<Longrightarrow> held s' u \<noteq> None"
    and acquire_keeps: "inv s \<Longrightarrow> acquire_worker_core req s = Some (Inr a, s') \<Longrightarrow>
      held s u \<noteq> None \<or> u \<notin> set (unit_ids req) \<Longrightarrow> held s' u = held s u"
    and acquire_system: "inv s \<Longrightarrow> acquire_worker_core req s = Some (r, s') \<Longrightarrow> system s' = system s"
    and release_ok: "inv s \<Longrightarrow> \<exists>s'. release us s = Some s' \<and> inv s' \<and> system s' = system s
      \<and> held s' = (\<lambda>u. if u \<in> set us then None else held s u)"
    and system_apart: "inv s \<Longrightarrow> held s u = Some c \<Longrightarrow> c \<notin> system s"
begin

text \<open>Units keep their cores when they are acquired again, under whatever work type.\<close>

lemma acquire_again:
  assumes "inv s" "acquire_worker_core r1 s = Some (Inr a1, s1)" "acquire_worker_core r2 s1 = Some (Inr a2, s2)"
    and "set (unit_ids r2) = set (unit_ids r1)"
  shows "map_option c_physical_core_id (cuid_cores a2 u) = map_option c_physical_core_id (cuid_cores a1 u)"
proof -
  have i1: "inv s1" using acquire_total [OF assms(1), of r1] assms(2) by auto
  show ?thesis
    using acquire_held [OF assms(1,2), of u] acquire_held [OF i1 assms(3), of u]
      acquire_covers [OF assms(1,2), of u] acquire_keeps [OF i1 assms(3), of u] assms(4) by auto
qed

text \<open>The cores given out are never system cores.\<close>

lemma acquired_not_system:
  assumes "inv s" "acquire_worker_core req s = Some (Inr a, s')" "cuid_cores a u = Some c"
  shows "c_physical_core_id c \<notin> system s"
proof -
  have i: "inv s'" using acquire_total [OF assms(1), of req] assms(2) by auto
  have "held s' u = Some (c_physical_core_id c)"
    using acquire_held [OF assms(1,2), of u] assms(3) by (simp split: if_splits)
  then show ?thesis using system_apart [OF i] acquire_system [OF assms(1,2)] by simp
qed

text \<open>Releasing what was acquired for new units gives back exactly what was held before.\<close>

lemma acquire_release:
  assumes "inv s" "acquire_worker_core req s = Some (Inr a, s')"
    and "\<forall>u \<in> set (unit_ids req). held s u = None"
  shows "\<exists>s''. release (unit_ids req) s' = Some s'' \<and> held s'' = held s"
proof -
  have i: "inv s'" using acquire_total [OF assms(1), of req] assms(2) by auto
  obtain s'' where s'': "release (unit_ids req) s' = Some s''"
    "held s'' = (\<lambda>u. if u \<in> set (unit_ids req) then None else held s' u)"
    using release_ok [OF i, of "unit_ids req"] by blast
  have "held s'' u = held s u" for u
    using acquire_keeps [OF assms(1,2), of u] assms(3) by (auto simp: s''(2))
  with s''(1) show ?thesis by blast
qed

end

end
