(* ===== verification/Core_Strict.thy ===== *)
theory Core_Strict
  imports Core_Manager
begin

text \<open>
  The strict core manager, \<^verbatim>\<open>crates/core-manager/src/strict.rs\<close>: every compute unit has a physical
  core of its own.  The state is the contents of the \<^verbatim>\<open>RwLock\<close> plus whether a notification waits in
  the channel (of capacity one) to the persistence task; every operation holds the lock from its
  first to its last access, so it is one step.  \<open>None\<close> stands for a panic.
\<close>

section \<open>State\<close>

record ('m, 'b) strict_state =
  ss_cores_mapping :: 'm
  ss_system_cores :: "physical_core_id set"
  ss_available_cores :: "physical_core_id set"
  ss_unit_id_mapping :: 'b
  ss_work_type_mapping :: "(cuid, work_type) hash_map"
  ss_notified :: bool

type_synonym 'm core_multimap = "('m, physical_core_id, logical_core_id) multimap_api"
type_synonym 'b unit_bimap = "('b, physical_core_id, cuid) bimap_api"

section \<open>Construction and persistence\<close>

definition strict_make_instance ::
    "'m \<Rightarrow> physical_core_id set \<Rightarrow> physical_core_id set \<Rightarrow> 'b \<Rightarrow> (cuid, work_type) hash_map
      \<Rightarrow> ('m, 'b) strict_state" where
  "strict_make_instance m sys av b wt =
     \<lparr>ss_cores_mapping = m, ss_system_cores = sys, ss_available_cores = av, ss_unit_id_mapping = b,
      ss_work_type_mapping = wt, ss_notified = False\<rparr>"

definition strict_new ::
    "'r range_api \<Rightarrow> 'm core_multimap \<Rightarrow> 'b unit_bimap \<Rightarrow> 'te + 'te topology \<Rightarrow> nat \<Rightarrow> 'r
      \<Rightarrow> ('te create_error + ('m, 'b) strict_state) option" where
  "strict_new rs mm bm topology system_cpu_count core_range =
     (let available_core_count = rs_len rs core_range mod 2 ^ 64 in
      if system_cpu_count = 0 then Some (Inl IllegalSystemCoreCount)
      else if available_core_count < system_cpu_count
      then Some (Inl (NotEnoughCores available_core_count system_cpu_count))
      else case topology of
        Inl e \<Rightarrow> Some (Inl (CreateTopology e))
      | Inr topo \<Rightarrow> (case topo_physical_cores topo of
          Inl e \<Rightarrow> Some (Inl (CollectCoresData e))
        | Inr physical_cores \<Rightarrow>
            (case collect_cores rs core_range mm topo physical_cores (mm_new mm, {}) of
              Inl e \<Rightarrow> Some (Inl e)
            | Inr (cores_mapping, available_cores) \<Rightarrow>
                (case take_system_cores system_cpu_count available_cores {} of
                  None \<Rightarrow> None
                | Some (available_cores', system_cores) \<Rightarrow>
                    Some (Inr (strict_make_instance cores_mapping system_cores available_cores' (bm_new bm) []))))))"

definition strict_to_persistent ::
    "'m core_multimap \<Rightarrow> 'b unit_bimap \<Rightarrow> ('m, 'b) strict_state \<Rightarrow> persistent_state" where
  "strict_to_persistent mm bm st =
     \<lparr>ps_cores_mapping = mm_iter mm (ss_cores_mapping st),
      ps_system_cores = sorted_list_of_set (ss_system_cores st),
      ps_available_cores = sorted_list_of_set (ss_available_cores st),
      ps_unit_id_mapping = bm_iter bm (ss_unit_id_mapping st),
      ps_work_type_mapping = ss_work_type_mapping st\<rparr>"

definition strict_from_persistent ::
    "'m core_multimap \<Rightarrow> 'b unit_bimap \<Rightarrow> persistent_state \<Rightarrow> ('m, 'b) strict_state" where
  "strict_from_persistent mm bm ps =
     strict_make_instance
       (fold (\<lambda>(k, v). mm_insert mm k v) (ps_cores_mapping ps) (mm_new mm))
       (set (ps_system_cores ps)) (set (ps_available_cores ps))
       (fold (\<lambda>(l, r). bm_insert bm l r) (ps_unit_id_mapping ps) (bm_new bm))
       (fold (\<lambda>(k, v). hm_insert k v) (ps_work_type_mapping ps) [])"

definition strict_persist ::
    "'m core_multimap \<Rightarrow> 'b unit_bimap \<Rightarrow> ('io, 'utf, 'de, 'ser) core_file_io \<Rightarrow> ('m, 'b) strict_state
      \<Rightarrow> string option \<Rightarrow> (('io, 'ser) persist_error + unit) \<times> string option" where
  "strict_persist mm bm io st file = persist_state io (strict_to_persistent mm bm st) file"

text \<open>
  The branch of \<^verbatim>\<open>from_path\<close> that creates a manager and writes its first state; the source has it
  twice, for a missing file and for a file that the configuration no longer fits.
\<close>

definition strict_create_and_persist ::
    "'r range_api \<Rightarrow> 'm core_multimap \<Rightarrow> 'b unit_bimap \<Rightarrow> ('io, 'utf, 'de, 'ser) core_file_io
      \<Rightarrow> 'te + 'te topology \<Rightarrow> nat \<Rightarrow> 'r \<Rightarrow> string option
      \<Rightarrow> ((('te, 'io, 'utf, 'de, 'ser) loading_error + ('m, 'b) strict_state) \<times> string option) option" where
  "strict_create_and_persist rs mm bm io topology system_cpu_count core_range file =
     (case strict_new rs mm bm topology system_cpu_count core_range of
        None \<Rightarrow> None
      | Some (Inl e) \<Rightarrow> Some (Inl (CreateCoreManager e), file)
      | Some (Inr st) \<Rightarrow>
          (case strict_persist mm bm io st file of
             (Inl e, file') \<Rightarrow> Some (Inl (LoadPersistError e), file')
           | (Inr _, file') \<Rightarrow> Some (Inr st, file')))"

definition strict_from_path ::
    "'r range_api \<Rightarrow> 'm core_multimap \<Rightarrow> 'b unit_bimap \<Rightarrow> ('io, 'utf, 'de, 'ser) core_file_io
      \<Rightarrow> 'te + 'te topology \<Rightarrow> nat \<Rightarrow> 'r \<Rightarrow> string option
      \<Rightarrow> ((('te, 'io, 'utf, 'de, 'ser) loading_error + ('m, 'b) strict_state) \<times> string option) option" where
  "strict_from_path rs mm bm io topology system_cpu_count core_range file =
     (case file of
        None \<Rightarrow> strict_create_and_persist rs mm bm io topology system_cpu_count core_range file
      | Some bytes \<Rightarrow>
          (case cf_read_err io of
             Some e \<Rightarrow> Some (Inl (LoadIoError e), file)
           | None \<Rightarrow> (case cf_utf8_err io bytes of
               Some e \<Rightarrow> Some (Inl (DecodeError e), file)
             | None \<Rightarrow> (case cf_toml_de io bytes of
                 Inl e \<Rightarrow> Some (Inl (DeserializationError e), file)
               | Inr ps \<Rightarrow>
                   if rs_eq rs core_range (loaded_range rs ps) \<and> length (ps_system_cores ps) = system_cpu_count
                   then Some (Inr (strict_from_persistent mm bm ps), file)
                   else strict_create_and_persist rs mm bm io topology system_cpu_count core_range file))))"

section \<open>Acquiring and releasing\<close>

text \<open>The core of one unit: its own if it has one, else the highest free core.\<close>

definition strict_assign_unit ::
    "'b unit_bimap \<Rightarrow> work_type \<Rightarrow> cuid \<Rightarrow> ('m, 'b) strict_state
      \<Rightarrow> (physical_core_id \<times> ('m, 'b) strict_state) option" where
  "strict_assign_unit bm worker_unit_type unit_id st =
     (case bm_get_by_right bm (ss_unit_id_mapping st) unit_id of
        None \<Rightarrow>
          (case btree_pop_last (ss_available_cores st) of
             None \<Rightarrow> None
           | Some (core_id, available_cores) \<Rightarrow>
               Some (core_id, st\<lparr>ss_available_cores := available_cores,
                 ss_unit_id_mapping := bm_insert bm core_id unit_id (ss_unit_id_mapping st),
                 ss_work_type_mapping := hm_insert unit_id worker_unit_type (ss_work_type_mapping st)\<rparr>))
      | Some core_id \<Rightarrow>
          Some (core_id, st\<lparr>ss_work_type_mapping := hm_insert unit_id worker_unit_type (ss_work_type_mapping st)\<rparr>))"

fun strict_acquire_loop ::
    "'m core_multimap \<Rightarrow> 'b unit_bimap \<Rightarrow> work_type \<Rightarrow> cuid list \<Rightarrow> ('m, 'b) strict_state \<Rightarrow> assignment
      \<Rightarrow> (assignment \<times> ('m, 'b) strict_state) option" where
  "strict_acquire_loop mm bm t [] st a = Some (a, st)"
| "strict_acquire_loop mm bm t (u # us) st a =
     (case strict_assign_unit bm t u st of
        None \<Rightarrow> None
      | Some (core, st') \<Rightarrow>
          (case mm_get_vec mm (ss_cores_mapping st') core of
             None \<Rightarrow> None
           | Some logical \<Rightarrow> strict_acquire_loop mm bm t us st' (assignment_add u core logical a)))"

definition strict_acquire ::
    "'m core_multimap \<Rightarrow> 'b unit_bimap \<Rightarrow> acquire_request \<Rightarrow> ('m, 'b) strict_state
      \<Rightarrow> ((acquire_error + assignment) \<times> ('m, 'b) strict_state) option" where
  "strict_acquire mm bm req st =
     (let available = card (ss_available_cores st); required = length (unit_ids req) in
      if available < required
      then Some (Inl (NotFoundAvailableCores required available (bm_iter bm (ss_unit_id_mapping st))), st)
      else case strict_acquire_loop mm bm (worker_type req) (unit_ids req) st assignment_empty of
             None \<Rightarrow> None
           | Some (a, st') \<Rightarrow> Some (Inr a, st'\<lparr>ss_notified := True\<rparr>))"

definition strict_release_unit :: "'b unit_bimap \<Rightarrow> cuid \<Rightarrow> ('m, 'b) strict_state \<Rightarrow> ('m, 'b) strict_state" where
  "strict_release_unit bm unit_id st =
     (case bm_remove_by_right bm unit_id (ss_unit_id_mapping st) of
        (None, b) \<Rightarrow> st\<lparr>ss_unit_id_mapping := b\<rparr>
      | (Some (core, _), b) \<Rightarrow>
          st\<lparr>ss_unit_id_mapping := b,
             ss_available_cores := insert core (ss_available_cores st),
             ss_work_type_mapping := hm_remove unit_id (ss_work_type_mapping st)\<rparr>)"

definition strict_release :: "'b unit_bimap \<Rightarrow> cuid list \<Rightarrow> ('m, 'b) strict_state \<Rightarrow> ('m, 'b) strict_state" where
  "strict_release bm us st = fold (strict_release_unit bm) us st"

definition strict_get_system_cpu_assignment ::
    "'m core_multimap \<Rightarrow> ('m, 'b) strict_state \<Rightarrow> assignment option" where
  "strict_get_system_cpu_assignment mm st =
     (if \<forall>c \<in> ss_system_cores st. mm_get_vec mm (ss_cores_mapping st) c \<noteq> None
      then Some \<lparr>physical_core_ids = ss_system_cores st,
             logical_core_ids = (\<Union>c \<in> ss_system_cores st. set (the (mm_get_vec mm (ss_cores_mapping st) c))),
             cuid_cores = Map.empty\<rparr>
      else None)"

section \<open>The invariant\<close>

text \<open>
  Free, system and assigned cores are pairwise disjoint and together are exactly the cores whose
  logical cores are known; a work type is recorded exactly for the units that hold a core.  The
  invariant includes the documented behaviour of the two third-party containers.
\<close>

definition strict_assigned :: "'b unit_bimap \<Rightarrow> ('m, 'b) strict_state \<Rightarrow> physical_core_id set" where
  "strict_assigned bm st = fst ` bm_pairs bm (ss_unit_id_mapping st)"

definition strict_held :: "'b unit_bimap \<Rightarrow> ('m, 'b) strict_state \<Rightarrow> cuid \<Rightarrow> physical_core_id option" where
  "strict_held bm st u = bm_get_by_right bm (ss_unit_id_mapping st) u"

definition strict_inv :: "'m core_multimap \<Rightarrow> 'b unit_bimap \<Rightarrow> ('m, 'b) strict_state \<Rightarrow> bool" where
  "strict_inv mm bm st \<longleftrightarrow>
     multimap_laws mm \<and> bimap_laws bm
   \<and> finite (ss_available_cores st) \<and> finite (ss_system_cores st)
   \<and> core_partition (ss_available_cores st) (ss_system_cores st) (strict_assigned bm st)
       (mapped_cores mm (ss_cores_mapping st))
   \<and> no_empty_vec mm (ss_cores_mapping st)
   \<and> hm_ok (ss_work_type_mapping st)
   \<and> (\<forall>u. hm_get (ss_work_type_mapping st) u \<noteq> None \<longleftrightarrow> strict_held bm st u \<noteq> None)"

lemmas strict_defs = strict_inv_def strict_assigned_def strict_held_def

lemma strict_inv_laws [dest]: "strict_inv mm bm st \<Longrightarrow> multimap_laws mm" "strict_inv mm bm st \<Longrightarrow> bimap_laws bm"
  by (simp_all add: strict_inv_def)

lemma strict_held_iff:
  "bimap_laws bm \<Longrightarrow> strict_held bm st u = Some c \<longleftrightarrow> (c, u) \<in> bm_pairs bm (ss_unit_id_mapping st)"
  by (simp add: strict_held_def bimap_lawsD(3))

lemma strict_assigned_held:
  "bimap_laws bm \<Longrightarrow> strict_assigned bm st = {c. \<exists>u. strict_held bm st u = Some c}"
  by (force simp: strict_assigned_def strict_held_iff)

lemma strict_held_inj:
  "bimap_laws bm \<Longrightarrow> strict_held bm st u = Some c \<Longrightarrow> strict_held bm st v = Some c \<Longrightarrow> u = v"
  using bimap_inj_right by (fastforce simp: strict_held_iff)

lemma strict_inv_partition:
  "strict_inv mm bm st \<Longrightarrow> core_partition (ss_available_cores st) (ss_system_cores st) (strict_assigned bm st)
      (mapped_cores mm (ss_cores_mapping st))"
  by (simp add: strict_inv_def)

lemma strict_held_mapped:
  assumes "strict_inv mm bm st" "strict_held bm st u = Some c"
  shows "\<exists>l ls. mm_get_vec mm (ss_cores_mapping st) c = Some (l # ls)"
proof -
  have c: "c \<in> strict_assigned bm st" using assms strict_assigned_held [of bm st] by auto
  note part = strict_inv_partition [OF assms(1)]
  have "c \<in> mapped_cores mm (ss_cores_mapping st)" using core_partitionD(2) [OF part c] by simp
  then have "mm_get_vec mm (ss_cores_mapping st) c \<noteq> None" "mm_get_vec mm (ss_cores_mapping st) c \<noteq> Some []"
    using assms(1) by (simp_all add: strict_inv_def mapped_cores_def no_empty_vec_def)
  then show ?thesis by (auto simp: neq_Nil_conv)
qed

text \<open>One round of the loop.\<close>

lemma strict_assign_unit_ok:
  assumes inv: "strict_inv mm bm st" and room: "strict_held bm st u = None \<Longrightarrow> ss_available_cores st \<noteq> {}"
  obtains c st' where "strict_assign_unit bm t u st = Some (c, st')" "strict_inv mm bm st'"
    "strict_held bm st' = (strict_held bm st)(u \<mapsto> c)"
    "strict_held bm st u = None \<or> strict_held bm st u = Some c"
    "ss_cores_mapping st' = ss_cores_mapping st" "ss_system_cores st' = ss_system_cores st"
    "ss_work_type_mapping st' = hm_insert u t (ss_work_type_mapping st)"
    "card (ss_available_cores st) \<le> Suc (card (ss_available_cores st'))"
proof (cases "strict_held bm st u")
  case None
  note bl = strict_inv_laws(2) [OF inv]
  obtain c av where pop: "btree_pop_last (ss_available_cores st) = Some (c, av)"
    using room [OF None] by (cases "btree_pop_last (ss_available_cores st)") auto
  have fin: "finite (ss_available_cores st)" using inv by (simp add: strict_inv_def)
  note p = btree_pop_last_Some [OF pop fin]
  let ?st = "st\<lparr>ss_available_cores := av, ss_unit_id_mapping := bm_insert bm c u (ss_unit_id_mapping st),
      ss_work_type_mapping := hm_insert u t (ss_work_type_mapping st)\<rparr>"
  have asg: "strict_assign_unit bm t u st = Some (c, ?st)"
    using None pop by (simp add: strict_assign_unit_def strict_held_def)
  note part = strict_inv_partition [OF inv]
  have c: "c \<notin> strict_assigned bm st" using core_partitionD(1) [OF part p(1)] by simp
  have pairs: "bm_pairs bm (ss_unit_id_mapping ?st) = insert (c, u) (bm_pairs bm (ss_unit_id_mapping st))"
    using bimap_lawsD(2) [OF bl, of c u] c None bimap_get_None [OF bl]
    by (force simp: strict_assigned_def strict_held_def)
  have assigned: "strict_assigned bm ?st = insert c (strict_assigned bm st)"
    unfolding strict_assigned_def pairs by simp
  have held: "strict_held bm ?st = (strict_held bm st)(u \<mapsto> c)"
  proof
    fix v
    show "strict_held bm ?st v = ((strict_held bm st)(u \<mapsto> c)) v"
    proof (cases "v = u")
      case True
      then show ?thesis using pairs by (simp add: strict_held_iff [OF bl])
    next
      case False
      then have "strict_held bm ?st v = Some d \<longleftrightarrow> strict_held bm st v = Some d" for d
        unfolding strict_held_iff [OF bl] pairs by auto
      then show ?thesis using False by (intro option_ext) simp
    qed
  qed
  have inv': "strict_inv mm bm ?st"
    using inv fin p(2) held core_partition_assign [OF part p(1)] unfolding strict_inv_def assigned by simp
  show ?thesis
    by (rule that [OF asg inv' held]) (use None p(3) in simp_all)
next
  case (Some c)
  let ?st = "st\<lparr>ss_work_type_mapping := hm_insert u t (ss_work_type_mapping st)\<rparr>"
  have asg: "strict_assign_unit bm t u st = Some (c, ?st)"
    using Some by (simp add: strict_assign_unit_def strict_held_def)
  have held: "strict_held bm ?st = strict_held bm st" by (simp add: strict_held_def fun_eq_iff)
  then have held': "strict_held bm ?st = (strict_held bm st)(u \<mapsto> c)" using Some by auto
  have "strict_assigned bm ?st = strict_assigned bm st" by (simp add: strict_assigned_def)
  then have inv': "strict_inv mm bm ?st" using inv Some held unfolding strict_inv_def by simp
  show ?thesis
    by (rule that [OF asg inv' held']) (use Some in simp_all)
qed

text \<open>The whole loop: it cannot panic, and what it returns is determined by who holds what afterwards.\<close>

lemma strict_acquire_loop_ok:
  assumes "strict_inv mm bm st" "length us \<le> card (ss_available_cores st)"
  shows "\<exists>st'. strict_acquire_loop mm bm t us st a =
       Some (assignment_join a (assignment_for (mm_get_vec mm (ss_cores_mapping st)) (strict_held bm st') us), st')
     \<and> strict_inv mm bm st'
     \<and> ss_cores_mapping st' = ss_cores_mapping st \<and> ss_system_cores st' = ss_system_cores st
     \<and> (\<forall>u. strict_held bm st u \<noteq> None \<or> u \<notin> set us \<longrightarrow> strict_held bm st' u = strict_held bm st u)
     \<and> (\<forall>u \<in> set us. strict_held bm st' u \<noteq> None)
     \<and> (\<forall>u. hm_get (ss_work_type_mapping st') u =
          (if u \<in> set us then Some t else hm_get (ss_work_type_mapping st) u))"
  using assms
proof (induction us arbitrary: st a)
  case Nil
  then show ?case by simp
next
  case (Cons u us)
  have room: "ss_available_cores st \<noteq> {}" using Cons.prems(2) by auto
  obtain c st1 where asg: "strict_assign_unit bm t u st = Some (c, st1)" "strict_inv mm bm st1"
    and held1: "strict_held bm st1 = (strict_held bm st)(u \<mapsto> c)"
      "strict_held bm st u = None \<or> strict_held bm st u = Some c"
    and fr: "ss_cores_mapping st1 = ss_cores_mapping st" "ss_system_cores st1 = ss_system_cores st"
      "ss_work_type_mapping st1 = hm_insert u t (ss_work_type_mapping st)"
    and card1: "card (ss_available_cores st) \<le> Suc (card (ss_available_cores st1))"
    by (rule strict_assign_unit_ok [OF Cons.prems(1) room])
  have "strict_held bm st1 u = Some c" using held1(1) by simp
  then obtain l ls where vec: "mm_get_vec mm (ss_cores_mapping st1) c = Some (l # ls)"
    using strict_held_mapped [OF asg(2)] by blast
  have "length us \<le> card (ss_available_cores st1)" using Cons.prems(2) card1 by simp
  from Cons.IH [OF asg(2) this, of "assignment_add u c (l # ls) a"] obtain st' where
    loop: "strict_acquire_loop mm bm t us st1 (assignment_add u c (l # ls) a) =
       Some (assignment_join (assignment_add u c (l # ls) a)
         (assignment_for (mm_get_vec mm (ss_cores_mapping st1)) (strict_held bm st') us), st')"
    and inv': "strict_inv mm bm st'"
    and fr': "ss_cores_mapping st' = ss_cores_mapping st1" "ss_system_cores st' = ss_system_cores st1"
    and held': "\<forall>v. strict_held bm st1 v \<noteq> None \<or> v \<notin> set us \<longrightarrow> strict_held bm st' v = strict_held bm st1 v"
      "\<forall>v \<in> set us. strict_held bm st' v \<noteq> None"
    and wt': "\<forall>v. hm_get (ss_work_type_mapping st') v =
          (if v \<in> set us then Some t else hm_get (ss_work_type_mapping st1) v)"
    by blast
  have hu: "strict_held bm st' u = Some c" using held'(1) held1(1) by simp
  have "strict_acquire_loop mm bm t (u # us) st a =
      Some (assignment_join a (assignment_for (mm_get_vec mm (ss_cores_mapping st)) (strict_held bm st') (u # us)), st')"
    using asg(1) vec loop fr(1) assignment_join_add [where held = "strict_held bm st'" and vec = "mm_get_vec mm (ss_cores_mapping st1)", OF hu vec] by simp
  moreover have "strict_held bm st v \<noteq> None \<or> v \<notin> set (u # us) \<Longrightarrow> strict_held bm st' v = strict_held bm st v" for v
    using held'(1) held1 by (cases "v = u") (auto simp: hu)
  moreover have "v \<in> set (u # us) \<Longrightarrow> strict_held bm st' v \<noteq> None" for v
    using held'(2) hu by auto
  moreover have "hm_get (ss_work_type_mapping st') v =
      (if v \<in> set (u # us) then Some t else hm_get (ss_work_type_mapping st) v)" for v
    using wt' fr(3) by simp
  ultimately show ?case using inv' fr fr' by (intro exI [of _ st'] conjI allI ballI impI) simp_all
qed

lemma strict_inv_notified [simp]: "strict_inv mm bm (st\<lparr>ss_notified := b\<rparr>) = strict_inv mm bm st"
  by (simp add: strict_defs)

lemma strict_held_notified [simp]: "strict_held bm (st\<lparr>ss_notified := b\<rparr>) = strict_held bm st"
  by (simp add: strict_held_def fun_eq_iff)

text \<open>Every acquisition, as its two outcomes.\<close>

lemma strict_acquire_cases:
  assumes "strict_inv mm bm st"
  obtains (refused) "card (ss_available_cores st) < length (unit_ids req)"
      "strict_acquire mm bm req st = Some (Inl (NotFoundAvailableCores (length (unit_ids req))
         (card (ss_available_cores st)) (bm_iter bm (ss_unit_id_mapping st))), st)"
  | (granted) st' where "length (unit_ids req) \<le> card (ss_available_cores st)"
      "strict_acquire mm bm req st = Some (Inr (assignment_for (mm_get_vec mm (ss_cores_mapping st))
         (strict_held bm st') (unit_ids req)), st')"
      "strict_inv mm bm st'" "ss_cores_mapping st' = ss_cores_mapping st"
      "ss_system_cores st' = ss_system_cores st" "ss_notified st'"
      "\<And>u. strict_held bm st u \<noteq> None \<or> u \<notin> set (unit_ids req) \<Longrightarrow> strict_held bm st' u = strict_held bm st u"
      "\<And>u. u \<in> set (unit_ids req) \<Longrightarrow> strict_held bm st' u \<noteq> None"
      "\<And>u. hm_get (ss_work_type_mapping st') u =
          (if u \<in> set (unit_ids req) then Some (worker_type req) else hm_get (ss_work_type_mapping st) u)"
proof (cases "card (ss_available_cores st) < length (unit_ids req)")
  case True
  then show thesis by (intro refused) (simp_all add: strict_acquire_def Let_def)
next
  case False
  then have le: "length (unit_ids req) \<le> card (ss_available_cores st)" by simp
  obtain st1 where
    loop: "strict_acquire_loop mm bm (worker_type req) (unit_ids req) st assignment_empty =
       Some (assignment_for (mm_get_vec mm (ss_cores_mapping st)) (strict_held bm st1) (unit_ids req), st1)"
    and st1: "strict_inv mm bm st1" "ss_cores_mapping st1 = ss_cores_mapping st"
      "ss_system_cores st1 = ss_system_cores st"
      "\<forall>u. strict_held bm st u \<noteq> None \<or> u \<notin> set (unit_ids req) \<longrightarrow> strict_held bm st1 u = strict_held bm st u"
      "\<forall>u \<in> set (unit_ids req). strict_held bm st1 u \<noteq> None"
      "\<forall>u. hm_get (ss_work_type_mapping st1) u =
          (if u \<in> set (unit_ids req) then Some (worker_type req) else hm_get (ss_work_type_mapping st) u)"
    using strict_acquire_loop_ok [OF assms le, of "worker_type req" assignment_empty] by auto
  show thesis
    by (rule granted [of "st1\<lparr>ss_notified := True\<rparr>"])
      (use False loop st1 in \<open>auto simp: strict_acquire_def Let_def\<close>)
qed

lemma strict_acquire_granted:
  assumes "strict_inv mm bm st" "strict_acquire mm bm req st = Some (Inr a, st')"
  shows "a = assignment_for (mm_get_vec mm (ss_cores_mapping st)) (strict_held bm st') (unit_ids req)
    \<and> ss_cores_mapping st' = ss_cores_mapping st \<and> ss_system_cores st' = ss_system_cores st
    \<and> (\<forall>u. hm_get (ss_work_type_mapping st') u =
          (if u \<in> set (unit_ids req) then Some (worker_type req) else hm_get (ss_work_type_mapping st) u))"
  by (rule strict_acquire_cases [OF assms(1), of req]) (use assms(2) in simp_all)

text \<open>Releasing.\<close>

lemma strict_release_unit_ok:
  assumes inv: "strict_inv mm bm st"
  shows "strict_inv mm bm (strict_release_unit bm u st)"
    and "strict_held bm (strict_release_unit bm u st) = (strict_held bm st)(u := None)"
    and "ss_cores_mapping (strict_release_unit bm u st) = ss_cores_mapping st"
    and "ss_system_cores (strict_release_unit bm u st) = ss_system_cores st"
    and "ss_notified (strict_release_unit bm u st) = ss_notified st"
    and "hm_get (ss_work_type_mapping (strict_release_unit bm u st)) v =
      (if v = u then None else hm_get (ss_work_type_mapping st) v)"
proof -
  note bl = strict_inv_laws(2) [OF inv]
  obtain r b where rem: "bm_remove_by_right bm u (ss_unit_id_mapping st) = (r, b)" by fastforce
  have r: "r = map_option (\<lambda>l. (l, u)) (strict_held bm st u)"
    and b: "bm_pairs bm b = {p \<in> bm_pairs bm (ss_unit_id_mapping st). snd p \<noteq> u}"
    using bimap_lawsD(4,5) [OF bl, of u "ss_unit_id_mapping st"] rem by (simp_all add: strict_held_def)
  let ?st = "strict_release_unit bm u st"
  have um: "ss_unit_id_mapping ?st = b"
    using rem by (auto simp: strict_release_unit_def split: option.split)
  show held: "strict_held bm ?st = (strict_held bm st)(u := None)"
  proof
    fix v
    have "strict_held bm ?st v = Some d \<longleftrightarrow> v \<noteq> u \<and> strict_held bm st v = Some d" for d
      unfolding strict_held_iff [OF bl] um b by auto
    then show "strict_held bm ?st v = ((strict_held bm st)(u := None)) v"
      by (intro option_ext) simp
  qed
  show fr: "ss_cores_mapping ?st = ss_cores_mapping st" "ss_system_cores ?st = ss_system_cores st"
    "ss_notified ?st = ss_notified st"
    using rem by (auto simp: strict_release_unit_def split: option.split)
  have "hm_get (ss_work_type_mapping st) u = None \<longleftrightarrow> strict_held bm st u = None"
    using inv unfolding strict_inv_def by blast
  then show "hm_get (ss_work_type_mapping ?st) v = (if v = u then None else hm_get (ss_work_type_mapping st) v)"
    using rem r by (cases "strict_held bm st u") (simp_all add: strict_release_unit_def)
  show "strict_inv mm bm ?st"
  proof (cases "strict_held bm st u")
    case None
    then have st: "?st = st\<lparr>ss_unit_id_mapping := b\<rparr>" using rem r by (simp add: strict_release_unit_def)
    have same: "strict_held bm ?st = strict_held bm st" unfolding held using None by auto
    then have "strict_assigned bm ?st = strict_assigned bm st" unfolding strict_assigned_held [OF bl] by simp
    with same show ?thesis using inv unfolding strict_inv_def by (simp add: st)
  next
    case (Some c)
    then have st: "?st = st\<lparr>ss_unit_id_mapping := b, ss_available_cores := insert c (ss_available_cores st),
        ss_work_type_mapping := hm_remove u (ss_work_type_mapping st)\<rparr>"
      using rem r by (simp add: strict_release_unit_def)
    have "strict_assigned bm ?st = strict_assigned bm st - {c}"
    proof -
      have "(\<exists>v. ((strict_held bm st)(u := None)) v = Some d) \<longleftrightarrow> (\<exists>v. strict_held bm st v = Some d) \<and> d \<noteq> c" for d
        using Some strict_held_inj [OF bl, of st u c] by (metis fun_upd_apply option.distinct(1) option.inject)
      then show ?thesis unfolding strict_assigned_held [OF bl] held by blast
    qed
    moreover have "c \<in> strict_assigned bm st" using Some strict_assigned_held [OF bl, of st] by auto
    moreover note part = strict_inv_partition [OF inv]
    ultimately have "core_partition (ss_available_cores ?st) (ss_system_cores ?st) (strict_assigned bm ?st)
        (mapped_cores mm (ss_cores_mapping ?st))"
      using core_partition_free [OF part, of c] by (simp add: st)
    moreover have "hm_get (ss_work_type_mapping ?st) v \<noteq> None \<longleftrightarrow> strict_held bm ?st v \<noteq> None" for v
      unfolding held using inv by (simp add: strict_inv_def st)
    moreover have "finite (ss_available_cores ?st)" "finite (ss_system_cores ?st)"
      "no_empty_vec mm (ss_cores_mapping ?st)" "hm_ok (ss_work_type_mapping ?st)"
      using inv by (simp_all add: strict_inv_def st)
    ultimately show ?thesis using strict_inv_laws [OF inv] unfolding strict_inv_def by blast
  qed
qed

lemma strict_release_ok:
  assumes "strict_inv mm bm st"
  shows "strict_inv mm bm (strict_release bm us st)
    \<and> strict_held bm (strict_release bm us st) = (\<lambda>u. if u \<in> set us then None else strict_held bm st u)
    \<and> ss_cores_mapping (strict_release bm us st) = ss_cores_mapping st
    \<and> ss_system_cores (strict_release bm us st) = ss_system_cores st
    \<and> ss_notified (strict_release bm us st) = ss_notified st
    \<and> (\<forall>u. hm_get (ss_work_type_mapping (strict_release bm us st)) u =
          (if u \<in> set us then None else hm_get (ss_work_type_mapping st) u))"
  using assms
proof (induction us arbitrary: st)
  case (Cons u us)
  note u = strict_release_unit_ok [OF Cons.prems, of u]
  show ?case using Cons.IH [OF u(1)] u(2-) by (simp add: strict_release_def fun_eq_iff)
qed (simp add: strict_release_def)

text \<open>The strict manager keeps the contract.\<close>

interpretation strict: core_manager "strict_inv mm bm" "strict_acquire mm bm"
  "\<lambda>us st. Some (strict_release bm us st)" "strict_held bm" ss_system_cores for mm bm
proof unfold_locales
  fix st req assume inv: "strict_inv mm bm st"
  show "\<exists>r st'. strict_acquire mm bm req st = Some (r, st') \<and> strict_inv mm bm st'"
    by (rule strict_acquire_cases [OF inv, of req]) (use inv in blast)+
next
  fix st req e st' assume "strict_inv mm bm st" "strict_acquire mm bm req st = Some (Inl e, st')"
  then show "st' = st" by (elim strict_acquire_cases [of mm bm st req]) simp_all
next
  fix st req a st' u assume "strict_inv mm bm st" "strict_acquire mm bm req st = Some (Inr a, st')"
  then have "a = assignment_for (mm_get_vec mm (ss_cores_mapping st)) (strict_held bm st') (unit_ids req)"
    by (elim strict_acquire_cases [of mm bm st req]) simp_all
  then show "map_option c_physical_core_id (cuid_cores a u)
      = (if u \<in> set (unit_ids req) then strict_held bm st' u else None)"
    by (simp only: cuid_cores_assignment_for)
next
  fix st req a st' u assume "strict_inv mm bm st" "strict_acquire mm bm req st = Some (Inr a, st')"
    "u \<in> set (unit_ids req)"
  then show "strict_held bm st' u \<noteq> None" by (elim strict_acquire_cases [of mm bm st req]) simp_all
next
  fix st req a st' u assume "strict_inv mm bm st" "strict_acquire mm bm req st = Some (Inr a, st')"
    "strict_held bm st u \<noteq> None \<or> u \<notin> set (unit_ids req)"
  then show "strict_held bm st' u = strict_held bm st u" by (elim strict_acquire_cases [of mm bm st req]) simp_all
next
  fix st req r st' assume "strict_inv mm bm st" "strict_acquire mm bm req st = Some (r, st')"
  then show "ss_system_cores st' = ss_system_cores st" by (elim strict_acquire_cases [of mm bm st req]) simp_all
next
  fix st us assume "strict_inv mm bm st"
  from strict_release_ok [OF this]
  show "\<exists>s'. Some (strict_release bm us st) = Some s' \<and> strict_inv mm bm s' \<and> ss_system_cores s' = ss_system_cores st
      \<and> strict_held bm s' = (\<lambda>u. if u \<in> set us then None else strict_held bm st u)" by simp
next
  fix st u c assume inv: "strict_inv mm bm st" and "strict_held bm st u = Some c"
  then have c: "c \<in> strict_assigned bm st" using strict_assigned_held [OF strict_inv_laws(2) [OF inv], of st] by blast
  from core_partitionD(2) [OF strict_inv_partition [OF inv] c] show "c \<notin> ss_system_cores st" by simp
qed

section \<open>An instance\<close>

text \<open>A machine with three physical cores of two logical cores each, one of them for the system.\<close>

definition strict_demo ::
    "((physical_core_id \<times> logical_core_id list) list, (physical_core_id \<times> cuid) list) strict_state" where
  "strict_demo = strict_make_instance [(1, [2, 3]), (2, [4, 5]), (3, [6, 7])] {1} {2, 3} [] []"

definition strict_demo_topology :: "unit topology" where
  "strict_demo_topology = \<lparr>topo_physical_cores = Inr [1, 2, 3], topo_logical_cores = (\<lambda>c. Inr [2 * c, 2 * c + 1])\<rparr>"

lemma strict_demo_new:
  "strict_new list_range_set list_multimap list_bimap (Inr strict_demo_topology) 1 [0, 1, 2, 3] = Some (Inr strict_demo)"
  by (simp add: strict_new_def strict_demo_topology_def list_range_set_def list_multimap_def list_bimap_def Let_def
      btree_pop_first_def strict_demo_def insert_Diff_if insert_commute)

lemma strict_demo_inv: "strict_inv list_multimap list_bimap strict_demo"
proof -
  have "strict_assigned list_bimap strict_demo = {}" "strict_held list_bimap strict_demo = Map.empty"
    by (simp_all add: strict_assigned_def strict_held_def bm_pairs_def list_bimap_def strict_demo_def
        strict_make_instance_def fun_eq_iff)
  moreover have "mapped_cores list_multimap (ss_cores_mapping strict_demo) = {1, 2, 3}"
    by (auto simp: mapped_cores_def list_multimap_def strict_demo_def strict_make_instance_def)
  moreover have "no_empty_vec list_multimap (ss_cores_mapping strict_demo)"
    by (auto simp: no_empty_vec_def list_multimap_def strict_demo_def strict_make_instance_def)
  moreover have "ss_available_cores strict_demo = {2, 3}" "ss_system_cores strict_demo = {1}"
    "ss_work_type_mapping strict_demo = []"
    by (simp_all add: strict_demo_def strict_make_instance_def)
  ultimately show ?thesis
    unfolding strict_inv_def by (auto simp: list_multimap_laws list_bimap_laws core_partition_def)
qed

definition strict_demo_assignment :: assignment where
  "strict_demo_assignment = \<lparr>physical_core_ids = {2, 3}, logical_core_ids = {6, 7, 4, 5},
     cuid_cores = [7 \<mapsto> \<lparr>c_physical_core_id = 3, c_logical_core_ids = [6, 7]\<rparr>,
                   9 \<mapsto> \<lparr>c_physical_core_id = 2, c_logical_core_ids = [4, 5]\<rparr>]\<rparr>"

definition strict_demo_after ::
    "((physical_core_id \<times> logical_core_id list) list, (physical_core_id \<times> cuid) list) strict_state" where
  "strict_demo_after = \<lparr>ss_cores_mapping = [(1, [2, 3]), (2, [4, 5]), (3, [6, 7])], ss_system_cores = {1},
     ss_available_cores = {}, ss_unit_id_mapping = [(2, 9), (3, 7)],
     ss_work_type_mapping = [(7, Deal), (9, Deal)], ss_notified = True\<rparr>"

lemma strict_demo_acquire:
  "strict_acquire list_multimap list_bimap \<lparr>unit_ids = [7, 9], worker_type = Deal\<rparr> strict_demo =
     Some (Inr strict_demo_assignment, strict_demo_after)"
  by (simp add: strict_acquire_def strict_assign_unit_def strict_demo_def strict_make_instance_def list_multimap_def
      list_bimap_def btree_pop_last_def assignment_add_def assignment_empty_def Let_def
      hm_insert_def insert_commute insert_Diff_if strict_demo_assignment_def strict_demo_after_def)

section \<open>Properties\<close>

text \<open>
  C1: Acquiring from a well-formed manager never panics and keeps it well formed.  The request is
  refused exactly when it names more units than there are free cores, and then nothing changes and the
  error carries the numbers and the current assignment.  Otherwise every requested unit holds a core
  afterwards, units that held one keep it, other units are untouched, the returned assignment is the
  one read off from who holds what, the requested units get the request's work type and the
  persistence task is notified.
\<close>

theorem strict_acquire_correct:
  assumes "strict_inv mm bm st"
  shows "\<exists>r st'. strict_acquire mm bm req st = Some (r, st') \<and> strict_inv mm bm st'
    \<and> (case r of
         Inl e \<Rightarrow> card (ss_available_cores st) < length (unit_ids req) \<and> st' = st
           \<and> e = NotFoundAvailableCores (length (unit_ids req)) (card (ss_available_cores st))
                   (bm_iter bm (ss_unit_id_mapping st))
       | Inr a \<Rightarrow> length (unit_ids req) \<le> card (ss_available_cores st)
           \<and> a = assignment_for (mm_get_vec mm (ss_cores_mapping st)) (strict_held bm st') (unit_ids req)
           \<and> (\<forall>u. if strict_held bm st u \<noteq> None \<or> u \<notin> set (unit_ids req)
                  then strict_held bm st' u = strict_held bm st u
                  else \<exists>c \<in> ss_available_cores st. strict_held bm st' u = Some c)
           \<and> (\<forall>u. hm_get (ss_work_type_mapping st') u =
                (if u \<in> set (unit_ids req) then Some (worker_type req) else hm_get (ss_work_type_mapping st) u))
           \<and> ss_system_cores st' = ss_system_cores st \<and> ss_cores_mapping st' = ss_cores_mapping st
           \<and> ss_notified st')"
proof (rule strict_acquire_cases [OF assms, of req], goal_cases)
  case 1
  then show ?case using assms by simp
next
  case (2 st')
  note g = 2
  have new: "\<exists>c \<in> ss_available_cores st. strict_held bm st' u = Some c"
    if u: "strict_held bm st u = None" "u \<in> set (unit_ids req)" for u
  proof -
    note bl = strict_inv_laws(2) [OF assms]
    note part = strict_inv_partition [OF assms]
    have part': "core_partition (ss_available_cores st') (ss_system_cores st) (strict_assigned bm st')
        (mapped_cores mm (ss_cores_mapping st))" using g(3-5) by (simp add: strict_inv_def)
    obtain c where c: "strict_held bm st' u = Some c" using g(8) [OF u(2)] by auto
    then have "c \<in> strict_assigned bm st'" using strict_assigned_held [OF bl, of st'] by auto
    from core_partitionD(2) [OF part' this] have k: "c \<notin> ss_system_cores st" "c \<in> mapped_cores mm (ss_cores_mapping st)" by simp_all
    have "c \<notin> strict_assigned bm st"
    proof
      assume "c \<in> strict_assigned bm st"
      then obtain v where v: "strict_held bm st v = Some c" using strict_assigned_held [OF bl, of st] by auto
      then have "strict_held bm st' v = Some c" using g(7) [of v] by simp
      with strict_held_inj [OF bl _ c] u(1) v show False by auto
    qed
    with k part have "c \<in> ss_available_cores st" unfolding core_partition_def by blast
    with c show ?thesis by blast
  qed
  have "if strict_held bm st u \<noteq> None \<or> u \<notin> set (unit_ids req)
      then strict_held bm st' u = strict_held bm st u
      else \<exists>c \<in> ss_available_cores st. strict_held bm st' u = Some c" for u
    using g(7) [of u] new [of u] by simp
  then show ?case using g(1-6,9) by simp
qed

theorem strict_acquire_correct_witness:
  "strict_acquire list_multimap list_bimap \<lparr>unit_ids = [7, 9], worker_type = Deal\<rparr> strict_demo =
     Some (Inr strict_demo_assignment, strict_demo_after)
   \<and> strict_inv list_multimap list_bimap strict_demo_after
   \<and> hm_get (ss_work_type_mapping strict_demo_after) 9 = Some Deal"
  using strict_acquire_correct [OF strict_demo_inv, of "\<lparr>unit_ids = [7, 9], worker_type = Deal\<rparr>"]
  unfolding strict_demo_acquire by simp

text \<open>
  C2: Cores are handed out exclusively: in every assignment that the strict manager grants, two
  different units have different physical cores, no unit has a system core, every unit has at least
  one logical core, and asking again for the same units (with any work type) gives each the same
  physical core.
\<close>

theorem strict_exclusive:
  assumes inv: "strict_inv mm bm st" and acq: "strict_acquire mm bm req st = Some (Inr a, st')"
    and u: "cuid_cores a u = Some cu" and v: "cuid_cores a v = Some cv"
  shows "(u \<noteq> v \<longrightarrow> c_physical_core_id cu \<noteq> c_physical_core_id cv)
    \<and> c_physical_core_id cu \<notin> ss_system_cores st'
    \<and> c_logical_core_ids cu \<noteq> []
    \<and> (\<forall>req' a' st''. strict_acquire mm bm req' st' = Some (Inr a', st'') \<and> set (unit_ids req') = set (unit_ids req)
         \<longrightarrow> map_option c_physical_core_id (cuid_cores a' u) = Some (c_physical_core_id cu))"
proof (intro conjI allI impI)
  have inv': "strict_inv mm bm st'" using strict.acquire_total [OF inv, of req] acq by auto
  note bl = strict_inv_laws(2) [OF inv]
  have held: "strict_held bm st' w = Some (c_physical_core_id cw)" if "cuid_cores a w = Some cw" for w cw
    using strict.acquire_held [OF inv acq, of w] that by (simp split: if_splits)
  show "u \<noteq> v \<Longrightarrow> c_physical_core_id cu \<noteq> c_physical_core_id cv"
    using strict_held_inj [OF bl held [OF u]] held [OF v] by metis
  show "c_physical_core_id cu \<notin> ss_system_cores st'"
    by (rule strict.system_apart [OF inv' held [OF u]])
  have "c_logical_core_ids cu = the (mm_get_vec mm (ss_cores_mapping st') (c_physical_core_id cu))"
    using u strict_acquire_granted [OF inv acq] by (auto simp: assignment_for_def split: if_splits)
  then show "c_logical_core_ids cu \<noteq> []" using strict_held_mapped [OF inv' held [OF u]] by auto
  fix req' a' st'' assume "strict_acquire mm bm req' st' = Some (Inr a', st'') \<and> set (unit_ids req') = set (unit_ids req)"
  then show "map_option c_physical_core_id (cuid_cores a' u) = Some (c_physical_core_id cu)"
    using strict.acquire_again [OF inv acq, of req' a' st'' u] u by simp
qed

theorem strict_exclusive_witness:
  "strict_acquire list_multimap list_bimap \<lparr>unit_ids = [7, 9], worker_type = Deal\<rparr> strict_demo =
     Some (Inr strict_demo_assignment, strict_demo_after)
   \<and> c_physical_core_id (the (cuid_cores strict_demo_assignment 7)) \<noteq> c_physical_core_id (the (cuid_cores strict_demo_assignment 9))
   \<and> c_physical_core_id (the (cuid_cores strict_demo_assignment 7)) \<notin> ss_system_cores strict_demo_after"
proof -
  have "cuid_cores strict_demo_assignment 7 = Some \<lparr>c_physical_core_id = 3, c_logical_core_ids = [6, 7]\<rparr>"
    "cuid_cores strict_demo_assignment 9 = Some \<lparr>c_physical_core_id = 2, c_logical_core_ids = [4, 5]\<rparr>"
    by (simp_all add: strict_demo_assignment_def)
  from strict_exclusive [OF strict_demo_inv strict_demo_acquire this] this show ?thesis
    by (simp add: strict_demo_acquire)
qed

text \<open>
  C12: Releasing is the inverse of acquiring: when none of the requested units held a core, releasing
  them after a granted request gives back the free cores, the holders and the recorded work types of
  the state before.
\<close>

theorem strict_acquire_release:
  assumes inv: "strict_inv mm bm st" and acq: "strict_acquire mm bm req st = Some (Inr a, st')"
    and new: "\<forall>u \<in> set (unit_ids req). strict_held bm st u = None"
  shows "ss_available_cores (strict_release bm (unit_ids req) st') = ss_available_cores st
    \<and> strict_held bm (strict_release bm (unit_ids req) st') = strict_held bm st
    \<and> (\<forall>u. hm_get (ss_work_type_mapping (strict_release bm (unit_ids req) st')) u
          = hm_get (ss_work_type_mapping st) u)"
proof -
  let ?r = "strict_release bm (unit_ids req) st'"
  have inv': "strict_inv mm bm st'" using strict.acquire_total [OF inv, of req] acq by auto
  have fr: "ss_cores_mapping st' = ss_cores_mapping st" "ss_system_cores st' = ss_system_cores st"
    using strict_acquire_granted [OF inv acq] by simp_all
  note rel = strict_release_ok [OF inv', of "unit_ids req"]
  have held: "strict_held bm ?r = strict_held bm st" using strict.acquire_release [OF inv acq new] by simp
  then have "strict_assigned bm ?r = strict_assigned bm st"
    unfolding strict_assigned_held [OF strict_inv_laws(2) [OF inv]] by simp
  moreover note strict_inv_partition [OF inv]
  moreover have "core_partition (ss_available_cores ?r) (ss_system_cores st) (strict_assigned bm ?r)
      (mapped_cores mm (ss_cores_mapping st))" using strict_inv_partition [of mm bm ?r] rel fr by simp
  ultimately have av: "ss_available_cores ?r = ss_available_cores st" unfolding core_partition_def by blast
  have "hm_get (ss_work_type_mapping ?r) u = hm_get (ss_work_type_mapping st) u" for u
  proof (cases "u \<in> set (unit_ids req)")
    case True
    then have "hm_get (ss_work_type_mapping st) u = None" using new inv unfolding strict_inv_def by blast
    with True rel show ?thesis by simp
  next
    case False
    then show ?thesis using rel strict_acquire_granted [OF inv acq] by simp
  qed
  with av held show ?thesis by blast
qed

theorem strict_acquire_release_witness:
  "ss_available_cores strict_demo_after = {}
   \<and> ss_available_cores (strict_release list_bimap [7, 9] strict_demo_after) = ss_available_cores strict_demo"
proof -
  have "strict_held list_bimap strict_demo u = None" for u
    by (simp add: strict_held_def list_bimap_def strict_demo_def strict_make_instance_def)
  then show ?thesis
    using strict_acquire_release [OF strict_demo_inv strict_demo_acquire] by (simp add: strict_demo_after_def)
qed

text \<open>
  C13: Creating a manager, for a topology that gives every physical core a logical core.  It panics
  exactly when the configured range passes the size check but fewer of its cores than requested for
  the system exist on the machine.  When it succeeds the manager is well formed, has exactly the
  requested number of system cores, no unit holds a core, and system and free cores together are the
  machine's cores in the range.
\<close>

theorem strict_new_correct:
  assumes "multimap_laws mm" "bimap_laws bm" "topology_ok topo" "topo_physical_cores topo = Inr cs"
  shows "(\<forall>st. strict_new rs mm bm (Inr topo) n r = Some (Inr st) \<longrightarrow>
        strict_inv mm bm st \<and> card (ss_system_cores st) = n
      \<and> ss_system_cores st \<union> ss_available_cores st = {c \<in> set cs. rs_contains rs r (unat c)}
      \<and> strict_held bm st = Map.empty)
    \<and> (strict_new rs mm bm (Inr topo) n r = None \<longleftrightarrow>
        0 < n \<and> n \<le> rs_len rs r mod 2 ^ 64
      \<and> (\<forall>c \<in> set cs. rs_contains rs r (unat c) \<longrightarrow> (\<exists>ls. topo_logical_cores topo c = Inr ls))
      \<and> card {c \<in> set cs. rs_contains rs r (unat c)} < n)"
proof -
  let ?in = "{c \<in> set cs. rs_contains rs r (unat c)}"
  let ?coll = "collect_cores rs r mm topo cs (mm_new mm, {})"
  have start: "mapped_cores mm (mm_new mm) = {}" "no_empty_vec mm (mm_new mm)"
    using multimap_lawsD(1) [OF assms(1)] by (simp_all add: mapped_cores_def no_empty_vec_def)
  have coll: "finite av \<and> mapped_cores mm m = av \<and> no_empty_vec mm m \<and> av = ?in"
    if "?coll = Inr (m, av)" for m av
    using collect_cores_Inr [OF assms(1,3) that _ start] by simp
  have err: "(\<exists>e. ?coll = Inl e) \<longleftrightarrow> \<not> (\<forall>c \<in> set cs. rs_contains rs r (unat c) \<longrightarrow> (\<exists>ls. topo_logical_cores topo c = Inr ls))"
    by (rule collect_cores_Inl)
  show ?thesis
  proof (cases "0 < n \<and> n \<le> rs_len rs r mod 2 ^ 64")
    case False
    then show ?thesis using assms(4) by (auto simp: strict_new_def Let_def)
  next
    case ok: True
    show ?thesis
    proof (cases ?coll)
      case (Inl e)
      with err have "\<not> (\<forall>c \<in> set cs. rs_contains rs r (unat c) \<longrightarrow> (\<exists>ls. topo_logical_cores topo c = Inr ls))" by blast
      then show ?thesis using ok Inl assms(4) by (simp add: strict_new_def Let_def)
    next
      case (Inr p)
      obtain m av where p: "p = (m, av)" by (cases p)
      then have "av = ?in" using coll [of m av] Inr by simp
      then have coll': "?coll = Inr (m, ?in)" using Inr p by simp
      note c = coll [OF coll']
      have noerr: "\<forall>c \<in> set cs. rs_contains rs r (unat c) \<longrightarrow> (\<exists>ls. topo_logical_cores topo c = Inr ls)"
        using err coll' by auto
      show ?thesis
      proof (cases "take_system_cores n ?in {}")
        case None
        then show ?thesis using ok coll' noerr assms(4) take_system_cores_None [of ?in n "{}"]
          by (simp add: strict_new_def Let_def)
      next
        case (Some q)
        then obtain av sys where q: "take_system_cores n ?in {} = Some (av, sys)" by (cases q) auto
        have t: "finite av \<and> finite sys \<and> av \<inter> sys = {} \<and> av \<union> sys = ?in \<and> card sys = n \<and> card ?in = card av + n"
          using take_system_cores_Some [OF q] by simp
        let ?st = "strict_make_instance m sys av (bm_new bm) []"
        have new: "strict_new rs mm bm (Inr topo) n r = Some (Inr ?st)"
          using ok coll' q assms(4) by (simp add: strict_new_def Let_def)
        have asg: "strict_assigned bm ?st = {}" "strict_held bm ?st = Map.empty"
          using bimap_lawsD(1) [OF assms(2)] bimap_get_None [OF assms(2)]
          by (simp_all add: strict_assigned_def strict_held_def strict_make_instance_def fun_eq_iff)
        have "strict_inv mm bm ?st"
          unfolding strict_inv_def asg core_partition_def using assms(1,2) c t
          by (simp add: strict_make_instance_def Un_commute)
        then show ?thesis using new asg(2) t by (simp add: strict_make_instance_def Un_commute)
      qed
    qed
  qed
qed

theorem strict_new_correct_witness:
  "strict_new list_range_set list_multimap list_bimap (Inr strict_demo_topology) 1 [0, 1, 2, 3] = Some (Inr strict_demo)
   \<and> strict_inv list_multimap list_bimap strict_demo
   \<and> strict_new list_range_set list_multimap list_bimap (Inr strict_demo_topology) 2 [3, 4, 5] = None"
proof -
  have t: "topology_ok strict_demo_topology" "topo_physical_cores strict_demo_topology = Inr [1, 2, 3]"
    by (simp_all add: topology_ok_def strict_demo_topology_def)
  note c = strict_new_correct [OF list_multimap_laws list_bimap_laws t, where rs = list_range_set]
  have "card {c \<in> set [1, 2, 3 :: 32 word]. rs_contains list_range_set [3, 4, 5] (unat c)} < 2"
    by (rule le_less_trans [OF card_mono [of "{3}"]]) (auto simp: list_range_set_def)
  then have "strict_new list_range_set list_multimap list_bimap (Inr strict_demo_topology) 2 [3, 4, 5] = None"
    using c [of 2 "[3, 4, 5]"] by (simp add: list_range_set_def strict_demo_topology_def)
  then show ?thesis using c [of 1 "[0, 1, 2, 3]"] strict_demo_new by blast
qed

text \<open>Loading what was written.\<close>

lemma mm_fold_insert_pairs:
  assumes "multimap_laws mm" "distinct (map fst ps)" "\<And>k. k \<in> fst ` set ps \<Longrightarrow> mm_get_vec mm m k = None"
  shows "mm_get_vec mm (fold (\<lambda>(k, v). mm_insert mm k v) ps m) k =
     (case map_of ps k of Some v \<Rightarrow> Some [v] | None \<Rightarrow> mm_get_vec mm m k)"
  using assms(2,3)
proof (induction ps arbitrary: m)
  case (Cons p ps)
  obtain a b where p: "p = (a, b)" by (cases p)
  have "k' \<in> fst ` set ps \<Longrightarrow> mm_get_vec mm (mm_insert mm a b m) k' = None" for k'
    using Cons.prems p multimap_lawsD(2) [OF assms(1), of a b m k'] by auto
  then have ih: "mm_get_vec mm (fold (\<lambda>(k, v). mm_insert mm k v) ps (mm_insert mm a b m)) k =
      (case map_of ps k of Some v \<Rightarrow> Some [v] | None \<Rightarrow> mm_get_vec mm (mm_insert mm a b m) k)"
    using Cons.IH [of "mm_insert mm a b m"] Cons.prems by simp
  show ?case
  proof (cases "k = a")
    case True
    then have "map_of ps k = None" "mm_get_vec mm m a = None" using Cons.prems p by (auto simp: map_of_eq_None_iff)
    then show ?thesis using True ih multimap_lawsD(2) [OF assms(1), of a b m k] p by simp
  next
    case False
    then show ?thesis using ih multimap_lawsD(2) [OF assms(1), of a b m k] p by (simp split: option.split)
  qed
qed simp

lemma bm_fold_insert_pairs:
  assumes "bimap_laws bm" "distinct (map fst ps)" "distinct (map snd ps)"
    and "fst ` set ps \<inter> fst ` bm_pairs bm b = {}" "snd ` set ps \<inter> snd ` bm_pairs bm b = {}"
  shows "bm_pairs bm (fold (\<lambda>(l, r). bm_insert bm l r) ps b) = set ps \<union> bm_pairs bm b"
  using assms(2-)
proof (induction ps arbitrary: b)
  case (Cons p ps)
  obtain l r where p: "p = (l, r)" by (cases p)
  have eq: "bm_pairs bm (bm_insert bm l r b) = insert (l, r) (bm_pairs bm b)"
    using bimap_lawsD(2) [OF assms(1), of l r b] Cons.prems p by force
  have "bm_pairs bm (fold (\<lambda>(l, r). bm_insert bm l r) ps (bm_insert bm l r b)) = set ps \<union> bm_pairs bm (bm_insert bm l r b)"
    by (rule Cons.IH) (use Cons.prems p eq in auto)
  then show ?case by (simp add: p eq)
qed simp

lemma hm_fold_insert_pairs:
  "hm_get (fold (\<lambda>(k, v). hm_insert k v) ps m) k =
     (case map_of (rev ps) k of Some v \<Rightarrow> Some v | None \<Rightarrow> hm_get m k)"
  "hm_ok m \<Longrightarrow> hm_ok (fold (\<lambda>(k, v). hm_insert k v) ps m)"
  by (induction ps arbitrary: m) (auto simp: map_add_def split: option.split)

text \<open>
  C37: Writing the state and loading it again keeps who holds which core, the free and the system
  cores and the work types, and the loaded manager is well formed; but of the logical cores of a
  physical core only the first survives, because the state is written from the multimap's iterator.
\<close>

theorem strict_persist_roundtrip:
  assumes inv: "strict_inv mm bm st"
  shows "let st' = strict_from_persistent mm bm (strict_to_persistent mm bm st) in
      strict_held bm st' = strict_held bm st
    \<and> ss_available_cores st' = ss_available_cores st \<and> ss_system_cores st' = ss_system_cores st
    \<and> hm_get (ss_work_type_mapping st') = hm_get (ss_work_type_mapping st)
    \<and> (\<forall>c. mm_get_vec mm (ss_cores_mapping st') c = map_option (\<lambda>ls. [hd ls]) (mm_get_vec mm (ss_cores_mapping st) c))
    \<and> strict_inv mm bm st'"
proof -
  define st' where st'_def: "st' = strict_from_persistent mm bm (strict_to_persistent mm bm st)"
  note ml = strict_inv_laws(1) [OF inv] and bl = strict_inv_laws(2) [OF inv]
  let ?um = "ss_unit_id_mapping st" and ?cm = "ss_cores_mapping st"
  have pairs: "bm_pairs bm (ss_unit_id_mapping st') = bm_pairs bm ?um"
    using bm_fold_insert_pairs [OF bl bimap_lawsD(6,7) [OF bl, of ?um], of "bm_new bm"] bimap_lawsD(1) [OF bl]
    by (simp add: st'_def strict_from_persistent_def strict_to_persistent_def strict_make_instance_def bm_pairs_def)
  then have held: "strict_held bm st' = strict_held bm st"
    by (intro ext option_ext) (simp add: strict_held_iff [OF bl])
  have sets: "ss_available_cores st' = ss_available_cores st" "ss_system_cores st' = ss_system_cores st"
    using inv by (simp_all add: strict_inv_def st'_def strict_from_persistent_def strict_to_persistent_def strict_make_instance_def)
  have ok: "hm_ok (ss_work_type_mapping st)" using inv by (simp add: strict_inv_def)
  then have "map_of (rev (ss_work_type_mapping st)) = map_of (ss_work_type_mapping st)"
    unfolding hm_ok_def by (intro ext option_ext) (simp add: rev_map [symmetric])
  then have "hm_get (ss_work_type_mapping st') u = hm_get (ss_work_type_mapping st) u" for u
    using hm_fold_insert_pairs(1) [of "ss_work_type_mapping st" "[]" u]
    by (simp add: st'_def strict_from_persistent_def strict_to_persistent_def strict_make_instance_def
        hm_get_def [of "ss_work_type_mapping st"] split: option.splits)
  then have wt: "hm_get (ss_work_type_mapping st') = hm_get (ss_work_type_mapping st)" by (rule ext)
  have ok': "hm_ok (ss_work_type_mapping st')"
    by (simp add: st'_def strict_from_persistent_def strict_make_instance_def hm_fold_insert_pairs(2))
  have it: "map_of (mm_iter mm ?cm) c = map_option hd (mm_get_vec mm ?cm c)" for c
    by (rule mm_iter_map_of [OF ml]) (use inv in \<open>simp add: strict_inv_def\<close>)
  have vec: "mm_get_vec mm (ss_cores_mapping st') c = map_option (\<lambda>ls. [hd ls]) (mm_get_vec mm ?cm c)" for c
    using mm_fold_insert_pairs [OF ml multimap_lawsD(5) [OF ml, of ?cm], of "mm_new mm" c] multimap_lawsD(1) [OF ml]
    by (simp add: st'_def strict_from_persistent_def strict_to_persistent_def strict_make_instance_def it split: option.splits)
  have "mapped_cores mm (ss_cores_mapping st') = mapped_cores mm ?cm" "no_empty_vec mm (ss_cores_mapping st')"
    by (simp_all add: mapped_cores_def no_empty_vec_def vec)
  moreover have "strict_assigned bm st' = strict_assigned bm st" using pairs by (simp add: strict_assigned_def)
  ultimately have "strict_inv mm bm st'"
    using inv sets held ok' unfolding strict_inv_def by (simp add: wt)
  then show ?thesis using held sets wt vec unfolding Let_def st'_def by blast
qed

theorem strict_persist_roundtrip_witness:
  "let st' = strict_from_persistent list_multimap list_bimap (strict_to_persistent list_multimap list_bimap strict_demo)
   in ss_available_cores st' = {2, 3} \<and> strict_inv list_multimap list_bimap st'
    \<and> mm_get_vec list_multimap (ss_cores_mapping strict_demo) 2 = Some [4, 5]
    \<and> mm_get_vec list_multimap (ss_cores_mapping st') 2 = Some [4]"
proof -
  have "mm_get_vec list_multimap (ss_cores_mapping strict_demo) 2 = Some [4, 5]" "ss_available_cores strict_demo = {2, 3}"
    by (simp_all add: list_multimap_def strict_demo_def strict_make_instance_def)
  with strict_persist_roundtrip [OF strict_demo_inv] show ?thesis by (simp add: Let_def)
qed

text \<open>Reading the system's assignment cannot panic either.\<close>

lemma strict_system_assignment_total:
  assumes "strict_inv mm bm st"
  shows "strict_get_system_cpu_assignment mm st \<noteq> None"
  using core_partitionD(3) [OF strict_inv_partition [OF assms]]
  by (simp add: strict_get_system_cpu_assignment_def mapped_cores_def)

text \<open>
  The size check counts units that hold a core already: with no free core left, asking again for a
  unit that has its core is refused.
\<close>

lemma strict_refuses_held:
  "strict_held list_bimap strict_demo_after 7 = Some 3
   \<and> strict_acquire list_multimap list_bimap \<lparr>unit_ids = [7], worker_type = Deal\<rparr> strict_demo_after
     = Some (Inl (NotFoundAvailableCores 1 0 [(2, 9), (3, 7)]), strict_demo_after)"
  by (simp add: strict_held_def strict_acquire_def strict_demo_after_def list_bimap_def)

text \<open>The error of a refusal cannot be printed while no unit holds a core.\<close>

lemma strict_refusal_unprintable:
  "strict_acquire list_multimap list_bimap \<lparr>unit_ids = [1, 2, 3], worker_type = Deal\<rparr> strict_demo
     = Some (Inl (NotFoundAvailableCores 3 2 []), strict_demo)
   \<and> current_assignment_fmt fmt_core fmt_cuid [] = None"
  by (simp add: strict_acquire_def strict_demo_def strict_make_instance_def list_bimap_def current_assignment_fmt_def)

end
