(* ===== verification/Core_Persistence.thy ===== *)
theory Core_Persistence
  imports Core_Strict
begin

text \<open>
  The persistence task of the core manager (\<^verbatim>\<open>PersistenceTask::process_events\<close> in
  \<^verbatim>\<open>crates/core-manager/src/persistence.rs\<close>) running beside the strict manager.  The task takes a
  notification from the channel and later, in another thread, writes the state it then finds; the
  manager's operations interleave with it.
\<close>

record ('m, 'b) persist_system =
  pt_state :: "('m, 'b) strict_state"
  pt_running :: bool
  pt_file :: "string option"

datatype ('io, 'utf, 'de, 'ser) persist_event =
    PtAcquire acquire_request
  | PtRelease "cuid list"
  | PtTake
  | PtPersist "('io, 'utf, 'de, 'ser) core_file_io"

fun persist_task_step ::
    "'m core_multimap \<Rightarrow> 'b unit_bimap \<Rightarrow> ('io, 'utf, 'de, 'ser) persist_event \<Rightarrow> ('m, 'b) persist_system
      \<Rightarrow> ('m, 'b) persist_system option" where
  "persist_task_step mm bm (PtAcquire req) s =
     map_option (\<lambda>(_, st). s\<lparr>pt_state := st\<rparr>) (strict_acquire mm bm req (pt_state s))"
| "persist_task_step mm bm (PtRelease us) s = Some (s\<lparr>pt_state := strict_release bm us (pt_state s)\<rparr>)"
| "persist_task_step mm bm PtTake s =
     (if ss_notified (pt_state s) \<and> \<not> pt_running s
      then Some (s\<lparr>pt_state := (pt_state s)\<lparr>ss_notified := False\<rparr>, pt_running := True\<rparr>) else None)"
| "persist_task_step mm bm (PtPersist io) s =
     (if pt_running s
      then Some (s\<lparr>pt_running := False, pt_file := snd (strict_persist mm bm io (pt_state s) (pt_file s))\<rparr>)
      else None)"

definition pt_step ::
    "'m core_multimap \<Rightarrow> 'b unit_bimap \<Rightarrow> ('m, 'b) persist_system \<Rightarrow> ('io, 'utf, 'de, 'ser) persist_event
      \<Rightarrow> ('m, 'b) persist_system \<Rightarrow> bool" where
  "pt_step mm bm s e t \<longleftrightarrow> persist_task_step mm bm e s = Some t"

text \<open>Writing works: the serialiser succeeds, the file can be created and the whole text is written.\<close>

definition good_io ::
    "(persistent_state \<Rightarrow> string) \<Rightarrow> ('io, 'utf, 'de, 'ser) core_file_io \<Rightarrow> bool" where
  "good_io ser io \<longleftrightarrow> (\<forall>ps. cf_toml_ser io ps = Inr (ser ps)) \<and> cf_create_err io = None
     \<and> (\<exists>n. cf_write io = Inr n \<and> (\<forall>ps. length (ser ps) \<le> n))"

lemma good_io_persist: "good_io ser io \<Longrightarrow> snd (persist_state io ps file) = Some (ser ps)"
  by (auto simp: good_io_def persist_state_def)

fun persist_event_ok :: "(persistent_state \<Rightarrow> string) \<Rightarrow> ('io, 'utf, 'de, 'ser) persist_event \<Rightarrow> bool" where
  "persist_event_ok ser (PtRelease us) = False"
| "persist_event_ok ser (PtPersist io) = good_io ser io"
| "persist_event_ok ser _ = True"

definition synced ::
    "'m core_multimap \<Rightarrow> 'b unit_bimap \<Rightarrow> (persistent_state \<Rightarrow> string) \<Rightarrow> ('m, 'b) persist_system \<Rightarrow> bool" where
  "synced mm bm ser s \<longleftrightarrow> pt_file s = Some (ser (strict_to_persistent mm bm (pt_state s)))"

lemma to_persistent_notified [simp]:
  "strict_to_persistent mm bm (st\<lparr>ss_notified := b\<rparr>) = strict_to_persistent mm bm st"
  by (simp add: strict_to_persistent_def)

lemma acquire_notifies_or_keeps:
  "strict_acquire mm bm req st = Some (r, st') \<Longrightarrow> st' = st \<or> ss_notified st'"
  by (auto simp: strict_acquire_def Let_def split: if_splits option.splits)

lemma pt_step_lag:
  assumes "synced mm bm ser s \<or> ss_notified (pt_state s) \<or> pt_running s"
    and "pt_step mm bm s e t" and "persist_event_ok ser e"
  shows "synced mm bm ser t \<or> ss_notified (pt_state t) \<or> pt_running t"
proof (cases e)
  case (PtAcquire req)
  then show ?thesis using assms(1,2) acquire_notifies_or_keeps by (fastforce simp: pt_step_def synced_def)
next
  case (PtPersist io)
  then show ?thesis using assms by (auto simp: good_io_persist pt_step_def synced_def strict_persist_def split: if_splits)
qed (use assms in \<open>auto simp: pt_step_def synced_def split: if_splits\<close>)


text \<open>A run that acquires two units and persists them.\<close>

definition demo_io :: "(unit, unit, unit, unit) core_file_io" where
  "demo_io = \<lparr>cf_read_err = None, cf_utf8_err = (\<lambda>_. None), cf_toml_de = (\<lambda>_. Inl ()),
     cf_toml_ser = (\<lambda>ps. Inr (if ps_unit_id_mapping ps = [] then ''free'' else ''held'')), cf_create_err = None,
     cf_write = Inr 4\<rparr>"


text \<open>A release from a state on disk leaves the file behind, with nothing left to trigger a write.\<close>

lemma release_not_persisted:
  "\<exists>t. pt_step list_multimap list_bimap
       \<lparr>pt_state = strict_demo_after\<lparr>ss_notified := False\<rparr>, pt_running = False, pt_file = Some ''held''\<rparr>
       (PtRelease [7, 9] :: (unit, unit, unit, unit) persist_event) t
     \<and> ps_unit_id_mapping (strict_to_persistent list_multimap list_bimap (pt_state t)) = []
     \<and> pt_file t = Some ''held'' \<and> \<not> ss_notified (pt_state t) \<and> \<not> pt_running t"
  by (simp add: pt_step_def strict_release_def strict_release_unit_def strict_demo_after_def list_bimap_def
      strict_to_persistent_def)

end
