(* ===== verification/Fs_Utils.thy ===== *)
theory Fs_Utils
  imports Nox_Prelude
begin

text \<open>
  Files as the node uses them, and the loader of persisted data of \<^verbatim>\<open>crates/fs-utils/src/lib.rs\<close>.  A
  directory is the map from the names of its files to their contents; what the operating system
  answers is an argument of each operation.
\<close>

section \<open>File operations\<close>

type_synonym dir = "string \<rightharpoonup> string"

text \<open>An I/O error is of kind \<^verbatim>\<open>NotFound\<close> or of another kind.\<close>

datatype 'e io_error = NotFound | OtherIo 'e

text \<open>A failed write may leave the old file, no file or any content behind.\<close>

datatype 'e write_result = WriteOk | WriteFailed "'e io_error" "string option"

fun fs_write :: "'e write_result \<Rightarrow> string \<Rightarrow> string \<Rightarrow> dir \<Rightarrow> ('e io_error + unit) \<times> dir" where
  "fs_write WriteOk name bytes d = (Inr (), d(name \<mapsto> bytes))"
| "fs_write (WriteFailed e left) name bytes d = (Inl e, d(name := left))"

text \<open>Removing a file fails when there is none, or for a reason of the system's (the argument).\<close>

definition fs_remove :: "'e option \<Rightarrow> string \<Rightarrow> dir \<Rightarrow> ('e io_error + unit) \<times> dir" where
  "fs_remove fail name d =
     (if d name = None then (Inl NotFound, d)
      else case fail of Some e \<Rightarrow> (Inl (OtherIo e), d) | None \<Rightarrow> (Inr (), d(name := None)))"

text \<open>\<^verbatim>\<open>fs_utils::remove_file\<close> takes a missing file for success.\<close>

definition remove_file :: "'e option \<Rightarrow> string \<Rightarrow> dir \<Rightarrow> ('e io_error + unit) \<times> dir" where
  "remove_file fail name d =
     (case fs_remove fail name d of
        (Inl NotFound, d') \<Rightarrow> (Inr (), d')
      | r \<Rightarrow> r)"

section \<open>Loading persisted data\<close>

datatype 'e load_data_error =
    CreateDir "'e io_error"
  | ReadPersistedData string "'e io_error"
  | DeserializeData string 'e

definition parse_persisted_data ::
    "(string \<Rightarrow> 'e option) \<Rightarrow> (string \<Rightarrow> 'e + 'a) \<Rightarrow> dir \<Rightarrow> string \<Rightarrow> 'e load_data_error + 'a" where
  "parse_persisted_data read_err de d file =
     (case d file of
        None \<Rightarrow> Inl (ReadPersistedData file NotFound)
      | Some bytes \<Rightarrow> (case read_err file of
          Some e \<Rightarrow> Inl (ReadPersistedData file (OtherIo e))
        | None \<Rightarrow> (case de bytes of Inl e \<Rightarrow> Inl (DeserializeData file e) | Inr x \<Rightarrow> Inr x)))"

definition process_dir_entry ::
    "(string \<Rightarrow> bool) \<Rightarrow> (string \<Rightarrow> 'e option) \<Rightarrow> (string \<Rightarrow> 'e + 'a) \<Rightarrow> dir \<Rightarrow> string \<Rightarrow> ('a \<times> string) option" where
  "process_dir_entry filt read_err de d path =
     (if filt path
      then case parse_persisted_data read_err de d path of Inl _ \<Rightarrow> None | Inr x \<Rightarrow> Some (x, path)
      else None)"

text \<open>
  The directory's entries are read by several tasks at once; \<open>listing\<close> names them in the order in
  which the tasks complete, an entry that cannot be read being an error.  \<open>None\<close> is a directory that
  cannot be listed: it is created, and is empty.
\<close>

definition load_persisted_data ::
    "'e io_error option \<Rightarrow> ('e + string) list option \<Rightarrow> (string \<Rightarrow> 'e option) \<Rightarrow> (string \<Rightarrow> bool)
      \<Rightarrow> (string \<Rightarrow> 'e + 'a) \<Rightarrow> dir \<Rightarrow> 'e load_data_error + ('a \<times> string) list" where
  "load_persisted_data create_err listing read_err filt de d =
     (case listing of
        None \<Rightarrow> (case create_err of Some e \<Rightarrow> Inl (CreateDir e) | None \<Rightarrow> Inr [])
      | Some entries \<Rightarrow>
          Inr (List.map_filter
            (\<lambda>entry. case entry of Inl _ \<Rightarrow> None | Inr path \<Rightarrow> process_dir_entry filt read_err de d path) entries))"

text \<open>A complete listing: every entry is readable and every file of the directory is named once.\<close>

definition full_listing :: "dir \<Rightarrow> string list \<Rightarrow> bool" where
  "full_listing d names \<longleftrightarrow> distinct names \<and> set names = dom d"

lemma set_map_filter: "set (List.map_filter f xs) = {y. \<exists>x \<in> set xs. f x = Some y}"
  by (force simp: List.map_filter_def)

lemma load_persisted_data_full:
  fixes de :: "string \<Rightarrow> 'e + 'a"
  assumes "full_listing d names"
  shows "\<exists>xs. load_persisted_data ce (Some (map Inr names)) (\<lambda>_. None) filt de d = Inr xs
    \<and> set xs = {(x, n). filt n \<and> (\<exists>bytes. d n = Some bytes \<and> de bytes = Inr x)}
    \<and> distinct (map snd xs)"
proof -
  let ?f = "\<lambda>entry :: 'e + string. case entry of Inl _ \<Rightarrow> None | Inr path \<Rightarrow> process_dir_entry filt (\<lambda>_. None) de d path"
  have f: "?f (Inr n) = Some p \<longleftrightarrow> snd p = n \<and> filt n \<and> (\<exists>bytes. d n = Some bytes \<and> de bytes = Inr (fst p))" for n p
    by (cases p) (auto simp: process_dir_entry_def parse_persisted_data_def split: option.splits sum.splits)
  have "set (List.map_filter ?f (map Inr names)) = {(x, n). filt n \<and> (\<exists>bytes. d n = Some bytes \<and> de bytes = Inr x)}"
    using assms f by (force simp: set_map_filter full_listing_def)
  moreover have "distinct ns \<Longrightarrow> distinct (map snd (List.map_filter ?f (map Inr ns)))" for ns
  proof (induction ns)
    case (Cons n ns)
    have "snd ` set (List.map_filter ?f (map Inr ns)) \<subseteq> set ns"
      using f by (auto simp: set_map_filter)
    moreover have "snd p = n" if "process_dir_entry filt (\<lambda>_. None) de d n = Some p" for p using f [of n p] that by simp
    ultimately show ?case using Cons
      by (cases "process_dir_entry filt (\<lambda>_. None) de d n") (auto simp: map_filter_simps)
  qed (simp add: map_filter_simps)
  ultimately show ?thesis using assms by (simp add: load_persisted_data_def full_listing_def)
qed

lemma fs_write_other [simp]: "n \<noteq> name \<Longrightarrow> snd (fs_write r name bytes d) n = d n"
  by (cases r) simp_all

lemma fs_remove_other [simp]: "n \<noteq> name \<Longrightarrow> snd (fs_remove fail name d) n = d n"
  by (simp add: fs_remove_def split: option.split)

lemma fs_remove_ok: "fst (fs_remove fail name d) = Inr () \<longleftrightarrow> d name \<noteq> None \<and> fail = None"
  by (simp add: fs_remove_def split: option.split)

lemma fs_remove_ok_effect: "fs_remove fail name d = (Inr u, d') \<Longrightarrow> d name \<noteq> None \<and> d' = d(name := None)"
  by (auto simp: fs_remove_def split: option.splits if_splits)

lemma fs_remove_err_effect: "fs_remove fail name d = (Inl e, d') \<Longrightarrow> d' = d"
  by (auto simp: fs_remove_def split: option.splits if_splits)

end
