(* ===== verification/Key_Storage.thy ===== *)
theory Key_Storage
  imports Fs_Utils Deal_Id "HOL-Library.Sublist"
begin

text \<open>
  Key pairs of workers (\<^verbatim>\<open>crates/workers/src/key_storage.rs\<close>), their files
  (\<^verbatim>\<open>crates/workers/src/persistence.rs\<close>), the errors (\<^verbatim>\<open>error.rs\<close>) and the scopes of peer ids
  (\<^verbatim>\<open>scope.rs\<close>).  The key pairs themselves are those of the crate \<^verbatim>\<open>fluence_keypair\<close> and the file format
  that of \<^verbatim>\<open>toml_edit\<close>; both are parameters.  Errors of those crates are the values of one type \<open>'e\<close>.
\<close>

section \<open>Parameters\<close>

record persisted_keypair =
  private_key_bytes :: "8 word list"
  key_format :: string

record ('kp, 'fmt, 'e) key_api =
  kp_peer_id :: "'kp \<Rightarrow> peer_id"
  kp_secret :: "'kp \<Rightarrow> 8 word list option"
  kp_format :: "'kp \<Rightarrow> string"
  kp_format_from_str :: "string \<Rightarrow> 'e + 'fmt"
  kp_from_secret :: "8 word list \<Rightarrow> 'fmt \<Rightarrow> 'e + 'kp"
  kp_ser :: "persisted_keypair \<Rightarrow> 'e + string"
  kp_de :: "string \<Rightarrow> 'e + persisted_keypair"

text \<open>
  A key pair can be rebuilt from its secret and the name of its format, and the written form of a
  persisted key pair is read back as it was.
\<close>

definition key_laws :: "('kp, 'fmt, 'e) key_api \<Rightarrow> bool" where
  "key_laws api \<longleftrightarrow>
     (\<forall>kp bytes. kp_secret api kp = Some bytes \<longrightarrow>
        (\<exists>fmt. kp_format_from_str api (kp_format api kp) = Inr fmt \<and> kp_from_secret api bytes fmt = Inr kp))
   \<and> (\<forall>pk bytes. kp_ser api pk = Inr bytes \<longrightarrow> kp_de api bytes = Inr pk)"

lemma key_lawsD:
  assumes "key_laws api"
  shows "kp_secret api kp = Some bytes \<Longrightarrow>
      \<exists>fmt. kp_format_from_str api (kp_format api kp) = Inr fmt \<and> kp_from_secret api bytes fmt = Inr kp"
    and "kp_ser api pk = Inr text \<Longrightarrow> kp_de api text = Inr pk"
  using assms by (simp_all add: key_laws_def)

section \<open>Errors\<close>

datatype 'e key_storage_error =
    CannotExtractRSASecretKey
  | ReadPersistedKeypair string "'e io_error"
  | DirectoryListError string "'e io_error"
  | DeserializePersistedKeypair string 'e
  | PersistedKeypairDecodingError string 'e
  | PersistedKeypairInvalidKeyFormat string 'e
  | SerializePersistedKeypair 'e
  | WriteErrorPersistedKeypair string "'e io_error"
  | RemoveErrorPersistedKeypair string worker_id "'e io_error"
  | CreateKeypairsDir string "'e io_error"
  | KeyStorageKeypairNotFound peer_id

text \<open>What loading the key storage can fail with (an \<^verbatim>\<open>eyre::Report\<close> in the code).\<close>

datatype 'e key_load_error =
    KeyLoadData "'e load_data_error"
  | KeyLoadFormat "'e key_storage_error"
  | KeyLoadDecode 'e

section \<open>Files\<close>

definition keypair_file_name :: "worker_id \<Rightarrow> string" where
  "keypair_file_name w = worker_id_fmt w @ ''_keypair.toml''"

definition worker_file_name :: "worker_id \<Rightarrow> string" where
  "worker_file_name w = worker_id_fmt w @ ''_info.toml''"

definition is_keypair :: "string \<Rightarrow> bool" where
  "is_keypair path = suffix ''_keypair.toml'' path"

definition is_worker :: "string \<Rightarrow> bool" where
  "is_worker path = suffix ''_info.toml'' path"

definition persisted_keypair_try_from :: "('kp, 'fmt, 'e) key_api \<Rightarrow> 'kp \<Rightarrow> 'e key_storage_error + persisted_keypair" where
  "persisted_keypair_try_from api kp =
     (case kp_secret api kp of
        None \<Rightarrow> Inl CannotExtractRSASecretKey
      | Some bytes \<Rightarrow> Inr \<lparr>private_key_bytes = bytes, key_format = kp_format api kp\<rparr>)"

definition persist_keypair ::
    "('kp, 'fmt, 'e) key_api \<Rightarrow> 'e write_result \<Rightarrow> worker_id \<Rightarrow> persisted_keypair \<Rightarrow> dir
      \<Rightarrow> ('e key_storage_error + unit) \<times> dir" where
  "persist_keypair api wr w pk d =
     (case kp_ser api pk of
        Inl e \<Rightarrow> (Inl (SerializePersistedKeypair e), d)
      | Inr bytes \<Rightarrow> (case fs_write wr (keypair_file_name w) bytes d of
          (Inl e, d') \<Rightarrow> (Inl (WriteErrorPersistedKeypair (keypair_file_name w) e), d')
        | (Inr _, d') \<Rightarrow> (Inr (), d')))"

definition remove_keypair ::
    "'e option \<Rightarrow> worker_id \<Rightarrow> dir \<Rightarrow> ('e key_storage_error + unit) \<times> dir" where
  "remove_keypair fail w d =
     (case fs_remove fail (keypair_file_name w) d of
        (Inl e, d') \<Rightarrow> (Inl (RemoveErrorPersistedKeypair (keypair_file_name w) w e), d')
      | (Inr _, d') \<Rightarrow> (Inr (), d'))"

definition load_persisted_key_pairs ::
    "('kp, 'fmt, 'e) key_api \<Rightarrow> 'e io_error option \<Rightarrow> ('e + string) list option \<Rightarrow> (string \<Rightarrow> 'e option) \<Rightarrow> dir
      \<Rightarrow> 'e load_data_error + (persisted_keypair \<times> string) list" where
  "load_persisted_key_pairs api create_err listing read_err d =
     load_persisted_data create_err listing read_err is_keypair (kp_de api) d"

section \<open>The key storage\<close>

record 'kp key_storage =
  worker_key_pairs :: "worker_id \<rightharpoonup> 'kp"
  key_pairs_dir :: dir
  root_key_pair :: 'kp

fun load_key_pairs ::
    "('kp, 'fmt, 'e) key_api \<Rightarrow> (persisted_keypair \<times> string) list \<Rightarrow> (worker_id \<rightharpoonup> 'kp)
      \<Rightarrow> 'e key_load_error + (worker_id \<rightharpoonup> 'kp)" where
  "load_key_pairs api [] acc = Inr acc"
| "load_key_pairs api ((pk, path) # pks) acc =
     (case kp_format_from_str api (key_format pk) of
        Inl e \<Rightarrow> Inl (KeyLoadFormat (PersistedKeypairInvalidKeyFormat path e))
      | Inr fmt \<Rightarrow> (case kp_from_secret api (private_key_bytes pk) fmt of
          Inl e \<Rightarrow> Inl (KeyLoadDecode e)
        | Inr kp \<Rightarrow> load_key_pairs api pks (acc(WorkerId (kp_peer_id api kp) \<mapsto> kp))))"

definition key_storage_from_path ::
    "('kp, 'fmt, 'e) key_api \<Rightarrow> 'e io_error option \<Rightarrow> ('e + string) list option \<Rightarrow> (string \<Rightarrow> 'e option)
      \<Rightarrow> dir \<Rightarrow> 'kp \<Rightarrow> 'e key_load_error + 'kp key_storage" where
  "key_storage_from_path api create_err listing read_err d root =
     (case load_persisted_key_pairs api create_err listing read_err d of
        Inl e \<Rightarrow> Inl (KeyLoadData e)
      | Inr key_pairs \<Rightarrow> (case load_key_pairs api key_pairs Map.empty of
          Inl e \<Rightarrow> Inl e
        | Inr m \<Rightarrow> Inr \<lparr>worker_key_pairs = m, key_pairs_dir = d, root_key_pair = root\<rparr>))"

definition get_worker_key_pair :: "'kp key_storage \<Rightarrow> worker_id \<Rightarrow> 'kp option" where
  "get_worker_key_pair ks w = worker_key_pairs ks w"

fun get_keypair :: "'kp key_storage \<Rightarrow> peer_scope \<Rightarrow> 'kp option" where
  "get_keypair ks (ScopeWorkerId w) = get_worker_key_pair ks w"
| "get_keypair ks ScopeHost = Some (root_key_pair ks)"

text \<open>The freshly generated key pair is an argument.\<close>

definition create_key_pair ::
    "('kp, 'fmt, 'e) key_api \<Rightarrow> 'e write_result \<Rightarrow> 'kp \<Rightarrow> 'kp key_storage
      \<Rightarrow> ('e key_storage_error + 'kp) \<times> 'kp key_storage" where
  "create_key_pair api wr kp ks =
     (let w = WorkerId (kp_peer_id api kp) in
      case persisted_keypair_try_from api kp of
        Inl e \<Rightarrow> (Inl e, ks)
      | Inr pk \<Rightarrow> (case persist_keypair api wr w pk (key_pairs_dir ks) of
          (Inl e, d') \<Rightarrow> (Inl e, ks\<lparr>key_pairs_dir := d'\<rparr>)
        | (Inr _, d') \<Rightarrow>
            (Inr kp, ks\<lparr>key_pairs_dir := d', worker_key_pairs := (worker_key_pairs ks)(w \<mapsto> kp)\<rparr>)))"

definition remove_key_pair ::
    "'e option \<Rightarrow> worker_id \<Rightarrow> 'kp key_storage \<Rightarrow> ('e key_storage_error + unit) \<times> 'kp key_storage" where
  "remove_key_pair fail w ks =
     (case remove_keypair fail w (key_pairs_dir ks) of
        (Inl e, d') \<Rightarrow> (Inl e, ks\<lparr>key_pairs_dir := d'\<rparr>)
      | (Inr _, d') \<Rightarrow>
          (Inr (), ks\<lparr>key_pairs_dir := d', worker_key_pairs := (worker_key_pairs ks)(w := None)\<rparr>))"

section \<open>Peer scopes\<close>

record 'kp peer_scopes =
  host_peer_id :: peer_id
  management_peer_id :: peer_id
  builtins_management_peer_id :: peer_id
  ps_key_storage :: "'kp key_storage"

datatype scope_not_found = ScopeNotFound peer_id

definition peer_scopes_new :: "peer_id \<Rightarrow> peer_id \<Rightarrow> peer_id \<Rightarrow> 'kp key_storage \<Rightarrow> 'kp peer_scopes" where
  "peer_scopes_new host management builtins ks =
     \<lparr>host_peer_id = host, management_peer_id = management, builtins_management_peer_id = builtins, ps_key_storage = ks\<rparr>"

definition scope :: "'kp peer_scopes \<Rightarrow> peer_id \<Rightarrow> scope_not_found + peer_scope" where
  "scope ps p =
     (if host_peer_id ps = p then Inr ScopeHost
      else if get_worker_key_pair (ps_key_storage ps) (WorkerId p) \<noteq> None then Inr (ScopeWorkerId (WorkerId p))
      else Inl (ScopeNotFound p))"

definition is_host :: "'kp peer_scopes \<Rightarrow> peer_id \<Rightarrow> bool" where
  "is_host ps p = (host_peer_id ps = p)"

definition is_management :: "'kp peer_scopes \<Rightarrow> peer_id \<Rightarrow> bool" where
  "is_management ps p = (management_peer_id ps = p \<or> builtins_management_peer_id ps = p)"

definition get_host_peer_id :: "'kp peer_scopes \<Rightarrow> peer_id" where
  "get_host_peer_id ps = host_peer_id ps"

fun to_peer_id :: "'kp peer_scopes \<Rightarrow> peer_scope \<Rightarrow> peer_id" where
  "to_peer_id ps (ScopeWorkerId w) = worker_peer_id w"
| "to_peer_id ps ScopeHost = get_host_peer_id ps"

section \<open>File names\<close>

lemma keypair_file_name_inject [simp]: "keypair_file_name v = keypair_file_name w \<longleftrightarrow> v = w"
  by (simp add: keypair_file_name_def)

lemma worker_file_name_inject [simp]: "worker_file_name v = worker_file_name w \<longleftrightarrow> v = w"
  by (simp add: worker_file_name_def)

lemma is_keypair_file_name [simp]: "is_keypair (keypair_file_name w)"
  by (simp add: is_keypair_def keypair_file_name_def suffix_def)

lemma is_worker_file_name [simp]: "is_worker (worker_file_name w)"
  by (simp add: is_worker_def worker_file_name_def suffix_def)

section \<open>Restart\<close>

text \<open>
  A consistent storage: every key pair is stored under the worker id of its own peer id, its file
  holds it, and no other key pair file of the directory decodes.
\<close>

definition ks_consistent :: "('kp, 'fmt, 'e) key_api \<Rightarrow> 'kp key_storage \<Rightarrow> bool" where
  "ks_consistent api ks \<longleftrightarrow>
     (\<forall>w kp. worker_key_pairs ks w = Some kp \<longrightarrow> w = WorkerId (kp_peer_id api kp)
        \<and> (\<exists>pk bytes. persisted_keypair_try_from api kp = Inr pk \<and> kp_ser api pk = Inr bytes
              \<and> key_pairs_dir ks (keypair_file_name w) = Some bytes))
   \<and> (\<forall>n bytes pk. is_keypair n \<longrightarrow> key_pairs_dir ks n = Some bytes \<longrightarrow> kp_de api bytes = Inr pk \<longrightarrow>
        (\<exists>w. n = keypair_file_name w \<and> worker_key_pairs ks w \<noteq> None))"

lemma create_key_pair_Inr:
  "create_key_pair api wr kp ks = (Inr kp', ks') \<longleftrightarrow> kp' = kp \<and> wr = WriteOk
     \<and> (\<exists>pk bytes. persisted_keypair_try_from api kp = Inr pk \<and> kp_ser api pk = Inr bytes
        \<and> ks' = ks\<lparr>key_pairs_dir := (key_pairs_dir ks)(keypair_file_name (WorkerId (kp_peer_id api kp)) \<mapsto> bytes),
             worker_key_pairs := (worker_key_pairs ks)(WorkerId (kp_peer_id api kp) \<mapsto> kp)\<rparr>)"
  by (cases wr) (auto simp: create_key_pair_def persist_keypair_def Let_def split: sum.splits)

lemma remove_key_pair_Inr:
  "remove_key_pair fail w ks = (Inr u, ks') \<Longrightarrow> key_pairs_dir ks (keypair_file_name w) \<noteq> None
     \<and> ks' = ks\<lparr>key_pairs_dir := (key_pairs_dir ks)(keypair_file_name w := None),
          worker_key_pairs := (worker_key_pairs ks)(w := None)\<rparr>"
  by (auto simp: remove_key_pair_def remove_keypair_def fs_remove_def split: if_splits option.splits)

lemma remove_key_pair_Inl:
  "remove_key_pair fail w ks = (Inl e, ks') \<Longrightarrow> ks' = ks"
  by (auto simp: remove_key_pair_def remove_keypair_def fs_remove_def split: if_splits option.splits)

lemma ks_consistentD:
  assumes "ks_consistent api ks"
  shows "worker_key_pairs ks w = Some kp \<Longrightarrow> w = WorkerId (kp_peer_id api kp)
        \<and> (\<exists>pk bytes. persisted_keypair_try_from api kp = Inr pk \<and> kp_ser api pk = Inr bytes
              \<and> key_pairs_dir ks (keypair_file_name w) = Some bytes)"
    and "is_keypair n \<Longrightarrow> key_pairs_dir ks n = Some bytes \<Longrightarrow> kp_de api bytes = Inr pk \<Longrightarrow>
        \<exists>w. n = keypair_file_name w \<and> worker_key_pairs ks w \<noteq> None"
  using assms unfolding ks_consistent_def by blast+

lemma create_key_pair_consistent:
  assumes "ks_consistent api ks" "create_key_pair api wr kp ks = (Inr kp', ks')"
  shows "ks_consistent api ks'"
proof -
  let ?w = "WorkerId (kp_peer_id api kp)"
  obtain pk bytes where p: "persisted_keypair_try_from api kp = Inr pk" "kp_ser api pk = Inr bytes"
    and ks': "ks' = ks\<lparr>key_pairs_dir := (key_pairs_dir ks)(keypair_file_name ?w \<mapsto> bytes),
             worker_key_pairs := (worker_key_pairs ks)(?w \<mapsto> kp)\<rparr>"
    using assms(2) unfolding create_key_pair_Inr by blast
  show ?thesis unfolding ks_consistent_def
  proof (intro conjI allI impI)
    fix v k assume "worker_key_pairs ks' v = Some k"
    then have "v = WorkerId (kp_peer_id api k) \<and> (\<exists>pk bytes. persisted_keypair_try_from api k = Inr pk
        \<and> kp_ser api pk = Inr bytes \<and> key_pairs_dir ks' (keypair_file_name v) = Some bytes)"
      using ks_consistentD(1) [OF assms(1), of v k] p by (cases "v = ?w") (auto simp: ks')
    then show "v = WorkerId (kp_peer_id api k)" "\<exists>pk bytes. persisted_keypair_try_from api k = Inr pk \<and> kp_ser api pk = Inr bytes
        \<and> key_pairs_dir ks' (keypair_file_name v) = Some bytes" by blast+
  next
    fix n bs pk' assume "is_keypair n" "key_pairs_dir ks' n = Some bs" "kp_de api bs = Inr pk'"
    then show "\<exists>w. n = keypair_file_name w \<and> worker_key_pairs ks' w \<noteq> None"
      using ks_consistentD(2) [OF assms(1), of n bs pk'] by (cases "n = keypair_file_name ?w") (auto simp: ks')
  qed
qed

lemma remove_key_pair_consistent:
  assumes "ks_consistent api ks" "remove_key_pair fail w ks = (r, ks')"
  shows "ks_consistent api ks'"
proof (cases r)
  case (Inl e)
  then show ?thesis using assms remove_key_pair_Inl by metis
next
  case (Inr u)
  then have ks': "ks' = ks\<lparr>key_pairs_dir := (key_pairs_dir ks)(keypair_file_name w := None),
          worker_key_pairs := (worker_key_pairs ks)(w := None)\<rparr>" using assms(2) remove_key_pair_Inr by metis
  show ?thesis unfolding ks_consistent_def
  proof (intro conjI allI impI)
    fix v k assume "worker_key_pairs ks' v = Some k"
    then have "v = WorkerId (kp_peer_id api k) \<and> (\<exists>pk bytes. persisted_keypair_try_from api k = Inr pk
        \<and> kp_ser api pk = Inr bytes \<and> key_pairs_dir ks' (keypair_file_name v) = Some bytes)"
      using ks_consistentD(1) [OF assms(1), of v k] by (cases "v = w") (auto simp: ks')
    then show "v = WorkerId (kp_peer_id api k)" "\<exists>pk bytes. persisted_keypair_try_from api k = Inr pk \<and> kp_ser api pk = Inr bytes
        \<and> key_pairs_dir ks' (keypair_file_name v) = Some bytes" by blast+
  next
    fix n bs pk' assume n: "is_keypair n" "key_pairs_dir ks' n = Some bs" "kp_de api bs = Inr pk'"
    then have "n \<noteq> keypair_file_name w" "key_pairs_dir ks n = Some bs" by (auto simp: ks' split: if_splits)
    then show "\<exists>w. n = keypair_file_name w \<and> worker_key_pairs ks' w \<noteq> None"
      using ks_consistentD(2) [OF assms(1) n(1) _ n(3)] by (auto simp: ks')
  qed
qed

lemma load_key_pairs_within:
  assumes "\<And>pk p. (pk, p) \<in> set pks \<Longrightarrow> \<exists>fmt kp. kp_format_from_str api (key_format pk) = Inr fmt
      \<and> kp_from_secret api (private_key_bytes pk) fmt = Inr kp \<and> p = keypair_file_name (WorkerId (kp_peer_id api kp))
      \<and> M (WorkerId (kp_peer_id api kp)) = Some kp"
    and "acc \<subseteq>\<^sub>m M"
  shows "\<exists>m. load_key_pairs api pks acc = Inr m \<and> m \<subseteq>\<^sub>m M \<and> dom m = dom acc \<union> {w. keypair_file_name w \<in> snd ` set pks}"
  using assms
proof (induction pks arbitrary: acc)
  case (Cons a pks)
  obtain pk p where a: "a = (pk, p)" by (cases a)
  obtain fmt kp where k: "kp_format_from_str api (key_format pk) = Inr fmt"
    "kp_from_secret api (private_key_bytes pk) fmt = Inr kp" "p = keypair_file_name (WorkerId (kp_peer_id api kp))"
    "M (WorkerId (kp_peer_id api kp)) = Some kp"
    using Cons.prems(1) [of pk p] a by auto
  define acc' where "acc' = acc(WorkerId (kp_peer_id api kp) \<mapsto> kp)"
  have "acc' \<subseteq>\<^sub>m M" using Cons.prems(2) k(4) by (auto simp: map_le_def acc'_def)
  from Cons.IH [OF Cons.prems(1) this] obtain m where
    "load_key_pairs api pks acc' = Inr m" "m \<subseteq>\<^sub>m M" "dom m = dom acc' \<union> {w. keypair_file_name w \<in> snd ` set pks}"
    using a by auto
  then show ?case using a k by (intro exI [of _ m]) (auto simp: acc'_def simp del: fun_upd_apply)
qed simp

section \<open>Properties\<close>

text \<open>
  The key storage survives a restart: loading the directory of a consistent storage, in whatever
  order its files are read, gives exactly the key pairs it holds.
\<close>

theorem key_storage_restart:
  assumes "key_laws api" "ks_consistent api ks" "full_listing (key_pairs_dir ks) names"
  shows "\<exists>ks'. key_storage_from_path api ce (Some (map Inr names)) (\<lambda>_. None) (key_pairs_dir ks) root = Inr ks'
    \<and> worker_key_pairs ks' = worker_key_pairs ks"
proof -
  let ?d = "key_pairs_dir ks" and ?M = "worker_key_pairs ks"
  obtain pks where load: "load_persisted_key_pairs api ce (Some (map Inr names)) (\<lambda>_. None) ?d = Inr pks"
    and pks: "set pks = {(x, n). is_keypair n \<and> (\<exists>bytes. ?d n = Some bytes \<and> kp_de api bytes = Inr x)}"
    using load_persisted_data_full [where filt = is_keypair and de = "kp_de api" and ce = ce, OF assms(3)]
    unfolding load_persisted_key_pairs_def by blast
  have stored: "w = WorkerId (kp_peer_id api kp) \<and> (\<exists>pk bytes. persisted_keypair_try_from api kp = Inr pk
      \<and> ?d (keypair_file_name w) = Some bytes \<and> kp_de api bytes = Inr pk)" if h: "?M w = Some kp" for w kp
  proof -
    obtain pk bytes where "w = WorkerId (kp_peer_id api kp)" "persisted_keypair_try_from api kp = Inr pk"
      "kp_ser api pk = Inr bytes" "?d (keypair_file_name w) = Some bytes"
      using ks_consistentD(1) [OF assms(2) h] by blast
    then show ?thesis using key_lawsD(2) [OF assms(1), of pk bytes] by blast
  qed
  have dec: "\<exists>fmt kp. kp_format_from_str api (key_format pk) = Inr fmt
      \<and> kp_from_secret api (private_key_bytes pk) fmt = Inr kp \<and> p = keypair_file_name (WorkerId (kp_peer_id api kp))
      \<and> ?M (WorkerId (kp_peer_id api kp)) = Some kp" if h: "(pk, p) \<in> set pks" for pk p
  proof -
    obtain bytes where b: "is_keypair p" "?d p = Some bytes" "kp_de api bytes = Inr pk" using h unfolding pks by auto
    then obtain w kp where w: "p = keypair_file_name w" "?M w = Some kp"
      using ks_consistentD(2) [OF assms(2) b] by auto
    obtain pk' where pk': "persisted_keypair_try_from api kp = Inr pk'" "kp_de api bytes = Inr pk'" "w = WorkerId (kp_peer_id api kp)"
      using stored [OF w(2)] b(2) w(1) by auto
    then have "persisted_keypair_try_from api kp = Inr pk" using b(3) by simp
    then have "kp_secret api kp = Some (private_key_bytes pk)" "key_format pk = kp_format api kp"
      by (auto simp: persisted_keypair_try_from_def split: option.splits)
    then obtain fmt where "kp_format_from_str api (key_format pk) = Inr fmt"
      "kp_from_secret api (private_key_bytes pk) fmt = Inr kp" using key_lawsD(1) [OF assms(1)] by metis
    then show ?thesis using w pk'(3) by blast
  qed
  obtain m where m: "load_key_pairs api pks Map.empty = Inr m" "m \<subseteq>\<^sub>m ?M" "dom m = {w. keypair_file_name w \<in> snd ` set pks}"
    using load_key_pairs_within [OF dec, of pks Map.empty] by auto
  have "keypair_file_name w \<in> snd ` set pks" if "?M w = Some kp" for w kp
    using stored [OF that] unfolding pks by force
  then have "dom ?M \<subseteq> dom m" unfolding m(3) by blast
  then have "m = ?M" using m(2) by (metis map_le_antisym map_le_def subsetD)
  then show ?thesis using load m(1) by (simp add: key_storage_from_path_def)
qed

text \<open>A key crate whose key pairs are their peer ids, and a storage with one key pair in it.\<close>

definition demo_bytes :: "string \<Rightarrow> 8 word list" where
  "demo_bytes = map (\<lambda>c. of_nat (of_char c))"

definition demo_text :: "8 word list \<Rightarrow> string" where
  "demo_text = map (\<lambda>b. char_of (unat b))"

lemma demo_text_bytes [simp]: "demo_text (demo_bytes s) = s"
proof -
  have "char_of (unat (of_nat (of_char c) :: 8 word)) = c" for c
  proof -
    have "(of_char c :: nat) < 2 ^ 8" using nat_of_char_less_256 [of c] by simp
    then show ?thesis by (simp add: unat_of_nat take_bit_nat_eq_self)
  qed
  then show ?thesis by (simp add: demo_text_def demo_bytes_def comp_def)
qed

lemma demo_bytes_text [simp]: "demo_bytes (demo_text bs) = bs"
proof -
  have "of_nat (of_char (char_of (unat b) :: char)) = (b :: 8 word)" for b
  proof -
    have "unat b < 2 ^ 8" using unsigned_less [of b] by simp
    then show ?thesis by (simp add: take_bit_nat_eq_self)
  qed
  then show ?thesis unfolding demo_text_def demo_bytes_def map_map comp_def by simp
qed

definition demo_keys :: "(string, unit, unit) key_api" where
  "demo_keys = \<lparr>kp_peer_id = (\<lambda>kp. kp), kp_secret = (\<lambda>kp. Some (demo_bytes kp)),
     kp_format = (\<lambda>_. ''ed25519''), kp_format_from_str = (\<lambda>f. if f = ''ed25519'' then Inr () else Inl ()),
     kp_from_secret = (\<lambda>bs _. Inr (demo_text bs)),
     kp_ser = (\<lambda>pk. if key_format pk = ''ed25519'' then Inr (demo_text (private_key_bytes pk)) else Inl ()),
     kp_de = (\<lambda>t. Inr \<lparr>private_key_bytes = demo_bytes t, key_format = ''ed25519''\<rparr>)\<rparr>"

lemma demo_keys_laws: "key_laws demo_keys"
  by (auto simp: key_laws_def demo_keys_def)

definition demo_key_storage :: "string key_storage" where
  "demo_key_storage = snd (create_key_pair demo_keys WriteOk ''w1''
     \<lparr>worker_key_pairs = Map.empty, key_pairs_dir = Map.empty, root_key_pair = ''host''\<rparr>)"

lemma demo_key_storage_eq:
  "worker_key_pairs demo_key_storage = [WorkerId ''w1'' \<mapsto> ''w1'']"
  "key_pairs_dir demo_key_storage = [''w1_keypair.toml'' \<mapsto> ''w1'']"
  by (simp_all add: demo_key_storage_def create_key_pair_def persisted_keypair_try_from_def persist_keypair_def
      demo_keys_def Let_def keypair_file_name_def worker_id_fmt_def)

theorem key_storage_restart_witness:
  "\<exists>ks'. key_storage_from_path demo_keys None (Some [Inr ''w1_keypair.toml'']) (\<lambda>_. None)
       (key_pairs_dir demo_key_storage) ''host'' = Inr ks' \<and> worker_key_pairs ks' = [WorkerId ''w1'' \<mapsto> ''w1'']"
proof -
  have "ks_consistent demo_keys \<lparr>worker_key_pairs = Map.empty, key_pairs_dir = Map.empty, root_key_pair = ''host''\<rparr>"
    by (simp add: ks_consistent_def)
  then have "ks_consistent demo_keys demo_key_storage"
    by (rule create_key_pair_consistent [where wr = WriteOk and kp = "''w1''" and kp' = "''w1''"])
      (simp add: demo_key_storage_def create_key_pair_def persisted_keypair_try_from_def persist_keypair_def
        demo_keys_def Let_def)
  moreover have "full_listing (key_pairs_dir demo_key_storage) [''w1_keypair.toml'']"
    by (simp add: full_listing_def demo_key_storage_eq)
  ultimately show ?thesis
    using key_storage_restart [OF demo_keys_laws, of demo_key_storage "[''w1_keypair.toml'']" None "''host''"]
    by (simp add: demo_key_storage_eq)
qed

text \<open>
  A peer id that has a scope is the peer id of that scope, the scope has a key pair, it is the
  host's scope exactly for the host's peer id; and a peer id has no scope exactly when it is neither
  the host's nor that of a worker with a key pair.
\<close>

theorem scope_sound:
  "case scope ps p of
     Inr s \<Rightarrow> to_peer_id ps s = p \<and> get_keypair (ps_key_storage ps) s \<noteq> None \<and> (s = ScopeHost \<longleftrightarrow> is_host ps p)
   | Inl e \<Rightarrow> e = ScopeNotFound p \<and> p \<noteq> get_host_peer_id ps \<and> get_worker_key_pair (ps_key_storage ps) (WorkerId p) = None"
  by (simp add: scope_def is_host_def get_host_peer_id_def)

end
