(* ===== verification/Workers.thy ===== *)
theory Workers
  imports Key_Storage Core_Manager
begin

text \<open>
  The worker registry, \<^verbatim>\<open>crates/workers/src/workers.rs\<close>, with the files of workers
  (\<^verbatim>\<open>persistence.rs\<close>) and its errors (\<^verbatim>\<open>error.rs\<close>).  Each asynchronous operation is cut at its await
  points into stages; a stage holds the locks it takes from beginning to end, so it is one step.  The
  operations here run their stages one after the other, \<open>Workers_Concurrent\<close> interleaves them.
\<close>

section \<open>Data\<close>

record worker_info =
  wi_deal_id :: deal_id
  wi_creator :: peer_id
  wi_active :: bool
  wi_cu_ids :: "cuid list"

record worker_params =
  wp_deal_id :: deal_id
  wp_creator :: peer_id
  wp_cu_ids :: "cuid list"

definition worker_params_new :: "deal_id \<Rightarrow> peer_id \<Rightarrow> cuid list \<Rightarrow> worker_params" where
  "worker_params_new d creator cus = \<lparr>wp_deal_id = d, wp_creator = creator, wp_cu_ids = cus\<rparr>"

datatype worker_event = WorkerCreated worker_id nat | WorkerRemoved worker_id

record persisted_worker =
  pw_worker_id :: worker_id
  pw_creator :: peer_id
  pw_deal_id :: string
  pw_active :: bool
  pw_cu_ids :: "cuid list"

definition worker_info_from :: "persisted_worker \<Rightarrow> worker_info" where
  "worker_info_from pw = \<lparr>wi_deal_id = deal_id_from (pw_deal_id pw), wi_creator = pw_creator pw,
     wi_active = pw_active pw, wi_cu_ids = pw_cu_ids pw\<rparr>"

datatype 'e workers_error =
    CreateWorkersDir string "'e io_error"
  | CreateWorkerKeyPair "'e key_storage_error"
  | RemoveWorkerKeyPair "'e key_storage_error"
  | ReadPersistedWorker string "'e io_error"
  | DeserializePersistedWorker string 'e
  | WorkerAlreadyExists deal_id
  | WorkerNotFoundByDeal deal_id
  | WorkerNotFound worker_id
  | SerializePersistedWorker 'e
  | WriteErrorPersistedWorker string "'e io_error"
  | RemoveErrorPersistedWorker string worker_id "'e io_error"
  | WorkersKeypairNotFound peer_id
  | CreateRuntime worker_id "'e io_error"
  | FailedToAssignCores worker_id acquire_error
  | FailedToNotifySubsystem worker_id

text \<open>
  What the registry is given: the key crate, the reader and writer of worker files, and the core
  manager's acquisition.  \<open>'s\<close> is the state of the core manager, \<open>'rt\<close> the type of runtimes.
\<close>

record ('kp, 'fmt, 'e, 's) workers_env =
  we_keys :: "('kp, 'fmt, 'e) key_api"
  we_ser :: "persisted_worker \<Rightarrow> 'e + string"
  we_de :: "string \<Rightarrow> 'e + persisted_worker"
  we_acquire :: "acquire_request \<Rightarrow> 's \<Rightarrow> ((acquire_error + assignment) \<times> 's) option"

record ('kp, 'rt, 's) workers =
  worker_ids :: "deal_id \<rightharpoonup> worker_id"
  worker_infos :: "(worker_id, worker_info) hash_map"
  workers_dir :: dir
  w_key_storage :: "'kp key_storage"
  runtimes :: "(worker_id, 'rt) hash_map"
  w_core_manager :: 's
  runtime_counter :: u32
  sent_events :: "worker_event list"

section \<open>Files of workers\<close>

definition persist_worker ::
    "('kp, 'fmt, 'e, 's) workers_env \<Rightarrow> 'e write_result \<Rightarrow> worker_id \<Rightarrow> persisted_worker \<Rightarrow> dir
      \<Rightarrow> ('e workers_error + unit) \<times> dir" where
  "persist_worker env wr w pw d =
     (case we_ser env pw of
        Inl e \<Rightarrow> (Inl (SerializePersistedWorker e), d)
      | Inr bytes \<Rightarrow> (case fs_write wr (worker_file_name w) bytes d of
          (Inl e, d') \<Rightarrow> (Inl (WriteErrorPersistedWorker (worker_file_name w) e), d')
        | (Inr _, d') \<Rightarrow> (Inr (), d')))"

definition remove_worker_file :: "'e option \<Rightarrow> worker_id \<Rightarrow> dir \<Rightarrow> ('e workers_error + unit) \<times> dir" where
  "remove_worker_file fail w d =
     (case fs_remove fail (worker_file_name w) d of
        (Inl e, d') \<Rightarrow> (Inl (RemoveErrorPersistedWorker (worker_file_name w) w e), d')
      | (Inr _, d') \<Rightarrow> (Inr (), d'))"

definition load_persisted_workers ::
    "('kp, 'fmt, 'e, 's) workers_env \<Rightarrow> 'e io_error option \<Rightarrow> ('e + string) list option \<Rightarrow> (string \<Rightarrow> 'e option) \<Rightarrow> dir
      \<Rightarrow> 'e load_data_error + (persisted_worker \<times> string) list" where
  "load_persisted_workers env create_err listing read_err d =
     load_persisted_data create_err listing read_err is_worker (we_de env) d"

section \<open>Reading the registry\<close>

definition get_deal_id :: "('kp, 'rt, 's) workers \<Rightarrow> worker_id \<Rightarrow> 'e workers_error + deal_id" where
  "get_deal_id st w = (case hm_get (worker_infos st) w of None \<Rightarrow> Inl (WorkerNotFound w) | Some i \<Rightarrow> Inr (wi_deal_id i))"

definition get_runtime_handle :: "('kp, 'rt, 's) workers \<Rightarrow> worker_id \<Rightarrow> 'rt option" where
  "get_runtime_handle st w = hm_get (runtimes st) w"

definition get_worker_creator :: "('kp, 'rt, 's) workers \<Rightarrow> worker_id \<Rightarrow> 'e workers_error + peer_id" where
  "get_worker_creator st w = (case hm_get (worker_infos st) w of None \<Rightarrow> Inl (WorkerNotFound w) | Some i \<Rightarrow> Inr (wi_creator i))"

definition get_worker_id :: "('kp, 'rt, 's) workers \<Rightarrow> deal_id \<Rightarrow> 'e workers_error + worker_id" where
  "get_worker_id st d = (case worker_ids st d of None \<Rightarrow> Inl (WorkerNotFoundByDeal d) | Some w \<Rightarrow> Inr w)"

definition is_worker_active :: "('kp, 'rt, 's) workers \<Rightarrow> worker_id \<Rightarrow> bool" where
  "is_worker_active st w = (case hm_get (worker_infos st) w of None \<Rightarrow> False | Some i \<Rightarrow> wi_active i)"

definition list_workers :: "('kp, 'rt, 's) workers \<Rightarrow> worker_id list" where
  "list_workers st = hm_keys (worker_infos st)"

section \<open>Runtimes\<close>

text \<open>
  The runtime of a worker has a thread per logical core of its assignment.  \<open>build\<close> is the builder of
  \<^verbatim>\<open>tokio\<close>, given the number of threads; \<open>None\<close> is its panic, and also a panic of the core manager.
  Cores that were acquired stay acquired when the builder fails.
\<close>

definition build_runtime ::
    "('kp, 'fmt, 'e, 's) workers_env \<Rightarrow> (nat \<Rightarrow> ('e io_error + 'rt) option) \<Rightarrow> worker_id \<Rightarrow> cuid list \<Rightarrow> 's \<Rightarrow> u32
      \<Rightarrow> (('e workers_error + ('rt \<times> nat)) \<times> 's \<times> u32) option" where
  "build_runtime env build w cus cm counter =
     (case we_acquire env (acquire_request_new cus Deal) cm of
        None \<Rightarrow> None
      | Some (Inl e, cm') \<Rightarrow> Some (Inl (FailedToAssignCores w e), cm', counter)
      | Some (Inr a, cm') \<Rightarrow>
          (let threads_count = card (logical_core_ids a) in
           case build threads_count of
             None \<Rightarrow> None
           | Some (Inl e) \<Rightarrow> Some (Inl (CreateRuntime w e), cm', counter + 1)
           | Some (Inr rt) \<Rightarrow> Some (Inr (rt, threads_count), cm', counter + 1)))"

section \<open>Creating a worker\<close>

definition cw_check :: "deal_id \<Rightarrow> ('kp, 'rt, 's) workers \<Rightarrow> 'e workers_error + unit" where
  "cw_check d st = (case worker_ids st d of Some _ \<Rightarrow> Inl (WorkerAlreadyExists d) | None \<Rightarrow> Inr ())"

definition cw_create_key ::
    "('kp, 'fmt, 'e, 's) workers_env \<Rightarrow> 'e write_result \<Rightarrow> 'kp \<Rightarrow> ('kp, 'rt, 's) workers
      \<Rightarrow> ('e workers_error + worker_id) \<times> ('kp, 'rt, 's) workers" where
  "cw_create_key env wr kp st =
     (case create_key_pair (we_keys env) wr kp (w_key_storage st) of
        (Inl e, ks) \<Rightarrow> (Inl (CreateWorkerKeyPair e), st\<lparr>w_key_storage := ks\<rparr>)
      | (Inr kp', ks) \<Rightarrow> (Inr (WorkerId (kp_peer_id (we_keys env) kp')), st\<lparr>w_key_storage := ks\<rparr>))"

definition store_worker ::
    "('kp, 'fmt, 'e, 's) workers_env \<Rightarrow> 'e write_result \<Rightarrow> worker_id \<Rightarrow> deal_id \<Rightarrow> peer_id \<Rightarrow> cuid list
      \<Rightarrow> ('kp, 'rt, 's) workers \<Rightarrow> ('e workers_error + worker_info) \<times> ('kp, 'rt, 's) workers" where
  "store_worker env wr w d creator cus st =
     (case persist_worker env wr w \<lparr>pw_worker_id = w, pw_creator = creator, pw_deal_id = deal_id_into d,
             pw_active = True, pw_cu_ids = cus\<rparr> (workers_dir st) of
        (Inl e, dir') \<Rightarrow> (Inl e, st\<lparr>workers_dir := dir'\<rparr>)
      | (Inr _, dir') \<Rightarrow>
          (Inr \<lparr>wi_deal_id = d, wi_creator = creator, wi_active = True, wi_cu_ids = cus\<rparr>, st\<lparr>workers_dir := dir'\<rparr>))"

text \<open>When the file cannot be written the key pair is removed again.\<close>

definition cw_undo_key ::
    "'e option \<Rightarrow> worker_id \<Rightarrow> 'e workers_error \<Rightarrow> ('kp, 'rt, 's) workers
      \<Rightarrow> 'e workers_error \<times> ('kp, 'rt, 's) workers" where
  "cw_undo_key fail w err st =
     (case remove_key_pair fail w (w_key_storage st) of
        (Inl e, ks) \<Rightarrow> (RemoveWorkerKeyPair e, st\<lparr>w_key_storage := ks\<rparr>)
      | (Inr _, ks) \<Rightarrow> (err, st\<lparr>w_key_storage := ks\<rparr>))"

text \<open>The critical section: the deal is looked up again, the runtime built, the three maps extended.\<close>

definition cw_register ::
    "('kp, 'fmt, 'e, 's) workers_env \<Rightarrow> (nat \<Rightarrow> ('e io_error + 'rt) option) \<Rightarrow> worker_id \<Rightarrow> worker_info
      \<Rightarrow> ('kp, 'rt, 's) workers \<Rightarrow> (('e workers_error + nat) \<times> ('kp, 'rt, 's) workers) option" where
  "cw_register env build w info st =
     (let d = wi_deal_id info in
      if worker_ids st d \<noteq> None then Some (Inl (WorkerAlreadyExists d), st)
      else case build_runtime env build w (wi_cu_ids info) (w_core_manager st) (runtime_counter st) of
             None \<Rightarrow> None
           | Some (Inl e, cm, n) \<Rightarrow> Some (Inl e, st\<lparr>w_core_manager := cm, runtime_counter := n\<rparr>)
           | Some (Inr (rt, thread_count), cm, n) \<Rightarrow>
               Some (Inr thread_count, st\<lparr>w_core_manager := cm, runtime_counter := n,
                 worker_ids := (worker_ids st)(d \<mapsto> w),
                 worker_infos := hm_insert w info (worker_infos st),
                 runtimes := hm_insert w rt (runtimes st)\<rparr>))"

definition cw_notify ::
    "bool \<Rightarrow> deal_id \<Rightarrow> worker_id \<Rightarrow> nat \<Rightarrow> ('kp, 'rt, 's) workers
      \<Rightarrow> ('e workers_error + worker_id) \<times> ('kp, 'rt, 's) workers" where
  "cw_notify sent d w thread_count st =
     (if sent then (Inr w, st\<lparr>sent_events := sent_events st @ [WorkerCreated w thread_count]\<rparr>)
      else (Inl (FailedToNotifySubsystem w),
            st\<lparr>worker_ids := (worker_ids st)(d := None), worker_infos := hm_remove w (worker_infos st),
               runtimes := hm_remove w (runtimes st)\<rparr>))"

text \<open>What the outside answers while a worker is created.\<close>

record ('kp, 'rt, 'e) create_answers =
  ca_key_pair :: 'kp
  ca_key_write :: "'e write_result"
  ca_info_write :: "'e write_result"
  ca_undo_fail :: "'e option"
  ca_build :: "nat \<Rightarrow> ('e io_error + 'rt) option"
  ca_sent :: bool

definition create_worker ::
    "('kp, 'fmt, 'e, 's) workers_env \<Rightarrow> ('kp, 'rt, 'e) create_answers \<Rightarrow> worker_params \<Rightarrow> ('kp, 'rt, 's) workers
      \<Rightarrow> (('e workers_error + worker_id) \<times> ('kp, 'rt, 's) workers) option" where
  "create_worker env ans params st =
     (case cw_check (wp_deal_id params) st of
        Inl e \<Rightarrow> Some (Inl e, st)
      | Inr _ \<Rightarrow>
          (case cw_create_key env (ca_key_write ans) (ca_key_pair ans) st of
             (Inl e, st1) \<Rightarrow> Some (Inl e, st1)
           | (Inr w, st1) \<Rightarrow>
               (case store_worker env (ca_info_write ans) w (wp_deal_id params) (wp_creator params) (wp_cu_ids params) st1 of
                  (Inl e, st2) \<Rightarrow> (let (e', st3) = cw_undo_key (ca_undo_fail ans) w e st2 in Some (Inl e', st3))
                | (Inr info, st2) \<Rightarrow>
                    (case cw_register env (ca_build ans) w info st2 of
                       None \<Rightarrow> None
                     | Some (Inl e, st3) \<Rightarrow> Some (Inl e, st3)
                     | Some (Inr thread_count, st3) \<Rightarrow>
                         Some (cw_notify (ca_sent ans) (wp_deal_id params) w thread_count st3)))))"

section \<open>Removing a worker\<close>

definition rw_notify ::
    "bool \<Rightarrow> worker_id \<Rightarrow> ('kp, 'rt, 's) workers \<Rightarrow> ('e workers_error + deal_id) \<times> ('kp, 'rt, 's) workers" where
  "rw_notify sent w st =
     (case get_deal_id st w of
        Inl e \<Rightarrow> (Inl e, st)
      | Inr d \<Rightarrow> if sent then (Inr d, st\<lparr>sent_events := sent_events st @ [WorkerRemoved w]\<rparr>)
                else (Inl (FailedToNotifySubsystem w), st))"

definition rw_remove_file ::
    "'e option \<Rightarrow> worker_id \<Rightarrow> ('kp, 'rt, 's) workers \<Rightarrow> ('e workers_error + unit) \<times> ('kp, 'rt, 's) workers" where
  "rw_remove_file fail w st =
     (let (r, d') = remove_worker_file fail w (workers_dir st) in (r, st\<lparr>workers_dir := d'\<rparr>))"

definition rw_remove_key ::
    "'e option \<Rightarrow> worker_id \<Rightarrow> ('kp, 'rt, 's) workers \<Rightarrow> ('e workers_error + unit) \<times> ('kp, 'rt, 's) workers" where
  "rw_remove_key fail w st =
     (case remove_key_pair fail w (w_key_storage st) of
        (Inl e, ks) \<Rightarrow> (Inl (RemoveWorkerKeyPair e), st\<lparr>w_key_storage := ks\<rparr>)
      | (Inr _, ks) \<Rightarrow> (Inr (), st\<lparr>w_key_storage := ks\<rparr>))"

definition rw_remove_maps :: "deal_id \<Rightarrow> worker_id \<Rightarrow> ('kp, 'rt, 's) workers \<Rightarrow> ('kp, 'rt, 's) workers" where
  "rw_remove_maps d w st =
     st\<lparr>worker_ids := (worker_ids st)(d := None), worker_infos := hm_remove w (worker_infos st),
        runtimes := hm_remove w (runtimes st)\<rparr>"

definition remove_worker ::
    "bool \<Rightarrow> 'e option \<Rightarrow> 'e option \<Rightarrow> worker_id \<Rightarrow> ('kp, 'rt, 's) workers
      \<Rightarrow> ('e workers_error + unit) \<times> ('kp, 'rt, 's) workers" where
  "remove_worker sent file_fail key_fail w st =
     (case rw_notify sent w st of
        (Inl e, st1) \<Rightarrow> (Inl e, st1)
      | (Inr d, st1) \<Rightarrow>
          (case rw_remove_file file_fail w st1 of
             (Inl e, st2) \<Rightarrow> (Inl e, st2)
           | (Inr _, st2) \<Rightarrow>
               (case rw_remove_key key_fail w st2 of
                  (Inl e, st3) \<Rightarrow> (Inl e, st3)
                | (Inr _, st3) \<Rightarrow> (Inr (), rw_remove_maps d w st3))))"

section \<open>Status and shutdown\<close>

definition sw_set ::
    "worker_id \<Rightarrow> bool \<Rightarrow> ('kp, 'rt, 's) workers \<Rightarrow> ('e workers_error + persisted_worker) \<times> ('kp, 'rt, 's) workers" where
  "sw_set w status st =
     (case hm_get (worker_infos st) w of
        None \<Rightarrow> (Inl (WorkerNotFound w), st)
      | Some i \<Rightarrow>
          (Inr \<lparr>pw_worker_id = w, pw_creator = wi_creator i, pw_deal_id = deal_id_into (wi_deal_id i),
                pw_active = status, pw_cu_ids = wi_cu_ids i\<rparr>,
           st\<lparr>worker_infos := hm_insert w (i\<lparr>wi_active := status\<rparr>) (worker_infos st)\<rparr>))"

definition sw_persist ::
    "('kp, 'fmt, 'e, 's) workers_env \<Rightarrow> 'e write_result \<Rightarrow> worker_id \<Rightarrow> persisted_worker \<Rightarrow> ('kp, 'rt, 's) workers
      \<Rightarrow> ('e workers_error + unit) \<times> ('kp, 'rt, 's) workers" where
  "sw_persist env wr w pw st =
     (let (r, d') = persist_worker env wr w pw (workers_dir st) in (r, st\<lparr>workers_dir := d'\<rparr>))"

definition set_worker_status ::
    "('kp, 'fmt, 'e, 's) workers_env \<Rightarrow> 'e write_result \<Rightarrow> worker_id \<Rightarrow> bool \<Rightarrow> ('kp, 'rt, 's) workers
      \<Rightarrow> ('e workers_error + unit) \<times> ('kp, 'rt, 's) workers" where
  "set_worker_status env wr w status st =
     (case sw_set w status st of
        (Inl e, st1) \<Rightarrow> (Inl e, st1)
      | (Inr pw, st1) \<Rightarrow> sw_persist env wr w pw st1)"

definition activate_worker ::
    "('kp, 'fmt, 'e, 's) workers_env \<Rightarrow> 'e write_result \<Rightarrow> worker_id \<Rightarrow> ('kp, 'rt, 's) workers
      \<Rightarrow> ('e workers_error + unit) \<times> ('kp, 'rt, 's) workers" where
  "activate_worker env wr w st = set_worker_status env wr w True st"

definition deactivate_worker ::
    "('kp, 'fmt, 'e, 's) workers_env \<Rightarrow> 'e write_result \<Rightarrow> worker_id \<Rightarrow> ('kp, 'rt, 's) workers
      \<Rightarrow> ('e workers_error + unit) \<times> ('kp, 'rt, 's) workers" where
  "deactivate_worker env wr w st = set_worker_status env wr w False st"

definition shutdown :: "('kp, 'rt, 's) workers \<Rightarrow> ('kp, 'rt, 's) workers" where
  "shutdown st = st\<lparr>runtimes := fold hm_remove (hm_keys (runtimes st)) (runtimes st)\<rparr>"

section \<open>Loading\<close>

datatype 'e workers_load_error =
    WorkersLoadData "'e load_data_error"
  | WorkersLoadRuntime "'e workers_error"
  | WorkersLoadSend

text \<open>
  \<^verbatim>\<open>from_path\<close> sends an event per loaded worker into a channel whose receiver it also holds, so a
  send never fails but waits when the channel is full; \<open>room\<close> is what is left of the channel's size,
  \<open>None\<close> a wait that never ends or a panic (of the builder, the core manager, or of \<^verbatim>\<open>tokio\<close> for a
  channel of size zero).
\<close>

fun load_workers ::
    "('kp, 'fmt, 'e, 's) workers_env \<Rightarrow> (nat \<Rightarrow> ('e io_error + 'rt) option) \<Rightarrow> nat \<Rightarrow> (persisted_worker \<times> string) list
      \<Rightarrow> ('kp, 'rt, 's) workers \<Rightarrow> ('e workers_load_error + ('kp, 'rt, 's) workers) option" where
  "load_workers env build room [] st = Some (Inr st)"
| "load_workers env build room ((pw, path) # pws) st =
     (let w = pw_worker_id pw; d = deal_id_from (pw_deal_id pw);
          st1 = st\<lparr>worker_infos := hm_insert w (worker_info_from pw) (worker_infos st),
                   worker_ids := (worker_ids st)(d \<mapsto> w)\<rparr>
      in case build_runtime env build w (pw_cu_ids pw) (w_core_manager st1) (runtime_counter st1) of
           None \<Rightarrow> None
         | Some (Inl e, _) \<Rightarrow> Some (Inl (WorkersLoadRuntime e))
         | Some (Inr (rt, thread_count), cm, n) \<Rightarrow>
             if room = 0 then None
             else load_workers env build (room - 1) pws
               (st1\<lparr>w_core_manager := cm, runtime_counter := n, runtimes := hm_insert w rt (runtimes st1),
                    sent_events := sent_events st1 @ [WorkerCreated w thread_count]\<rparr>))"

definition workers_from_path ::
    "('kp, 'fmt, 'e, 's) workers_env \<Rightarrow> 'e io_error option \<Rightarrow> ('e + string) list option \<Rightarrow> (string \<Rightarrow> 'e option)
      \<Rightarrow> (nat \<Rightarrow> ('e io_error + 'rt) option) \<Rightarrow> nat \<Rightarrow> dir \<Rightarrow> 'kp key_storage \<Rightarrow> 's
      \<Rightarrow> ('e workers_load_error + ('kp, 'rt, 's) workers) option" where
  "workers_from_path env create_err listing read_err build channel_size d ks cm =
     (case load_persisted_workers env create_err listing read_err d of
        Inl e \<Rightarrow> Some (Inl (WorkersLoadData e))
      | Inr pws \<Rightarrow> if channel_size = 0 then None else load_workers env build channel_size pws
          \<lparr>worker_ids = Map.empty, worker_infos = [], workers_dir = d, w_key_storage = ks, runtimes = [],
           w_core_manager = cm, runtime_counter = 0, sent_events = []\<rparr>)"

end
