(* ===== verification/Workers_Concurrent.thy ===== *)
theory Workers_Concurrent
  imports Workers "HOL-Library.Multiset"
begin

text \<open>
  Concurrent use of the worker registry: any number of calls of \<^verbatim>\<open>create_worker\<close>, \<^verbatim>\<open>remove_worker\<close>,
  \<^verbatim>\<open>activate_worker\<close>, \<^verbatim>\<open>deactivate_worker\<close> and \<^verbatim>\<open>shutdown\<close> are in flight at once and interleave at
  their await points.  A task is a call that waits at such a point.
\<close>

section \<open>Tasks\<close>

datatype 'e wtask =
    TCreateChecked worker_params
  | TCreateKeyed worker_params worker_id
  | TCreateUndo worker_id "'e workers_error"
  | TCreateStored worker_id worker_info
  | TCreateNotify deal_id worker_id nat
  | TRemoveFile deal_id worker_id
  | TRemoveKey deal_id worker_id
  | TRemoveMaps deal_id worker_id
  | TStatus worker_id persisted_worker

record ('kp, 'rt, 's, 'e) wsystem =
  ws_workers :: "('kp, 'rt, 's) workers"
  ws_tasks :: "'e wtask multiset"

datatype ('kp, 'rt, 'e) wlabel =
    CallCreate worker_params
  | CallRemove worker_id bool
  | CallStatus worker_id bool
  | CallShutdown
  | Resume "'e wtask" "('kp, 'rt, 'e) create_answers"

text \<open>The next stage of a waiting call: the task it becomes, if any, and the registry afterwards.\<close>

fun resume ::
    "('kp, 'fmt, 'e, 's) workers_env \<Rightarrow> ('kp, 'rt, 'e) create_answers \<Rightarrow> 'e wtask \<Rightarrow> ('kp, 'rt, 's) workers
      \<Rightarrow> ('e wtask list \<times> ('kp, 'rt, 's) workers) option" where
  "resume env ans (TCreateChecked p) st =
     (case cw_create_key env (ca_key_write ans) (ca_key_pair ans) st of
        (Inl e, st') \<Rightarrow> Some ([], st') | (Inr w, st') \<Rightarrow> Some ([TCreateKeyed p w], st'))"
| "resume env ans (TCreateKeyed p w) st =
     (case store_worker env (ca_info_write ans) w (wp_deal_id p) (wp_creator p) (wp_cu_ids p) st of
        (Inl e, st') \<Rightarrow> Some ([TCreateUndo w e], st') | (Inr i, st') \<Rightarrow> Some ([TCreateStored w i], st'))"
| "resume env ans (TCreateUndo w e) st = Some ([], snd (cw_undo_key (ca_undo_fail ans) w e st))"
| "resume env ans (TCreateStored w i) st =
     (case cw_register env (ca_build ans) w i st of
        None \<Rightarrow> None
      | Some (Inl e, st') \<Rightarrow> Some ([], st')
      | Some (Inr n, st') \<Rightarrow> Some ([TCreateNotify (wi_deal_id i) w n], st'))"
| "resume env ans (TCreateNotify d w n) st =
     (case cw_notify (ca_sent ans) d w n st of (r :: 'e workers_error + worker_id, st') \<Rightarrow> Some ([], st'))"
| "resume env ans (TRemoveFile d w) st =
     (case rw_remove_file (ca_undo_fail ans) w st of
        (Inl e, st') \<Rightarrow> Some ([], st') | (Inr _, st') \<Rightarrow> Some ([TRemoveKey d w], st'))"
| "resume env ans (TRemoveKey d w) st =
     (case rw_remove_key (ca_undo_fail ans) w st of
        (Inl e, st') \<Rightarrow> Some ([], st') | (Inr _, st') \<Rightarrow> Some ([TRemoveMaps d w], st'))"
| "resume env ans (TRemoveMaps d w) st = Some ([], rw_remove_maps d w st)"
| "resume env ans (TStatus w pw) st = Some ([], snd (sw_persist env (ca_info_write ans) w pw st))"

fun mentions_worker :: "worker_id \<Rightarrow> 'e wtask \<Rightarrow> bool" where
  "mentions_worker v (TCreateChecked p) = False"
| "mentions_worker v (TCreateKeyed p w) = (v = w)"
| "mentions_worker v (TCreateUndo w e) = (v = w)"
| "mentions_worker v (TCreateStored w i) = (v = w)"
| "mentions_worker v (TCreateNotify d w n) = (v = w)"
| "mentions_worker v (TRemoveFile d w) = (v = w)"
| "mentions_worker v (TRemoveKey d w) = (v = w)"
| "mentions_worker v (TRemoveMaps d w) = (v = w)"
| "mentions_worker v (TStatus w pw) = (v = w)"

text \<open>
  What is assumed of the answers: a generated key pair is new (its worker is not registered, in no
  waiting call, and has no key file), and the receiver of the events is alive when a creation has to
  be announced.
\<close>

fun answers_ok :: "('kp, 'fmt, 'e, 's) workers_env \<Rightarrow> ('kp, 'rt, 'e) wlabel \<Rightarrow> ('kp, 'rt, 's, 'e) wsystem \<Rightarrow> bool" where
  "answers_ok env (Resume (TCreateChecked p) ans) s =
     (let w = WorkerId (kp_peer_id (we_keys env) (ca_key_pair ans)) in
      hm_get (worker_infos (ws_workers s)) w = None
    \<and> key_pairs_dir (w_key_storage (ws_workers s)) (keypair_file_name w) = None
    \<and> filter_mset (mentions_worker w) (ws_tasks s) = {#})"
| "answers_ok env (Resume (TCreateNotify d w n) ans) s = ca_sent ans"
| "answers_ok env _ s = True"

fun wsystem_next ::
    "('kp, 'fmt, 'e, 's) workers_env \<Rightarrow> ('kp, 'rt, 'e) wlabel \<Rightarrow> ('kp, 'rt, 's, 'e) wsystem
      \<Rightarrow> ('kp, 'rt, 's, 'e) wsystem option" where
  "wsystem_next env (CallCreate p) s =
     (case cw_check (wp_deal_id p) (ws_workers s) of
        Inl (e :: 'e workers_error) \<Rightarrow> Some s
      | Inr _ \<Rightarrow> Some (s\<lparr>ws_tasks := add_mset (TCreateChecked p) (ws_tasks s)\<rparr>))"
| "wsystem_next env (CallRemove w sent) s =
     (case rw_notify sent w (ws_workers s) of
        (Inl (e :: 'e workers_error), st) \<Rightarrow> Some (s\<lparr>ws_workers := st\<rparr>)
      | (Inr d, st) \<Rightarrow> Some (s\<lparr>ws_workers := st, ws_tasks := add_mset (TRemoveFile d w) (ws_tasks s)\<rparr>))"
| "wsystem_next env (CallStatus w status) s =
     (case sw_set w status (ws_workers s) of
        (Inl (e :: 'e workers_error), st) \<Rightarrow> Some (s\<lparr>ws_workers := st\<rparr>)
      | (Inr pw, st) \<Rightarrow> Some (s\<lparr>ws_workers := st, ws_tasks := add_mset (TStatus w pw) (ws_tasks s)\<rparr>))"
| "wsystem_next env CallShutdown s = Some (s\<lparr>ws_workers := shutdown (ws_workers s)\<rparr>)"
| "wsystem_next env (Resume t ans) s =
     (if t \<in># ws_tasks s
      then map_option (\<lambda>(next, st). s\<lparr>ws_workers := st, ws_tasks := mset next + (ws_tasks s - {#t#})\<rparr>)
             (resume env ans t (ws_workers s))
      else None)"

definition wsystem_step ::
    "('kp, 'fmt, 'e, 's) workers_env \<Rightarrow> ('kp, 'rt, 's, 'e) wsystem \<Rightarrow> ('kp, 'rt, 'e) wlabel
      \<Rightarrow> ('kp, 'rt, 's, 'e) wsystem \<Rightarrow> bool" where
  "wsystem_step env s l t \<longleftrightarrow> answers_ok env l s \<and> wsystem_next env l s = Some t"

section \<open>The invariant\<close>

definition deal_of :: "('kp, 'rt, 's) workers \<Rightarrow> worker_id \<Rightarrow> deal_id option" where
  "deal_of st w = map_option wi_deal_id (hm_get (worker_infos st) w)"

definition has_key_file :: "('kp, 'rt, 's) workers \<Rightarrow> worker_id \<Rightarrow> bool" where
  "has_key_file st w \<longleftrightarrow> key_pairs_dir (w_key_storage st) (keypair_file_name w) \<noteq> None"

text \<open>The maps of the registry agree.\<close>

definition workers_ok :: "('kp, 'rt, 's) workers \<Rightarrow> bool" where
  "workers_ok st \<longleftrightarrow>
     (\<forall>d w. worker_ids st d = Some w \<longleftrightarrow> deal_of st w = Some d)
   \<and> hm_ok (worker_infos st) \<and> hm_ok (runtimes st)
   \<and> (\<forall>w. hm_get (runtimes st) w \<noteq> None \<longrightarrow> deal_of st w \<noteq> None)"

text \<open>
  What a waiting call knows.  The key file of a worker is the token that only one remover can take:
  as long as it is there a remover's worker is registered for its deal.
\<close>

fun task_ok :: "('kp, 'rt, 's) workers \<Rightarrow> 'e wtask \<Rightarrow> bool" where
  "task_ok st (TCreateKeyed p w) = (deal_of st w = None \<and> has_key_file st w)"
| "task_ok st (TCreateUndo w e) = (deal_of st w = None \<and> has_key_file st w)"
| "task_ok st (TCreateStored w i) = (deal_of st w = None \<and> has_key_file st w)"
| "task_ok st (TRemoveFile d w) = (has_key_file st w \<longrightarrow> deal_of st w = Some d)"
| "task_ok st (TRemoveKey d w) = (has_key_file st w \<longrightarrow> deal_of st w = Some d)"
| "task_ok st (TRemoveMaps d w) = (\<not> has_key_file st w \<and> deal_of st w = Some d)"
| "task_ok st _ = True"

fun owns_worker :: "worker_id \<Rightarrow> 'e wtask \<Rightarrow> bool" where
  "owns_worker v (TCreateKeyed p w) = (v = w)"
| "owns_worker v (TCreateUndo w e) = (v = w)"
| "owns_worker v (TCreateStored w i) = (v = w)"
| "owns_worker v (TRemoveMaps d w) = (v = w)"
| "owns_worker v _ = False"

definition tasks_ok :: "('kp, 'rt, 's) workers \<Rightarrow> 'e wtask multiset \<Rightarrow> bool" where
  "tasks_ok st ts \<longleftrightarrow> (\<forall>t \<in># ts. task_ok st t) \<and> (\<forall>w. size (filter_mset (owns_worker w) ts) \<le> 1)"

definition wsystem_inv :: "('kp, 'rt, 's, 'e) wsystem \<Rightarrow> bool" where
  "wsystem_inv s \<longleftrightarrow> workers_ok (ws_workers s) \<and> tasks_ok (ws_workers s) (ws_tasks s)"

definition wsystem_start :: "('kp, 'rt, 's, 'e) wsystem \<Rightarrow> bool" where
  "wsystem_start s \<longleftrightarrow> workers_ok (ws_workers s) \<and> ws_tasks s = {#}"

subsection \<open>Waiting calls under changes of the registry\<close>

lemma owns_mentions: "owns_worker w t \<Longrightarrow> mentions_worker w t"
  by (cases t) auto

lemma task_ok_cong:
  assumes "\<And>w. mentions_worker w t \<Longrightarrow> deal_of st' w = deal_of st w \<and> has_key_file st' w = has_key_file st w"
  shows "task_ok st' t = task_ok st t"
  using assms by (cases t) auto

lemma tasks_ok_cong:
  fixes ts :: "'e wtask multiset"
  assumes "deal_of st' = deal_of st" "has_key_file st' = has_key_file st"
  shows "tasks_ok st' ts = tasks_ok st ts"
proof -
  have "task_ok st' t = task_ok st t" for t :: "'e wtask" by (rule task_ok_cong) (simp add: assms)
  then show ?thesis by (simp add: tasks_ok_def)
qed

lemma tasks_ok_add:
  "tasks_ok st (add_mset t ts) \<longleftrightarrow> task_ok st t \<and> tasks_ok st ts
     \<and> (\<forall>w. owns_worker w t \<longrightarrow> filter_mset (owns_worker w) ts = {#})"
  by (auto simp: tasks_ok_def le_Suc_eq split: if_splits)

lemma tasks_ok_empty [simp]: "tasks_ok st {#}"
  by (simp add: tasks_ok_def)

text \<open>A change that concerns one worker only leaves the calls about other workers alone.\<close>

lemma tasks_ok_change:
  assumes "tasks_ok st ts"
    and "\<And>v. v \<noteq> w \<Longrightarrow> deal_of st' v = deal_of st v \<and> has_key_file st' v = has_key_file st v"
    and "\<And>t. t \<in># ts \<Longrightarrow> mentions_worker w t \<Longrightarrow> task_ok st t \<Longrightarrow> task_ok st' t"
  shows "tasks_ok st' ts"
proof -
  have "task_ok st' t" if t: "t \<in># ts" for t
  proof (cases "mentions_worker w t")
    case True
    then show ?thesis using assms(1,3) t by (simp add: tasks_ok_def)
  next
    case False
    then have "task_ok st' t = task_ok st t" using assms(2) by (intro task_ok_cong) metis
    then show ?thesis using assms(1) t by (simp add: tasks_ok_def)
  qed
  then show ?thesis using assms(1) by (simp add: tasks_ok_def)
qed

lemma workers_ok_cong:
  assumes "worker_ids st' = worker_ids st" "deal_of st' = deal_of st" "hm_ok (worker_infos st')"
    and "hm_ok (runtimes st')" "\<And>w. hm_get (runtimes st') w \<noteq> None \<Longrightarrow> hm_get (runtimes st) w \<noteq> None"
    and "workers_ok st"
  shows "workers_ok st'"
  using assms unfolding workers_ok_def by metis

subsection \<open>What the stages change\<close>

text \<open>Stages that change neither the registered workers nor the key files.\<close>

definition same_registry :: "('kp, 'rt, 's) workers \<Rightarrow> ('kp, 'rt, 's) workers \<Rightarrow> bool" where
  "same_registry st st' \<longleftrightarrow> worker_ids st' = worker_ids st \<and> worker_infos st' = worker_infos st
     \<and> runtimes st' = runtimes st \<and> w_key_storage st' = w_key_storage st"

lemma same_registry_inv:
  assumes "same_registry st st'"
  shows "workers_ok st' = workers_ok st" "tasks_ok st' ts = tasks_ok st ts"
proof -
  have e: "deal_of st' = deal_of st" "has_key_file st' = has_key_file st"
    using assms by (simp_all add: same_registry_def deal_of_def has_key_file_def fun_eq_iff)
  show "workers_ok st' = workers_ok st" using assms e by (simp add: same_registry_def workers_ok_def)
  show "tasks_ok st' ts = tasks_ok st ts" by (rule tasks_ok_cong [OF e])
qed

lemma same_registry_facts:
  "same_registry st st' \<Longrightarrow> deal_of st' = deal_of st" "same_registry st st' \<Longrightarrow> has_key_file st' = has_key_file st"
  by (simp_all add: same_registry_def deal_of_def has_key_file_def fun_eq_iff)

lemma store_worker_same: "store_worker env wr w d c cus st = (r, st') \<Longrightarrow> same_registry st st'"
  by (auto simp: store_worker_def same_registry_def split: prod.splits sum.splits)

lemma rw_remove_file_same: "rw_remove_file fail w st = (r, st') \<Longrightarrow> same_registry st st'"
  by (auto simp: rw_remove_file_def same_registry_def Let_def split: prod.splits)

lemma sw_persist_same: "sw_persist env wr w pw st = (r, st') \<Longrightarrow> same_registry st st'"
  by (auto simp: sw_persist_def same_registry_def Let_def split: prod.splits)

lemma rw_notify_same: "rw_notify sent w st = (r, st') \<Longrightarrow> same_registry st st'"
  by (auto simp: rw_notify_def same_registry_def split: sum.splits if_splits)

lemma rw_notify_Inr: "rw_notify sent w st = (Inr d, st') \<Longrightarrow> deal_of st w = Some d"
  by (auto simp: rw_notify_def get_deal_id_def deal_of_def split: sum.splits if_splits option.splits)

lemma cw_notify_sent_same: "cw_notify True d w n st = (r, st') \<Longrightarrow> same_registry st st'"
  by (auto simp: cw_notify_def same_registry_def)

text \<open>Stages that change key files only, and only those of one worker.\<close>

definition only_key_of :: "worker_id \<Rightarrow> ('kp, 'rt, 's) workers \<Rightarrow> ('kp, 'rt, 's) workers \<Rightarrow> bool" where
  "only_key_of w st st' \<longleftrightarrow> worker_ids st' = worker_ids st \<and> worker_infos st' = worker_infos st
     \<and> runtimes st' = runtimes st \<and> (\<forall>v. v \<noteq> w \<longrightarrow> has_key_file st' v = has_key_file st v)"

lemma only_key_of_inv:
  assumes "only_key_of w st st'"
  shows "workers_ok st' = workers_ok st" "deal_of st' = deal_of st"
    "v \<noteq> w \<Longrightarrow> has_key_file st' v = has_key_file st v"
proof -
  show e: "deal_of st' = deal_of st" using assms by (simp add: only_key_of_def deal_of_def fun_eq_iff)
  show "workers_ok st' = workers_ok st" using assms e by (simp add: only_key_of_def workers_ok_def)
  show "v \<noteq> w \<Longrightarrow> has_key_file st' v = has_key_file st v" using assms by (simp add: only_key_of_def)
qed

lemma create_key_pair_dir_other:
  "v \<noteq> WorkerId (kp_peer_id api kp) \<Longrightarrow>
     key_pairs_dir (snd (create_key_pair api wr kp ks)) (keypair_file_name v) = key_pairs_dir ks (keypair_file_name v)"
  by (cases wr) (simp_all add: create_key_pair_def persist_keypair_def Let_def split: sum.split)

lemma cw_create_key_effect:
  assumes "cw_create_key env wr kp st = (r, st')"
  shows "only_key_of (WorkerId (kp_peer_id (we_keys env) kp)) st st'"
    and "r = Inr w \<Longrightarrow> w = WorkerId (kp_peer_id (we_keys env) kp) \<and> has_key_file st' w"
proof -
  obtain r0 ks where c: "create_key_pair (we_keys env) wr kp (w_key_storage st) = (r0, ks)" by fastforce
  then have st': "st' = st\<lparr>w_key_storage := ks\<rparr>" using assms by (auto simp: cw_create_key_def split: sum.splits)
  show "only_key_of (WorkerId (kp_peer_id (we_keys env) kp)) st st'"
    using create_key_pair_dir_other [of _ "we_keys env" kp wr "w_key_storage st"] c
    by (simp add: only_key_of_def st' has_key_file_def)
  show "r = Inr w \<Longrightarrow> w = WorkerId (kp_peer_id (we_keys env) kp) \<and> has_key_file st' w"
    using assms c by (auto simp: cw_create_key_def create_key_pair_Inr has_key_file_def split: sum.splits)
qed

lemma cw_undo_key_effect: "cw_undo_key fail w e st = (r, st') \<Longrightarrow> only_key_of w st st'"
  by (auto simp: cw_undo_key_def only_key_of_def has_key_file_def
      split: sum.splits prod.splits dest!: remove_key_pair_Inr remove_key_pair_Inl)

lemma rw_remove_key_Inl: "rw_remove_key fail w st = (Inl e, st') \<Longrightarrow> same_registry st st'"
  by (auto simp: rw_remove_key_def same_registry_def split: sum.splits prod.splits dest!: remove_key_pair_Inl)

lemma rw_remove_key_Inr:
  "rw_remove_key fail w st = (Inr u, st') \<Longrightarrow> only_key_of w st st' \<and> has_key_file st w \<and> \<not> has_key_file st' w"
  by (auto simp: rw_remove_key_def only_key_of_def has_key_file_def
      split: sum.splits prod.splits dest!: remove_key_pair_Inr)

text \<open>Registering and unregistering.\<close>

lemma cw_register_Inl:
  "cw_register env build w i st = Some (Inl e, st') \<Longrightarrow> same_registry st st'"
  by (auto simp: cw_register_def same_registry_def Let_def split: if_splits option.splits prod.splits sum.splits)

lemma cw_register_Inr:
  assumes "cw_register env build w i st = Some (Inr n, st')"
  shows "worker_ids st (wi_deal_id i) = None \<and> worker_ids st' = (worker_ids st)(wi_deal_id i \<mapsto> w)
    \<and> deal_of st' = (deal_of st)(w \<mapsto> wi_deal_id i) \<and> has_key_file st' = has_key_file st
    \<and> (\<exists>rt. runtimes st' = hm_insert w rt (runtimes st)) \<and> worker_infos st' = hm_insert w i (worker_infos st)"
  using assms
  by (auto simp: cw_register_def Let_def deal_of_def has_key_file_def fun_eq_iff
      split: if_splits option.splits prod.splits sum.splits)

lemma rw_remove_maps_effect:
  "worker_ids (rw_remove_maps d w st) = (worker_ids st)(d := None)"
  "deal_of (rw_remove_maps d w st) = (deal_of st)(w := None)"
  "has_key_file (rw_remove_maps d w st) = has_key_file st"
  "runtimes (rw_remove_maps d w st) = hm_remove w (runtimes st)"
  "worker_infos (rw_remove_maps d w st) = hm_remove w (worker_infos st)"
  by (auto simp: rw_remove_maps_def deal_of_def has_key_file_def fun_eq_iff)

lemma workers_ok_register:
  assumes "workers_ok st" "deal_of st w = None" "cw_register env build w i st = Some (Inr n, st')"
  shows "workers_ok st'"
proof -
  obtain rt where e: "worker_ids st (wi_deal_id i) = None" "worker_ids st' = (worker_ids st)(wi_deal_id i \<mapsto> w)"
    "deal_of st' = (deal_of st)(w \<mapsto> wi_deal_id i)" "runtimes st' = hm_insert w rt (runtimes st)"
    "worker_infos st' = hm_insert w i (worker_infos st)"
    using cw_register_Inr [OF assms(3)] by blast
  have ids: "worker_ids st d = Some v \<longleftrightarrow> deal_of st v = Some d" for d v using assms(1) unfolding workers_ok_def by blast
  have "deal_of st v \<noteq> Some (wi_deal_id i)" for v using ids [of "wi_deal_id i" v] e(1) by simp
  then have "worker_ids st' d = Some v \<longleftrightarrow> deal_of st' v = Some d" for d v
    using ids [of d v] assms(2) by (auto simp: e)
  moreover have "hm_get (runtimes st') v \<noteq> None \<Longrightarrow> deal_of st' v \<noteq> None" for v
    using assms(1) unfolding workers_ok_def e by (auto split: if_splits)
  moreover have "hm_ok (worker_infos st')" "hm_ok (runtimes st')"
    using assms(1) unfolding workers_ok_def e by simp_all
  ultimately show ?thesis unfolding workers_ok_def by blast
qed

lemma workers_ok_remove_maps:
  assumes "workers_ok st" "deal_of st w = Some d"
  shows "workers_ok (rw_remove_maps d w st)"
proof -
  have ids: "worker_ids st d' = Some v \<longleftrightarrow> deal_of st v = Some d'" for d' v using assms(1) unfolding workers_ok_def by blast
  have "worker_ids (rw_remove_maps d w st) d' = Some v \<longleftrightarrow> deal_of (rw_remove_maps d w st) v = Some d'" for d' v
    using ids [of d' v] ids [of d w] ids [of d v] assms(2) by (auto simp: rw_remove_maps_effect)
  moreover have "hm_get (runtimes (rw_remove_maps d w st)) v \<noteq> None \<Longrightarrow> deal_of (rw_remove_maps d w st) v \<noteq> None" for v
    using assms(1) unfolding workers_ok_def rw_remove_maps_effect by auto
  moreover have "hm_ok (worker_infos (rw_remove_maps d w st))" "hm_ok (runtimes (rw_remove_maps d w st))"
    using assms(1) unfolding workers_ok_def rw_remove_maps_effect by simp_all
  ultimately show ?thesis unfolding workers_ok_def by blast
qed

lemma sw_set_effect:
  assumes "sw_set w status st = (r, st')"
  shows "worker_ids st' = worker_ids st" "deal_of st' = deal_of st" "has_key_file st' = has_key_file st"
    "runtimes st' = runtimes st" "hm_ok (worker_infos st) \<Longrightarrow> hm_ok (worker_infos st')"
  using assms by (auto simp: sw_set_def deal_of_def has_key_file_def fun_eq_iff split: option.splits)

lemma fold_hm_remove: "hm_get (fold hm_remove ks m) k = (if k \<in> set ks then None else hm_get m k)"
  by (induction ks arbitrary: m) auto

lemma fold_hm_remove_ok: "hm_ok m \<Longrightarrow> hm_ok (fold hm_remove ks m)"
  by (induction ks arbitrary: m) auto

lemma shutdown_effect:
  "worker_ids (shutdown st) = worker_ids st" "deal_of (shutdown st) = deal_of st"
  "has_key_file (shutdown st) = has_key_file st" "worker_infos (shutdown st) = worker_infos st"
  "hm_get (runtimes (shutdown st)) w = None" "hm_ok (runtimes st) \<Longrightarrow> hm_ok (runtimes (shutdown st))"
  by (simp_all add: shutdown_def deal_of_def has_key_file_def fun_eq_iff fold_hm_remove fold_hm_remove_ok hm_keys_get)

lemma workers_ok_shutdown:
  assumes "workers_ok st"
  shows "workers_ok (shutdown st)"
proof (rule workers_ok_cong [OF shutdown_effect(1,2) _ _ _ assms])
  have "hm_ok (worker_infos st)" "hm_ok (runtimes st)" using assms by (simp_all add: workers_ok_def)
  then show "hm_ok (worker_infos (shutdown st))" "hm_ok (runtimes (shutdown st))" by (simp_all add: shutdown_effect)
qed (simp add: shutdown_effect)

subsection \<open>Every step keeps the invariant\<close>

lemma filter_owns_empty:
  "filter_mset (mentions_worker w) ts = {#} \<Longrightarrow> filter_mset (owns_worker w) ts = {#}"
  using owns_mentions by (fastforce simp: filter_mset_eq_mempty_iff)

lemma no_owner: "filter_mset (owns_worker w) ts = {#} \<Longrightarrow> t \<in># ts \<Longrightarrow> \<not> owns_worker w t"
  by (auto simp: filter_mset_eq_mempty_iff)

text \<open>
  The stages that change something, one by one.  \<open>rest\<close> are the other waiting calls; a stage that owns
  its worker is the only waiting call that does.
\<close>

lemma keeps_create_key:
  assumes ok: "workers_ok st" "tasks_ok st rest"
    and c: "cw_create_key env wr kp st = (r, st')"
    and w: "w = WorkerId (kp_peer_id (we_keys env) kp)"
    and fresh: "deal_of st w = None" "filter_mset (mentions_worker w) rest = {#}"
  shows "workers_ok st'" "tasks_ok st' rest" "r = Inr v \<Longrightarrow> v = w \<and> has_key_file st' w \<and> deal_of st' w = None"
proof -
  note e = cw_create_key_effect [OF c, folded w]
  note k = only_key_of_inv [OF e(1)]
  show "workers_ok st'" using k(1) ok(1) by simp
  show "tasks_ok st' rest"
  proof (rule tasks_ok_change [OF ok(2), of w])
    show "deal_of st' v = deal_of st v \<and> has_key_file st' v = has_key_file st v" if "v \<noteq> w" for v
      using k(2) k(3) [OF that] by simp
    show "task_ok st' t" if "t \<in># rest" "mentions_worker w t" "task_ok st t" for t
      using that fresh(2) by (simp add: filter_mset_eq_mempty_iff)
  qed
  show "r = Inr v \<Longrightarrow> v = w \<and> has_key_file st' w \<and> deal_of st' w = None" using e(2) [of v] k(2) fresh(1) by metis
qed

lemma keeps_undo_key:
  assumes ok: "workers_ok st" "tasks_ok st rest" and c: "cw_undo_key fail w e st = (r, st')"
    and t: "deal_of st w = None" "filter_mset (owns_worker w) rest = {#}" "has_key_file st w"
  shows "workers_ok st' \<and> tasks_ok st' rest"
proof -
  note k = only_key_of_inv [OF cw_undo_key_effect [OF c]]
  have "tasks_ok st' rest"
  proof (rule tasks_ok_change [OF ok(2), of w])
    show "deal_of st' v = deal_of st v \<and> has_key_file st' v = has_key_file st v" if "v \<noteq> w" for v
      using k(2) k(3) [OF that] by simp
    show "task_ok st' t'" if "t' \<in># rest" "mentions_worker w t'" "task_ok st t'" for t'
      using that(2,3) no_owner [OF t(2) that(1)] t(1,3) by (cases t') simp_all
  qed
  then show ?thesis using k(1) ok(1) by simp
qed

lemma keeps_register:
  assumes ok: "workers_ok st" "tasks_ok st rest" and c: "cw_register env build w i st = Some (r, st')"
    and t: "deal_of st w = None" "filter_mset (owns_worker w) rest = {#}" "has_key_file st w"
  shows "workers_ok st' \<and> tasks_ok st' rest"
proof (cases r)
  case (Inl e)
  then have "same_registry st st'" using cw_register_Inl c by simp
  then show ?thesis using ok by (simp add: same_registry_inv)
next
  case (Inr n)
  note g = cw_register_Inr [OF c [unfolded Inr]]
  have "tasks_ok st' rest"
  proof (rule tasks_ok_change [OF ok(2), of w])
    show "deal_of st' v = deal_of st v \<and> has_key_file st' v = has_key_file st v" if "v \<noteq> w" for v
      using g that by simp
    show "task_ok st' t'" if "t' \<in># rest" "mentions_worker w t'" "task_ok st t'" for t'
      using that(2,3) no_owner [OF t(2) that(1)] t(1,3) by (cases t') simp_all
  qed
  then show ?thesis using workers_ok_register [OF ok(1) t(1) c [unfolded Inr]] by simp
qed

lemma keeps_remove_key:
  assumes ok: "workers_ok st" "tasks_ok st rest"
    and k: "only_key_of w st st'" "has_key_file st w" "\<not> has_key_file st' w"
    and d: "deal_of st w = Some d"
  shows "workers_ok st'" "tasks_ok st' rest" "filter_mset (owns_worker w) rest = {#}" "deal_of st' w = Some d"
proof -
  note kk = only_key_of_inv [OF k(1)]
  have no: "\<not> owns_worker w t'" if "t' \<in># rest" for t'
  proof -
    have "task_ok st t'" using that ok(2) by (simp add: tasks_ok_def)
    then show ?thesis using k(2) d by (cases t') auto
  qed
  then show "filter_mset (owns_worker w) rest = {#}" by (simp add: filter_mset_eq_mempty_iff)
  show "tasks_ok st' rest"
  proof (rule tasks_ok_change [OF ok(2), of w])
    show "deal_of st' v = deal_of st v \<and> has_key_file st' v = has_key_file st v" if "v \<noteq> w" for v
      using kk(2) kk(3) [OF that] by simp
    show "task_ok st' t'" if "t' \<in># rest" "mentions_worker w t'" "task_ok st t'" for t'
      using that(2) no [OF that(1)] k(3) by (cases t') simp_all
  qed
  show "workers_ok st'" "deal_of st' w = Some d" using kk ok(1) d by simp_all
qed

lemma keeps_remove_maps:
  assumes ok: "workers_ok st" "tasks_ok st rest"
    and k: "\<not> has_key_file st w" "deal_of st w = Some d" "filter_mset (owns_worker w) rest = {#}"
  shows "workers_ok (rw_remove_maps d w st) \<and> tasks_ok (rw_remove_maps d w st) rest"
proof -
  have "tasks_ok (rw_remove_maps d w st) rest"
  proof (rule tasks_ok_change [OF ok(2), of w])
    show "task_ok (rw_remove_maps d w st) t'" if "t' \<in># rest" "mentions_worker w t'" "task_ok st t'" for t'
      using that(2) no_owner [OF k(3) that(1)] k(1) by (cases t') (simp_all add: rw_remove_maps_effect)
  qed (simp add: rw_remove_maps_effect)
  then show ?thesis using workers_ok_remove_maps [OF ok(1) k(2)] by simp
qed

lemma resume_keeps:
  fixes t :: "'e wtask" and rest :: "'e wtask multiset"
  assumes ok: "workers_ok st" "tasks_ok st (add_mset t rest)"
    and ans: "answers_ok env (Resume t ans) \<lparr>ws_workers = st, ws_tasks = add_mset t rest\<rparr>"
    and res: "resume env ans t st = Some (new, st')"
  shows "workers_ok st' \<and> tasks_ok st' (mset new + rest)"
proof -
  have rest: "tasks_ok st rest" and t: "task_ok st t"
    and own: "\<And>w. owns_worker w t \<Longrightarrow> filter_mset (owns_worker w) rest = {#}"
    using ok(2) by (simp_all add: tasks_ok_add)
  show ?thesis
  proof (cases t)
    case (TCreateChecked p)
    define w where "w = WorkerId (kp_peer_id (we_keys env) (ca_key_pair ans))"
    obtain r :: "'e workers_error + worker_id" where c: "cw_create_key env (ca_key_write ans) (ca_key_pair ans) st = (r, st')"
      and new: "new = (case r of Inl _ \<Rightarrow> [] | Inr w \<Rightarrow> [TCreateKeyed p w])"
      using res TCreateChecked by (simp split: prod.splits sum.splits)
    have fresh: "deal_of st w = None" "filter_mset (mentions_worker w) rest = {#}"
      using ans TCreateChecked by (simp_all add: w_def Let_def deal_of_def)
    note k = keeps_create_key [OF ok(1) rest c w_def fresh]
    show ?thesis using k(1,2) k(3) filter_owns_empty [OF fresh(2)] by (cases r) (simp_all add: new tasks_ok_add)
  next
    case (TCreateUndo w e)
    then obtain r where "cw_undo_key (ca_undo_fail ans) w e st = (r, st')" and new: "new = []"
      using res by (simp add: prod_eq_iff)
    then show ?thesis using keeps_undo_key [OF ok(1) rest, where w = w and st' = st'] t own [of w] TCreateUndo by simp
  next
    case (TCreateStored w i)
    then obtain r :: "'e workers_error + nat" where c: "cw_register env (ca_build ans) w i st = Some (r, st')"
      and new: "new = (case r of Inl _ \<Rightarrow> [] | Inr n \<Rightarrow> [TCreateNotify (wi_deal_id i) w n])"
      using res by (simp split: option.splits prod.splits sum.splits)
    then show ?thesis using keeps_register [OF ok(1) rest c] t own [of w] TCreateStored
      by (cases r) (simp_all add: tasks_ok_add)
  next
    case (TRemoveMaps d w)
    then show ?thesis using keeps_remove_maps [OF ok(1) rest, of w d] t own [of w] res by auto
  next
    case (TRemoveKey d w)
    then obtain r :: "'e workers_error + unit" where c: "rw_remove_key (ca_undo_fail ans) w st = (r, st')"
      and new: "new = (case r of Inl _ \<Rightarrow> [] | Inr _ \<Rightarrow> [TRemoveMaps d w])"
      using res by (simp split: prod.splits sum.splits)
    show ?thesis
    proof (cases r)
      case (Inl e)
      then have "same_registry st st'" using rw_remove_key_Inl c by simp
      then show ?thesis using new Inl ok(1) rest by (simp add: same_registry_inv)
    next
      case (Inr u)
      have k: "only_key_of w st st'" "has_key_file st w" "\<not> has_key_file st' w"
        using rw_remove_key_Inr [OF c [unfolded Inr]] by simp_all
      have d: "deal_of st w = Some d" using t TRemoveKey k(2) by simp
      show ?thesis using keeps_remove_key [OF ok(1) rest k d] new Inr k(3) by (simp add: tasks_ok_add)
    qed
  next
    case (TCreateKeyed p w)
    obtain r :: "'e workers_error + worker_info" where c: "store_worker env (ca_info_write ans) w (wp_deal_id p) (wp_creator p) (wp_cu_ids p) st = (r, st')"
      and new: "new = (case r of Inl e \<Rightarrow> [TCreateUndo w e] | Inr i \<Rightarrow> [TCreateStored w i])"
      using res TCreateKeyed by (simp split: prod.splits sum.splits)
    note sr = store_worker_same [OF c]
    show ?thesis using same_registry_facts [OF sr] t own [of w] TCreateKeyed ok(1) rest
      by (cases r) (simp_all add: new tasks_ok_add same_registry_inv [OF sr])
  next
    case (TRemoveFile d w)
    obtain r :: "'e workers_error + unit" where c: "rw_remove_file (ca_undo_fail ans) w st = (r, st')"
      and new: "new = (case r of Inl e \<Rightarrow> [] | Inr i \<Rightarrow> [TRemoveKey d w])"
      using res TRemoveFile by (simp split: prod.splits sum.splits)
    note sr = rw_remove_file_same [OF c]
    show ?thesis using same_registry_facts [OF sr] t TRemoveFile ok(1) rest
      by (cases r) (simp_all add: new tasks_ok_add same_registry_inv [OF sr])
  next
    case (TCreateNotify d w n)
    obtain r :: "'e workers_error + worker_id" where c: "cw_notify True d w n st = (r, st')" and new: "new = []"
      using res ans TCreateNotify by (simp split: prod.splits)
    show ?thesis using ok(1) rest new by (simp add: same_registry_inv [OF cw_notify_sent_same [OF c]])
  next
    case (TStatus w pw)
    obtain r :: "'e workers_error + unit" where c: "sw_persist env (ca_info_write ans) w pw st = (r, st')" and new: "new = []"
      using res TStatus by (simp add: prod_eq_iff)
    show ?thesis using ok(1) rest new by (simp add: same_registry_inv [OF sw_persist_same [OF c]])
  qed
qed

lemma wsystem_step_inv:
  fixes s :: "('kp, 'rt, 's, 'e) wsystem"
  assumes "wsystem_inv s" "wsystem_step env s l t"
  shows "wsystem_inv t"
proof -
  have ok: "workers_ok (ws_workers s)" "tasks_ok (ws_workers s) (ws_tasks s)" using assms(1) by (simp_all add: wsystem_inv_def)
  have n: "wsystem_next env l s = Some t" and a: "answers_ok env l s" using assms(2) by (simp_all add: wsystem_step_def)
  show ?thesis
  proof (cases l)
    case (CallCreate p)
    then show ?thesis using n ok by (auto simp: wsystem_inv_def tasks_ok_add split: sum.splits)
  next
    case (CallRemove w sent)
    obtain r :: "'e workers_error + deal_id" and st' where c: "rw_notify sent w (ws_workers s) = (r, st')" by fastforce
    note sr = rw_notify_same [OF c]
    show ?thesis
    proof (cases r)
      case (Inl e)
      then show ?thesis using n c CallRemove ok by (auto simp: same_registry_inv [OF sr] wsystem_inv_def)
    next
      case (Inr d)
      have "deal_of st' w = Some d" using rw_notify_Inr [OF c [unfolded Inr]] same_registry_facts [OF sr] by simp
      then show ?thesis using n c CallRemove Inr ok by (auto simp: same_registry_inv [OF sr] wsystem_inv_def tasks_ok_add)
    qed
  next
    case (CallStatus w status)
    obtain r :: "'e workers_error + persisted_worker" and st' where c: "sw_set w status (ws_workers s) = (r, st')" by fastforce
    note e = sw_set_effect [OF c]
    have "workers_ok st'"
      using ok(1) e by (intro workers_ok_cong [of st' "ws_workers s"]) (simp_all add: workers_ok_def)
    moreover have "tasks_ok st' (ws_tasks s)" using ok(2) by (simp add: tasks_ok_cong [OF e(2,3)])
    moreover have "t = s\<lparr>ws_workers := st'\<rparr> \<or> (\<exists>pw. t = s\<lparr>ws_workers := st', ws_tasks := add_mset (TStatus w pw) (ws_tasks s)\<rparr>)"
      using n c CallStatus by (cases r) auto
    ultimately show ?thesis by (elim disjE exE) (simp_all add: wsystem_inv_def tasks_ok_add)
  next
    case CallShutdown
    have "workers_ok (shutdown (ws_workers s))" by (rule workers_ok_shutdown [OF ok(1)])
    then show ?thesis using n CallShutdown ok(2) by (auto simp: wsystem_inv_def tasks_ok_cong [OF shutdown_effect(2,3)])
  next
    case (Resume u ans)
    then obtain new st' where u: "u \<in># ws_tasks s" and r: "resume env ans u (ws_workers s) = Some (new, st')"
      and t: "t = s\<lparr>ws_workers := st', ws_tasks := mset new + (ws_tasks s - {#u#})\<rparr>"
      using n by (auto split: if_splits)
    have e: "add_mset u (ws_tasks s - {#u#}) = ws_tasks s" using u by simp
    have a': "answers_ok env (Resume u ans) \<lparr>ws_workers = ws_workers s, ws_tasks = add_mset u (ws_tasks s - {#u#})\<rparr>"
      using a Resume unfolding e by (cases s) simp
    have "workers_ok st' \<and> tasks_ok st' (mset new + (ws_tasks s - {#u#}))"
      by (rule resume_keeps [OF ok(1) _ a' r]) (use ok(2) e in simp)
    then show ?thesis by (simp add: t wsystem_inv_def)
  qed
qed

interpretation wsys: invariant_system wsystem_start "wsystem_step env" wsystem_inv for env
proof
  show "wsystem_inv s" if "wsystem_start s" for s
    using that by (simp add: wsystem_start_def wsystem_inv_def)
  show "wsystem_inv t" if "wsystem_inv s" "wsystem_step env s l t" for s l t
    using that by (rule wsystem_step_inv)
qed

section \<open>Properties\<close>


text \<open>An executable run of the system, and a run in which two calls create a worker for one deal.\<close>

fun wsystem_run ::
    "('kp, 'fmt, 'e, 's) workers_env \<Rightarrow> ('kp, 'rt, 'e) wlabel list \<Rightarrow> ('kp, 'rt, 's, 'e) wsystem
      \<Rightarrow> ('kp, 'rt, 's, 'e) wsystem option" where
  "wsystem_run env [] s = Some s"
| "wsystem_run env (l # ls) s =
     (if answers_ok env l s then Option.bind (wsystem_next env l s) (wsystem_run env ls) else None)"

lemma wsystem_run_reachable:
  "wsystem_run env ls s = Some t \<Longrightarrow> reachable wsystem_start (wsystem_step env) s
     \<Longrightarrow> reachable wsystem_start (wsystem_step env) t"
proof (induction ls arbitrary: s)
  case (Cons l ls)
  then obtain u where "wsystem_step env s l u" "wsystem_run env ls u = Some t"
    by (auto simp: wsystem_step_def bind_eq_Some_conv split: if_splits)
  then show ?case using Cons reach_step by metis
qed simp

definition demo_deal :: deal_id where
  "demo_deal = DealId ''ab''"

definition demo_persisted :: persisted_worker where
  "demo_persisted = \<lparr>pw_worker_id = WorkerId ''w1'', pw_creator = ''p'', pw_deal_id = ''ab'', pw_active = True, pw_cu_ids = []\<rparr>"

definition demo_env :: "(string, unit, unit, nat) workers_env" where
  "demo_env = \<lparr>we_keys = demo_keys, 
     we_ser = (\<lambda>pw. if pw = demo_persisted then Inr ''t''
                   else if pw = demo_persisted\<lparr>pw_worker_id := WorkerId ''w2''\<rparr> then Inr ''u'' else Inl ()),
     we_de = (\<lambda>t. if t = ''t'' then Inr demo_persisted
                  else if t = ''u'' then Inr (demo_persisted\<lparr>pw_worker_id := WorkerId ''w2''\<rparr>) else Inl ()),
     we_acquire = (\<lambda>_ n. Some (Inr assignment_empty, n + 1))\<rparr>"

definition demo_answers :: "string \<Rightarrow> (string, nat, unit) create_answers" where
  "demo_answers kp = \<lparr>ca_key_pair = kp, ca_key_write = WriteOk, ca_info_write = WriteOk, ca_undo_fail = None,
     ca_build = (\<lambda>n. Some (Inr n)), ca_sent = True\<rparr>"

definition demo_workers :: "(string, nat, nat) workers" where
  "demo_workers = \<lparr>worker_ids = Map.empty, worker_infos = [], workers_dir = Map.empty,
     w_key_storage = \<lparr>worker_key_pairs = Map.empty, key_pairs_dir = Map.empty, root_key_pair = ''host''\<rparr>,
     runtimes = [], w_core_manager = 0, runtime_counter = 0, sent_events = []\<rparr>"

definition demo_params :: worker_params where
  "demo_params = worker_params_new demo_deal ''p'' []"

definition demo_info :: worker_info where
  "demo_info = \<lparr>wi_deal_id = demo_deal, wi_creator = ''p'', wi_active = True, wi_cu_ids = []\<rparr>"

definition demo_race :: "(string, nat, unit) wlabel list" where
  "demo_race = [CallCreate demo_params, CallCreate demo_params,
     Resume (TCreateChecked demo_params) (demo_answers ''w1''),
     Resume (TCreateChecked demo_params) (demo_answers ''w2''),
     Resume (TCreateKeyed demo_params (WorkerId ''w1'')) (demo_answers ''w1''),
     Resume (TCreateStored (WorkerId ''w1'') demo_info) (demo_answers ''w1''),
     Resume (TCreateNotify demo_deal (WorkerId ''w1'') 0) (demo_answers ''w1''),
     Resume (TCreateKeyed demo_params (WorkerId ''w2'')) (demo_answers ''w2''),
     Resume (TCreateStored (WorkerId ''w2'') demo_info) (demo_answers ''w2'')]"

lemmas demo_eval = demo_params_def worker_params_new_def demo_workers_def demo_answers_def demo_env_def demo_info_def
  cw_check_def cw_create_key_def create_key_pair_def persisted_keypair_try_from_def persist_keypair_def demo_keys_def
  keypair_file_name_def worker_file_name_def worker_id_fmt_def Let_def store_worker_def persist_worker_def
  cw_register_def build_runtime_def cw_notify_def list_workers_def get_deal_id_def has_key_file_def
  assignment_empty_def hm_insert_def hm_keys_def hm_get_def demo_deal_def deal_id_into_def demo_persisted_def


end
