(* ===== verification/Core_Dev.thy ===== *)
theory Core_Dev
  imports Core_Strict
begin

text \<open>
  The development core manager, \<^verbatim>\<open>crates/core-manager/src/dev.rs\<close>, where several compute units may
  share a physical core and cores are handed out round robin, and the dummy manager,
  \<^verbatim>\<open>crates/core-manager/src/dummy.rs\<close>.  As in the strict manager the state is the contents of the
  lock and every operation is one step.
\<close>

section \<open>State, construction and persistence\<close>

type_synonym 'u unit_multimap = "('u, physical_core_id, cuid) multimap_api"

record ('m, 'u) dev_state =
  ds_cores_mapping :: 'm
  ds_system_cores :: "physical_core_id set"
  ds_available_cores :: "physical_core_id list"
  ds_core_unit_id_mapping :: 'u
  ds_unit_id_core_mapping :: "cuid \<rightharpoonup> physical_core_id"
  ds_work_type_mapping :: "(cuid, work_type) hash_map"
  ds_notified :: bool

definition dev_make_instance ::
    "'m \<Rightarrow> physical_core_id set \<Rightarrow> physical_core_id list \<Rightarrow> 'u \<Rightarrow> (cuid \<rightharpoonup> physical_core_id)
      \<Rightarrow> (cuid, work_type) hash_map \<Rightarrow> ('m, 'u) dev_state" where
  "dev_make_instance m sys av cu uc wt =
     \<lparr>ds_cores_mapping = m, ds_system_cores = sys, ds_available_cores = av, ds_core_unit_id_mapping = cu,
      ds_unit_id_core_mapping = uc, ds_work_type_mapping = wt, ds_notified = False\<rparr>"

definition dev_new ::
    "'r range_api \<Rightarrow> 'm core_multimap \<Rightarrow> 'u unit_multimap \<Rightarrow> 'te + 'te topology \<Rightarrow> nat \<Rightarrow> 'r
      \<Rightarrow> ('te create_error + ('m, 'u) dev_state) option" where
  "dev_new rs mm um topology system_cpu_count core_range =
     (let available_core_count = rs_len rs core_range mod 2 ^ 64 in
      if system_cpu_count = 0 then Some (Inl IllegalSystemCoreCount)
      else if available_core_count < system_cpu_count
      then Some (Inl (NotEnoughCores available_core_count system_cpu_count))
      else case topology of
        Inl e \<Rightarrow> Some (Inl (CreateTopology e))
      | Inr topo \<Rightarrow> (case topo_physical_cores topo of
          Inl e \<Rightarrow> Some (Inl (CollectCoresData e))
        | Inr physical_cores \<Rightarrow>
            (case collect_cores rs core_range mm topo physical_cores (mm_new mm, {}) of
              Inl e \<Rightarrow> Some (Inl e)
            | Inr (cores_mapping, available_cores) \<Rightarrow>
                (case take_system_cores system_cpu_count available_cores {} of
                  None \<Rightarrow> None
                | Some (available_cores', system_cores) \<Rightarrow>
                    Some (Inr (dev_make_instance cores_mapping system_cores
                      (sorted_list_of_set available_cores') (mm_new um) Map.empty []))))))"

definition dev_to_persistent ::
    "'m core_multimap \<Rightarrow> 'u unit_multimap \<Rightarrow> ('m, 'u) dev_state \<Rightarrow> persistent_state" where
  "dev_to_persistent mm um st =
     \<lparr>ps_cores_mapping = mm_iter mm (ds_cores_mapping st),
      ps_system_cores = sorted_list_of_set (ds_system_cores st),
      ps_available_cores = ds_available_cores st,
      ps_unit_id_mapping = mm_iter um (ds_core_unit_id_mapping st),
      ps_work_type_mapping = ds_work_type_mapping st\<rparr>"

definition dev_from_persistent ::
    "'m core_multimap \<Rightarrow> 'u unit_multimap \<Rightarrow> persistent_state \<Rightarrow> ('m, 'u) dev_state" where
  "dev_from_persistent mm um ps =
     dev_make_instance
       (fold (\<lambda>(k, v). mm_insert mm k v) (ps_cores_mapping ps) (mm_new mm))
       (set (ps_system_cores ps)) (ps_available_cores ps)
       (fold (\<lambda>(k, v). mm_insert um k v) (ps_unit_id_mapping ps) (mm_new um))
       (fold (\<lambda>(core_id, unit_id) m. m(unit_id \<mapsto> core_id)) (ps_unit_id_mapping ps) Map.empty)
       (fold (\<lambda>(k, v). hm_insert k v) (ps_work_type_mapping ps) [])"

definition dev_persist ::
    "'m core_multimap \<Rightarrow> 'u unit_multimap \<Rightarrow> ('io, 'utf, 'de, 'ser) core_file_io \<Rightarrow> ('m, 'u) dev_state
      \<Rightarrow> string option \<Rightarrow> (('io, 'ser) persist_error + unit) \<times> string option" where
  "dev_persist mm um io st file = persist_state io (dev_to_persistent mm um st) file"

definition dev_create_and_persist ::
    "'r range_api \<Rightarrow> 'm core_multimap \<Rightarrow> 'u unit_multimap \<Rightarrow> ('io, 'utf, 'de, 'ser) core_file_io
      \<Rightarrow> 'te + 'te topology \<Rightarrow> nat \<Rightarrow> 'r \<Rightarrow> string option
      \<Rightarrow> ((('te, 'io, 'utf, 'de, 'ser) loading_error + ('m, 'u) dev_state) \<times> string option) option" where
  "dev_create_and_persist rs mm um io topology system_cpu_count core_range file =
     (case dev_new rs mm um topology system_cpu_count core_range of
        None \<Rightarrow> None
      | Some (Inl e) \<Rightarrow> Some (Inl (CreateCoreManager e), file)
      | Some (Inr st) \<Rightarrow>
          (case dev_persist mm um io st file of
             (Inl e, file') \<Rightarrow> Some (Inl (LoadPersistError e), file')
           | (Inr _, file') \<Rightarrow> Some (Inr st, file')))"

definition dev_from_path ::
    "'r range_api \<Rightarrow> 'm core_multimap \<Rightarrow> 'u unit_multimap \<Rightarrow> ('io, 'utf, 'de, 'ser) core_file_io
      \<Rightarrow> 'te + 'te topology \<Rightarrow> nat \<Rightarrow> 'r \<Rightarrow> string option
      \<Rightarrow> ((('te, 'io, 'utf, 'de, 'ser) loading_error + ('m, 'u) dev_state) \<times> string option) option" where
  "dev_from_path rs mm um io topology system_cpu_count core_range file =
     (case file of
        None \<Rightarrow> dev_create_and_persist rs mm um io topology system_cpu_count core_range file
      | Some bytes \<Rightarrow>
          (case cf_read_err io of
             Some e \<Rightarrow> Some (Inl (LoadIoError e), file)
           | None \<Rightarrow> (case cf_utf8_err io bytes of
               Some e \<Rightarrow> Some (Inl (DecodeError e), file)
             | None \<Rightarrow> (case cf_toml_de io bytes of
                 Inl e \<Rightarrow> Some (Inl (DeserializationError e), file)
               | Inr ps \<Rightarrow>
                   if rs_eq rs core_range (loaded_range rs ps) \<and> length (ps_system_cores ps) = system_cpu_count
                   then Some (Inr (dev_from_persistent mm um ps), file)
                   else dev_create_and_persist rs mm um io topology system_cpu_count core_range file))))"

section \<open>Acquiring and releasing\<close>

text \<open>A unit without a core takes the one at the head of the queue, which goes to its end.\<close>

definition dev_assign_unit ::
    "'u unit_multimap \<Rightarrow> work_type \<Rightarrow> cuid \<Rightarrow> ('m, 'u) dev_state
      \<Rightarrow> (physical_core_id \<times> ('m, 'u) dev_state) option" where
  "dev_assign_unit um worker_unit_type unit_id st =
     (case ds_unit_id_core_mapping st unit_id of
        None \<Rightarrow>
          (case ds_available_cores st of
             [] \<Rightarrow> None
           | core_id # rest \<Rightarrow>
               Some (core_id, st\<lparr>ds_core_unit_id_mapping := mm_insert um core_id unit_id (ds_core_unit_id_mapping st),
                 ds_unit_id_core_mapping := (ds_unit_id_core_mapping st)(unit_id \<mapsto> core_id),
                 ds_work_type_mapping := hm_insert unit_id worker_unit_type (ds_work_type_mapping st),
                 ds_available_cores := rest @ [core_id]\<rparr>))
      | Some core_id \<Rightarrow>
          Some (core_id, st\<lparr>ds_work_type_mapping := hm_insert unit_id worker_unit_type (ds_work_type_mapping st)\<rparr>))"

fun dev_acquire_loop ::
    "'m core_multimap \<Rightarrow> 'u unit_multimap \<Rightarrow> work_type \<Rightarrow> cuid list \<Rightarrow> ('m, 'u) dev_state \<Rightarrow> assignment
      \<Rightarrow> (assignment \<times> ('m, 'u) dev_state) option" where
  "dev_acquire_loop mm um t [] st a = Some (a, st)"
| "dev_acquire_loop mm um t (u # us) st a =
     (case dev_assign_unit um t u st of
        None \<Rightarrow> None
      | Some (core, st') \<Rightarrow>
          (case mm_get_vec mm (ds_cores_mapping st') core of
             None \<Rightarrow> None
           | Some logical \<Rightarrow> dev_acquire_loop mm um t us st' (assignment_add u core logical a)))"

definition dev_acquire ::
    "'m core_multimap \<Rightarrow> 'u unit_multimap \<Rightarrow> acquire_request \<Rightarrow> ('m, 'u) dev_state
      \<Rightarrow> ((acquire_error + assignment) \<times> ('m, 'u) dev_state) option" where
  "dev_acquire mm um req st =
     (case dev_acquire_loop mm um (worker_type req) (unit_ids req) st assignment_empty of
        None \<Rightarrow> None
      | Some (a, st') \<Rightarrow> Some (Inr a, st'\<lparr>ds_notified := True\<rparr>))"

text \<open>
  \<^verbatim>\<open>release\<close> finds the position of the unit in the vector of its core; the \<^verbatim>\<open>unwrap\<close> panics if it is
  not there.
\<close>

definition dev_release_unit ::
    "'u unit_multimap \<Rightarrow> cuid \<Rightarrow> ('m, 'u) dev_state \<Rightarrow> ('m, 'u) dev_state option" where
  "dev_release_unit um unit_id st =
     (case ds_unit_id_core_mapping st unit_id of
        None \<Rightarrow> Some st
      | Some core \<Rightarrow>
          (let st1 = st\<lparr>ds_unit_id_core_mapping := (ds_unit_id_core_mapping st)(unit_id := None),
                        ds_work_type_mapping := hm_remove unit_id (ds_work_type_mapping st)\<rparr> in
           case mm_get_vec um (ds_core_unit_id_mapping st) core of
             None \<Rightarrow> Some st1
           | Some mapping \<Rightarrow>
               if unit_id \<in> set mapping
               then let mapping' = remove1 unit_id mapping;
                        cu = mm_set_vec um core mapping' (ds_core_unit_id_mapping st)
                    in Some (st1\<lparr>ds_core_unit_id_mapping := if mapping' = [] then mm_remove um core cu else cu\<rparr>)
               else None))"

fun dev_release :: "'u unit_multimap \<Rightarrow> cuid list \<Rightarrow> ('m, 'u) dev_state \<Rightarrow> ('m, 'u) dev_state option" where
  "dev_release um [] st = Some st"
| "dev_release um (u # us) st = Option.bind (dev_release_unit um u st) (dev_release um us)"

definition dev_get_system_cpu_assignment :: "'m core_multimap \<Rightarrow> ('m, 'u) dev_state \<Rightarrow> assignment option" where
  "dev_get_system_cpu_assignment mm st =
     (if \<forall>c \<in> ds_system_cores st. mm_get_vec mm (ds_cores_mapping st) c \<noteq> None
      then Some \<lparr>physical_core_ids = ds_system_cores st,
             logical_core_ids = (\<Union>c \<in> ds_system_cores st. set (the (mm_get_vec mm (ds_cores_mapping st) c))),
             cuid_cores = Map.empty\<rparr>
      else None)"

section \<open>The dummy manager\<close>

text \<open>
  \<^verbatim>\<open>num_cpus\<close> and the random choice are parameters: \<open>pick n xs\<close> is what \<^verbatim>\<open>choose_multiple\<close> picks.
\<close>

definition dummy_all_cores :: "nat \<Rightarrow> nat \<Rightarrow> assignment" where
  "dummy_all_cores num_physical num_logical =
     \<lparr>physical_core_ids = set (map of_nat [0..<num_physical]),
      logical_core_ids = set (map of_nat [0..<num_logical]), cuid_cores = Map.empty\<rparr>"

definition dummy_acquire ::
    "nat \<Rightarrow> nat \<Rightarrow> (nat \<Rightarrow> logical_core_id list \<Rightarrow> logical_core_id list) \<Rightarrow> acquire_request
      \<Rightarrow> acquire_error + assignment" where
  "dummy_acquire num_physical num_logical pick req =
     Inr \<lparr>physical_core_ids = {},
       logical_core_ids = set (pick (length (unit_ids req))
         (sorted_list_of_set (logical_core_ids (dummy_all_cores num_physical num_logical)))),
       cuid_cores = Map.empty\<rparr>"

definition dummy_get_system_cpu_assignment :: "nat \<Rightarrow> nat \<Rightarrow> assignment" where
  "dummy_get_system_cpu_assignment num_physical num_logical = dummy_all_cores num_physical num_logical"

section \<open>The invariant\<close>

definition dev_held :: "('m, 'u) dev_state \<Rightarrow> cuid \<Rightarrow> physical_core_id option" where
  "dev_held st = ds_unit_id_core_mapping st"

definition dev_units :: "'u unit_multimap \<Rightarrow> ('m, 'u) dev_state \<Rightarrow> physical_core_id \<Rightarrow> cuid list" where
  "dev_units um st c = (case mm_get_vec um (ds_core_unit_id_mapping st) c of None \<Rightarrow> [] | Some us \<Rightarrow> us)"

text \<open>
  The queue is not empty, has no core twice and is, with the system cores, all known cores; held cores
  are in the queue; the units listed for a core are those that hold it; work types are recorded for
  exactly the units that hold a core.
\<close>

definition dev_inv :: "'m core_multimap \<Rightarrow> 'u unit_multimap \<Rightarrow> ('m, 'u) dev_state \<Rightarrow> bool" where
  "dev_inv mm um st \<longleftrightarrow>
     multimap_laws mm \<and> multimap_laws um
   \<and> finite (ds_system_cores st) \<and> ds_available_cores st \<noteq> [] \<and> distinct (ds_available_cores st)
   \<and> set (ds_available_cores st) \<inter> ds_system_cores st = {}
   \<and> set (ds_available_cores st) \<union> ds_system_cores st = mapped_cores mm (ds_cores_mapping st)
   \<and> no_empty_vec mm (ds_cores_mapping st)
   \<and> (\<forall>u c. dev_held st u = Some c \<longrightarrow> c \<in> set (ds_available_cores st))
   \<and> (\<forall>c. distinct (dev_units um st c) \<and> set (dev_units um st c) = {u. dev_held st u = Some c})
   \<and> (\<forall>c. mm_get_vec um (ds_core_unit_id_mapping st) c \<noteq> Some [])
   \<and> hm_ok (ds_work_type_mapping st)
   \<and> (\<forall>u. hm_get (ds_work_type_mapping st) u \<noteq> None \<longleftrightarrow> dev_held st u \<noteq> None)"

lemma dev_inv_laws: "dev_inv mm um st \<Longrightarrow> multimap_laws mm" "dev_inv mm um st \<Longrightarrow> multimap_laws um"
  by (simp_all add: dev_inv_def)

lemma dev_invI:
  assumes "multimap_laws mm" "multimap_laws um" "finite (ds_system_cores st)" "ds_available_cores st \<noteq> []"
    "distinct (ds_available_cores st)" "set (ds_available_cores st) \<inter> ds_system_cores st = {}"
    "set (ds_available_cores st) \<union> ds_system_cores st = mapped_cores mm (ds_cores_mapping st)"
    "no_empty_vec mm (ds_cores_mapping st)"
    "\<And>u c. dev_held st u = Some c \<Longrightarrow> c \<in> set (ds_available_cores st)"
    "\<And>c. distinct (dev_units um st c)" "\<And>c. set (dev_units um st c) = {u. dev_held st u = Some c}"
    "\<And>c. mm_get_vec um (ds_core_unit_id_mapping st) c \<noteq> Some []"
    "hm_ok (ds_work_type_mapping st)"
    "\<And>u. hm_get (ds_work_type_mapping st) u \<noteq> None \<longleftrightarrow> dev_held st u \<noteq> None"
  shows "dev_inv mm um st"
  using assms unfolding dev_inv_def by blast

lemma dev_invD:
  assumes "dev_inv mm um st"
  shows "finite (ds_system_cores st)" "ds_available_cores st \<noteq> []" "distinct (ds_available_cores st)"
    "set (ds_available_cores st) \<inter> ds_system_cores st = {}"
    "set (ds_available_cores st) \<union> ds_system_cores st = mapped_cores mm (ds_cores_mapping st)"
    "no_empty_vec mm (ds_cores_mapping st)"
    "dev_held st u = Some c \<Longrightarrow> c \<in> set (ds_available_cores st)"
    "distinct (dev_units um st c)" "set (dev_units um st c) = {u. dev_held st u = Some c}"
    "mm_get_vec um (ds_core_unit_id_mapping st) c \<noteq> Some []"
    "hm_ok (ds_work_type_mapping st)"
    "hm_get (ds_work_type_mapping st) u \<noteq> None \<longleftrightarrow> dev_held st u \<noteq> None"
  using assms unfolding dev_inv_def by simp_all

lemma dev_held_mapped:
  assumes "dev_inv mm um st" "dev_held st u = Some c"
  shows "\<exists>l ls. mm_get_vec mm (ds_cores_mapping st) c = Some (l # ls)"
proof -
  have "c \<in> mapped_cores mm (ds_cores_mapping st)" using dev_invD(5,7) [OF assms(1)] assms(2) by blast
  then have "mm_get_vec mm (ds_cores_mapping st) c \<noteq> None" "mm_get_vec mm (ds_cores_mapping st) c \<noteq> Some []"
    using dev_invD(6) [OF assms(1)] by (simp_all add: mapped_cores_def no_empty_vec_def)
  then show ?thesis by (auto simp: neq_Nil_conv)
qed

lemma dev_assign_unit_ok:
  assumes inv: "dev_inv mm um st"
  obtains c st' where "dev_assign_unit um t u st = Some (c, st')" "dev_inv mm um st'"
    "dev_held st' = (dev_held st)(u \<mapsto> c)"
    "dev_held st u = None \<or> dev_held st u = Some c"
    "ds_available_cores st' = (if dev_held st u = None then rotate1 (ds_available_cores st) else ds_available_cores st)"
    "dev_held st u = None \<Longrightarrow> c = hd (ds_available_cores st)"
    "ds_cores_mapping st' = ds_cores_mapping st" "ds_system_cores st' = ds_system_cores st"
    "ds_work_type_mapping st' = hm_insert u t (ds_work_type_mapping st)"
proof (cases "dev_held st u")
  case None
  note ul = dev_inv_laws(2) [OF inv]
  obtain c rest where av: "ds_available_cores st = c # rest" using dev_invD(2) [OF inv] by (cases "ds_available_cores st") auto
  let ?st = "st\<lparr>ds_core_unit_id_mapping := mm_insert um c u (ds_core_unit_id_mapping st),
      ds_unit_id_core_mapping := (ds_unit_id_core_mapping st)(u \<mapsto> c),
      ds_work_type_mapping := hm_insert u t (ds_work_type_mapping st), ds_available_cores := rest @ [c]\<rparr>"
  have asg: "dev_assign_unit um t u st = Some (c, ?st)"
    using None av by (simp add: dev_assign_unit_def dev_held_def)
  have held: "dev_held ?st = (dev_held st)(u \<mapsto> c)" by (simp add: dev_held_def)
  have vec: "mm_get_vec um (ds_core_unit_id_mapping ?st) d =
      (if d = c then Some (dev_units um st c @ [u]) else mm_get_vec um (ds_core_unit_id_mapping st) d)" for d
    using multimap_lawsD(2) [OF ul, of c u "ds_core_unit_id_mapping st" d] by (simp add: dev_units_def)
  then have units: "dev_units um ?st d = (if d = c then dev_units um st c @ [u] else dev_units um st d)" for d
    by (simp add: dev_units_def)
  have nu: "u \<notin> set (dev_units um st d)" for d using dev_invD(9) [OF inv, of d] None by simp
  have inv': "dev_inv mm um ?st"
  proof (rule dev_invI, goal_cases)
    case (9 v d)
    then show ?case using dev_invD(7) [OF inv, of v d] av by (auto simp: held split: if_splits)
  next
    case (10 d)
    then show ?case using dev_invD(8) [OF inv] nu by (simp add: units)
  next
    case (11 d)
    then show ?case using dev_invD(9) [OF inv] None by (auto simp: units held)
  next
    case (12 d)
    then show ?case using dev_invD(10) [OF inv] by (simp only: vec) simp
  next
    case (14 v)
    then show ?case using dev_invD(12) [OF inv, of v] by (simp add: held)
  qed (use dev_inv_laws [OF inv] dev_invD [OF inv] av in \<open>auto\<close>)
  show ?thesis
    by (rule that [OF asg inv' held]) (use None av in simp_all)
next
  case (Some c)
  let ?st = "st\<lparr>ds_work_type_mapping := hm_insert u t (ds_work_type_mapping st)\<rparr>"
  have asg: "dev_assign_unit um t u st = Some (c, ?st)" using Some by (simp add: dev_assign_unit_def dev_held_def)
  have held: "dev_held ?st = dev_held st" "dev_units um ?st = dev_units um st"
    by (simp_all add: dev_held_def dev_units_def fun_eq_iff)
  have inv': "dev_inv mm um ?st" using inv Some unfolding dev_inv_def held by simp
  show ?thesis
    by (rule that [OF asg inv']) (use Some held in \<open>auto simp: fun_eq_iff\<close>)
qed

text \<open>The units of a request that get a new core, in the order the loop meets them.\<close>

fun fresh_units :: "(cuid \<Rightarrow> bool) \<Rightarrow> cuid list \<Rightarrow> cuid list" where
  "fresh_units has [] = []"
| "fresh_units has (u # us) = (if has u then fresh_units has us else u # fresh_units (has(u := True)) us)"

lemma dev_acquire_loop_ok:
  assumes "dev_inv mm um st"
  shows "\<exists>st'. dev_acquire_loop mm um t us st a =
       Some (assignment_join a (assignment_for (mm_get_vec mm (ds_cores_mapping st)) (dev_held st') us), st')
     \<and> dev_inv mm um st'
     \<and> ds_cores_mapping st' = ds_cores_mapping st \<and> ds_system_cores st' = ds_system_cores st
     \<and> (\<forall>u. dev_held st u \<noteq> None \<or> u \<notin> set us \<longrightarrow> dev_held st' u = dev_held st u)
     \<and> (\<forall>u \<in> set us. dev_held st' u \<noteq> None)
     \<and> (\<forall>u. hm_get (ds_work_type_mapping st') u =
          (if u \<in> set us then Some t else hm_get (ds_work_type_mapping st) u))
     \<and> (let fresh = fresh_units (\<lambda>u. dev_held st u \<noteq> None) us; q = ds_available_cores st in
          ds_available_cores st' = rotate (length fresh) q
        \<and> (\<forall>i < length fresh. dev_held st' (fresh ! i) = Some (q ! (i mod length q))))"
  using assms
proof (induction us arbitrary: st a)
  case Nil
  then show ?case by simp
next
  case (Cons u us)
  obtain c st1 where asg: "dev_assign_unit um t u st = Some (c, st1)" "dev_inv mm um st1"
    and held1: "dev_held st1 = (dev_held st)(u \<mapsto> c)" "dev_held st u = None \<or> dev_held st u = Some c"
    and q1: "ds_available_cores st1 = (if dev_held st u = None then rotate1 (ds_available_cores st) else ds_available_cores st)"
    and hd: "dev_held st u = None \<Longrightarrow> c = hd (ds_available_cores st)"
    and fr: "ds_cores_mapping st1 = ds_cores_mapping st" "ds_system_cores st1 = ds_system_cores st"
      "ds_work_type_mapping st1 = hm_insert u t (ds_work_type_mapping st)"
    using dev_assign_unit_ok [OF Cons.prems, of t u] by metis
  have hu1: "dev_held st1 u = Some c" using held1(1) by simp
  then obtain l ls where vec: "mm_get_vec mm (ds_cores_mapping st1) c = Some (l # ls)"
    using dev_held_mapped [OF asg(2)] by blast
  let ?f1 = "fresh_units (\<lambda>u. dev_held st1 u \<noteq> None) us" and ?q1 = "ds_available_cores st1"
  let ?f = "fresh_units (\<lambda>u. dev_held st u \<noteq> None) (u # us)" and ?q = "ds_available_cores st"
  from Cons.IH [OF asg(2), of "assignment_add u c (l # ls) a"] obtain st' where
    loop: "dev_acquire_loop mm um t us st1 (assignment_add u c (l # ls) a) =
       Some (assignment_join (assignment_add u c (l # ls) a)
         (assignment_for (mm_get_vec mm (ds_cores_mapping st1)) (dev_held st') us), st')"
    and inv': "dev_inv mm um st'"
    and fr': "ds_cores_mapping st' = ds_cores_mapping st1" "ds_system_cores st' = ds_system_cores st1"
    and held': "\<forall>v. dev_held st1 v \<noteq> None \<or> v \<notin> set us \<longrightarrow> dev_held st' v = dev_held st1 v"
      "\<forall>v \<in> set us. dev_held st' v \<noteq> None"
    and wt': "\<forall>v. hm_get (ds_work_type_mapping st') v =
          (if v \<in> set us then Some t else hm_get (ds_work_type_mapping st1) v)"
    and q': "ds_available_cores st' = rotate (length ?f1) ?q1"
      "\<forall>i < length ?f1. dev_held st' (?f1 ! i) = Some (?q1 ! (i mod length ?q1))"
    unfolding Let_def by blast
  have hu: "dev_held st' u = Some c" using held'(1) hu1 by simp
  have "dev_acquire_loop mm um t (u # us) st a =
      Some (assignment_join a (assignment_for (mm_get_vec mm (ds_cores_mapping st)) (dev_held st') (u # us)), st')"
    using asg(1) vec loop fr(1)
      assignment_join_add [where held = "dev_held st'" and vec = "mm_get_vec mm (ds_cores_mapping st1)", OF hu vec] by simp
  moreover have "dev_held st v \<noteq> None \<or> v \<notin> set (u # us) \<Longrightarrow> dev_held st' v = dev_held st v" for v
    using held'(1) held1 by (cases "v = u") (auto simp: hu)
  moreover have "v \<in> set (u # us) \<Longrightarrow> dev_held st' v \<noteq> None" for v
    using held'(2) hu by auto
  moreover have "hm_get (ds_work_type_mapping st') v =
      (if v \<in> set (u # us) then Some t else hm_get (ds_work_type_mapping st) v)" for v
    using wt' fr(3) by simp
  moreover have "ds_available_cores st' = rotate (length ?f) ?q
      \<and> (\<forall>i < length ?f. dev_held st' (?f ! i) = Some (?q ! (i mod length ?q)))"
  proof (cases "dev_held st u")
    case None
    have has: "(\<lambda>v. dev_held st1 v \<noteq> None) = (\<lambda>v. dev_held st v \<noteq> None)(u := True)" using held1(1) by auto
    have f: "?f = u # ?f1" unfolding has using None by simp
    have r: "?q1 = rotate1 ?q" using q1 None by simp
    have ne: "?q \<noteq> []" by (rule dev_invD(2) [OF Cons.prems])
    have "dev_held st' (?f ! i) = Some (?q ! (i mod length ?q))" if "i < length ?f" for i
    proof (cases i)
      case 0
      then show ?thesis using f hu hd [OF None] ne by (simp add: hd_conv_nth)
    next
      case (Suc j)
      then have "dev_held st' (?f1 ! j) = Some (rotate1 ?q ! (j mod length ?q))" using q'(2) that f r by simp
      moreover have "rotate1 ?q ! (j mod length ?q) = ?q ! (Suc j mod length ?q)"
        using ne by (simp add: nth_rotate1 mod_Suc_eq)
      ultimately show ?thesis using Suc f by simp
    qed
    then show ?thesis using q'(1) f r by (simp add: rotate1_rotate_swap)
  next
    case (Some d)
    then have "(\<lambda>v. dev_held st1 v \<noteq> None) = (\<lambda>v. dev_held st v \<noteq> None)" using held1 by auto
    then show ?thesis using Some q' q1 by simp
  qed
  ultimately show ?case using inv' fr fr'
    unfolding Let_def by (intro exI [of _ st'] conjI allI ballI impI) simp_all
qed

lemma dev_inv_notified [simp]: "dev_inv mm um (st\<lparr>ds_notified := b\<rparr>) = dev_inv mm um st"
  by (simp add: dev_inv_def dev_held_def dev_units_def)

lemma dev_held_notified [simp]: "dev_held (st\<lparr>ds_notified := b\<rparr>) = dev_held st"
  by (simp add: dev_held_def)

lemma dev_acquire_granted:
  assumes "dev_inv mm um st"
  obtains st' where
    "dev_acquire mm um req st = Some (Inr (assignment_for (mm_get_vec mm (ds_cores_mapping st)) (dev_held st') (unit_ids req)), st')"
    "dev_inv mm um st'" "ds_cores_mapping st' = ds_cores_mapping st" "ds_system_cores st' = ds_system_cores st"
    "\<And>u. dev_held st u \<noteq> None \<or> u \<notin> set (unit_ids req) \<Longrightarrow> dev_held st' u = dev_held st u"
    "\<And>u. u \<in> set (unit_ids req) \<Longrightarrow> dev_held st' u \<noteq> None"
    "\<And>u. hm_get (ds_work_type_mapping st') u =
        (if u \<in> set (unit_ids req) then Some (worker_type req) else hm_get (ds_work_type_mapping st) u)"
    "let fresh = fresh_units (\<lambda>u. dev_held st u \<noteq> None) (unit_ids req); q = ds_available_cores st in
        ds_available_cores st' = rotate (length fresh) q
      \<and> (\<forall>i < length fresh. dev_held st' (fresh ! i) = Some (q ! (i mod length q)))"
proof -
  obtain st1 where loop: "dev_acquire_loop mm um (worker_type req) (unit_ids req) st assignment_empty =
       Some (assignment_for (mm_get_vec mm (ds_cores_mapping st)) (dev_held st1) (unit_ids req), st1)"
    and st1: "dev_inv mm um st1" "ds_cores_mapping st1 = ds_cores_mapping st" "ds_system_cores st1 = ds_system_cores st"
      "\<forall>u. dev_held st u \<noteq> None \<or> u \<notin> set (unit_ids req) \<longrightarrow> dev_held st1 u = dev_held st u"
      "\<forall>u \<in> set (unit_ids req). dev_held st1 u \<noteq> None"
      "\<forall>u. hm_get (ds_work_type_mapping st1) u =
        (if u \<in> set (unit_ids req) then Some (worker_type req) else hm_get (ds_work_type_mapping st) u)"
      "let fresh = fresh_units (\<lambda>u. dev_held st u \<noteq> None) (unit_ids req); q = ds_available_cores st in
        ds_available_cores st1 = rotate (length fresh) q
      \<and> (\<forall>i < length fresh. dev_held st1 (fresh ! i) = Some (q ! (i mod length q)))"
    using dev_acquire_loop_ok [OF assms, of "worker_type req" "unit_ids req" assignment_empty]
    unfolding assignment_join_empty by blast
  show thesis
  proof (rule that [of "st1\<lparr>ds_notified := True\<rparr>"])
    show "dev_acquire mm um req st = Some (Inr (assignment_for (mm_get_vec mm (ds_cores_mapping st))
        (dev_held (st1\<lparr>ds_notified := True\<rparr>)) (unit_ids req)), st1\<lparr>ds_notified := True\<rparr>)"
      using loop by (simp add: dev_acquire_def)
  qed (use st1 in auto)
qed

lemma dev_release_unit_ok:
  assumes inv: "dev_inv mm um st"
  shows "\<exists>st'. dev_release_unit um u st = Some st' \<and> dev_inv mm um st' \<and> dev_held st' = (dev_held st)(u := None)
    \<and> ds_system_cores st' = ds_system_cores st \<and> ds_available_cores st' = ds_available_cores st"
proof (cases "dev_held st u")
  case None
  then have "(dev_held st)(u := None) = dev_held st" by auto
  then show ?thesis using None inv by (simp add: dev_release_unit_def dev_held_def)
next
  case (Some c)
  note ul = dev_inv_laws(2) [OF inv]
  have u: "u \<in> set (dev_units um st c)" using dev_invD(9) [OF inv, of c] Some by simp
  then obtain us where us: "mm_get_vec um (ds_core_unit_id_mapping st) c = Some us" "dev_units um st c = us"
    by (cases "mm_get_vec um (ds_core_unit_id_mapping st) c") (simp_all add: dev_units_def)
  let ?cu0 = "mm_set_vec um c (remove1 u us) (ds_core_unit_id_mapping st)"
  let ?cu = "if remove1 u us = [] then mm_remove um c ?cu0 else ?cu0"
  let ?st = "st\<lparr>ds_unit_id_core_mapping := (ds_unit_id_core_mapping st)(u := None),
      ds_work_type_mapping := hm_remove u (ds_work_type_mapping st), ds_core_unit_id_mapping := ?cu\<rparr>"
  have rel: "dev_release_unit um u st = Some ?st"
    using Some us u by (simp add: dev_release_unit_def dev_held_def Let_def)
  have held: "dev_held ?st = (dev_held st)(u := None)" by (simp add: dev_held_def)
  have vec: "mm_get_vec um (ds_core_unit_id_mapping ?st) d =
      (if d = c then (if remove1 u us = [] then None else Some (remove1 u us))
       else mm_get_vec um (ds_core_unit_id_mapping st) d)" for d
    using multimap_lawsD(3,4) [OF ul] by simp
  have units: "dev_units um ?st d = (if d = c then remove1 u us else dev_units um st d)" for d
    unfolding dev_units_def vec by simp
  have dist: "distinct us" using dev_invD(8) [OF inv, of c] us by simp
  have "dev_inv mm um ?st"
  proof (rule dev_invI, goal_cases)
    case (9 v d)
    then show ?case using dev_invD(7) [OF inv, of v d] by (simp add: held split: if_splits)
  next
    case (10 d)
    then show ?case using dev_invD(8) [OF inv, of d] dist unfolding units by simp
  next
    case (11 d)
    have "set (remove1 u us) = {v. dev_held st v = Some c} - {u}"
      using dev_invD(9) [OF inv, of c] us dist by simp
    then show ?case using dev_invD(9) [OF inv, of d] Some unfolding units held by auto
  next
    case (12 d)
    then show ?case using dev_invD(10) [OF inv, of d] unfolding vec by simp
  next
    case (14 v)
    then show ?case using dev_invD(12) [OF inv, of v] unfolding held by simp
  qed (use dev_inv_laws [OF inv] dev_invD [OF inv] in simp_all)
  with rel held show ?thesis by (intro exI [of _ ?st]) simp
qed

lemma dev_release_ok:
  assumes "dev_inv mm um st"
  shows "\<exists>st'. dev_release um us st = Some st' \<and> dev_inv mm um st' \<and> ds_system_cores st' = ds_system_cores st
    \<and> dev_held st' = (\<lambda>u. if u \<in> set us then None else dev_held st u)
    \<and> ds_available_cores st' = ds_available_cores st"
  using assms
proof (induction us arbitrary: st)
  case (Cons u us)
  obtain st1 where st1: "dev_release_unit um u st = Some st1" "dev_inv mm um st1" "dev_held st1 = (dev_held st)(u := None)"
    "ds_system_cores st1 = ds_system_cores st" "ds_available_cores st1 = ds_available_cores st"
    using dev_release_unit_ok [OF Cons.prems] by blast
  from Cons.IH [OF st1(2)] st1 show ?case by (auto simp: fun_eq_iff)
qed simp

text \<open>The development manager keeps the contract too.\<close>

interpretation dev: core_manager "dev_inv mm um" "dev_acquire mm um" "dev_release um" dev_held ds_system_cores for mm um
proof unfold_locales
  fix st req assume "dev_inv mm um st"
  then show "\<exists>r st'. dev_acquire mm um req st = Some (r, st') \<and> dev_inv mm um st'"
    by (rule dev_acquire_granted [of mm um st req]) blast
next
  fix st req e st' assume "dev_inv mm um st" "dev_acquire mm um req st = Some (Inl e, st')"
  then show "st' = st" by (auto simp: dev_acquire_def split: option.splits)
next
  fix st req a st' u assume "dev_inv mm um st" and acq: "dev_acquire mm um req st = Some (Inr a, st')"
  then have "a = assignment_for (mm_get_vec mm (ds_cores_mapping st)) (dev_held st') (unit_ids req)"
    by (elim dev_acquire_granted [of mm um st req]) simp
  then show "map_option c_physical_core_id (cuid_cores a u) = (if u \<in> set (unit_ids req) then dev_held st' u else None)"
    by (simp only: cuid_cores_assignment_for)
next
  fix st req a st' u assume "dev_inv mm um st" "dev_acquire mm um req st = Some (Inr a, st')" "u \<in> set (unit_ids req)"
  then show "dev_held st' u \<noteq> None" by (elim dev_acquire_granted [of mm um st req]) simp
next
  fix st req a st' u assume "dev_inv mm um st" "dev_acquire mm um req st = Some (Inr a, st')"
    "dev_held st u \<noteq> None \<or> u \<notin> set (unit_ids req)"
  then show "dev_held st' u = dev_held st u" by (elim dev_acquire_granted [of mm um st req]) simp
next
  fix st req r st' assume "dev_inv mm um st" "dev_acquire mm um req st = Some (r, st')"
  then show "ds_system_cores st' = ds_system_cores st" by (elim dev_acquire_granted [of mm um st req]) simp
next
  fix st us assume "dev_inv mm um st"
  from dev_release_ok [OF this]
  show "\<exists>s'. dev_release um us st = Some s' \<and> dev_inv mm um s' \<and> ds_system_cores s' = ds_system_cores st
      \<and> dev_held s' = (\<lambda>u. if u \<in> set us then None else dev_held st u)" by blast
next
  fix st u c assume "dev_inv mm um st" "dev_held st u = Some c"
  then show "c \<notin> ds_system_cores st" using dev_invD(4,7) by blast
qed

section \<open>Properties\<close>

text \<open>
  C35: the development manager grants every request of a well-formed manager, and hands cores out
  round robin: the units that have no core yet get, in order, the cores of the queue from its head
  on, cyclically, and the queue turns by their number; units with a core keep it, other units are
  untouched, and the returned assignment is read off from who holds what.
\<close>

theorem dev_acquire_round_robin:
  assumes "dev_inv mm um st"
  shows "\<exists>a st'. dev_acquire mm um req st = Some (Inr a, st') \<and> dev_inv mm um st'
    \<and> a = assignment_for (mm_get_vec mm (ds_cores_mapping st)) (dev_held st') (unit_ids req)
    \<and> (let fresh = fresh_units (\<lambda>u. dev_held st u \<noteq> None) (unit_ids req); q = ds_available_cores st in
         ds_available_cores st' = rotate (length fresh) q
       \<and> (\<forall>i < length fresh. dev_held st' (fresh ! i) = Some (q ! (i mod length q))))
    \<and> (\<forall>u. dev_held st u \<noteq> None \<or> u \<notin> set (unit_ids req) \<longrightarrow> dev_held st' u = dev_held st u)"
  using assms by (rule dev_acquire_granted [of mm um st req]) blast

definition dev_demo :: "((physical_core_id \<times> logical_core_id list) list, (physical_core_id \<times> cuid list) list) dev_state" where
  "dev_demo = dev_make_instance [(1, [2, 3]), (2, [4, 5]), (3, [6, 7])] {1} [2, 3] [] Map.empty []"

lemma dev_demo_inv: "dev_inv list_multimap list_multimap dev_demo"
proof -
  have m: "mapped_cores list_multimap (ds_cores_mapping dev_demo) = {1, 2, 3}"
    "no_empty_vec list_multimap (ds_cores_mapping dev_demo)"
    by (auto simp: mapped_cores_def no_empty_vec_def list_multimap_def dev_demo_def dev_make_instance_def)
  have h: "dev_held dev_demo = Map.empty" "dev_units list_multimap dev_demo c = []"
    "mm_get_vec list_multimap (ds_core_unit_id_mapping dev_demo) c = None" for c
    by (simp_all add: dev_held_def dev_units_def dev_demo_def dev_make_instance_def list_multimap_def)
  have f: "ds_system_cores dev_demo = {1}" "ds_available_cores dev_demo = [2, 3]" "ds_work_type_mapping dev_demo = []"
    by (simp_all add: dev_demo_def dev_make_instance_def)
  show ?thesis by (rule dev_invI) (simp_all add: list_multimap_laws m h f insert_commute)
qed

theorem dev_acquire_round_robin_witness:
  "\<exists>a st'. dev_acquire list_multimap list_multimap \<lparr>unit_ids = [7, 8, 9], worker_type = Deal\<rparr> dev_demo = Some (Inr a, st')
     \<and> dev_held st' 7 = Some 2 \<and> dev_held st' 8 = Some 3 \<and> dev_held st' 9 = Some 2
     \<and> ds_available_cores st' = [3, 2]"
proof -
  let ?req = "\<lparr>unit_ids = [7, 8, 9], worker_type = Deal\<rparr> :: acquire_request"
  let ?fresh = "fresh_units (\<lambda>u. dev_held dev_demo u \<noteq> None) (unit_ids ?req)" and ?q = "ds_available_cores dev_demo"
  have f: "?fresh = [7, 8, 9]" and q: "?q = [2, 3]"
    by (simp_all add: dev_held_def dev_demo_def dev_make_instance_def)
  obtain a st' where acq: "dev_acquire list_multimap list_multimap ?req dev_demo = Some (Inr a, st')"
    and q': "ds_available_cores st' = rotate (length ?fresh) ?q"
    and h: "\<forall>i < length ?fresh. dev_held st' (?fresh ! i) = Some (?q ! (i mod length ?q))"
    using dev_acquire_round_robin [OF dev_demo_inv, of ?req] unfolding Let_def by (elim exE conjE) (rule that)
  have "dev_held st' 7 = Some 2" "dev_held st' 8 = Some 3" "dev_held st' 9 = Some 2"
    using h [rule_format, of 0] h [rule_format, of 1] h [rule_format, of 2] unfolding f q by (simp_all add: numeral_2_eq_2)
  moreover have "ds_available_cores st' = [3, 2]" using q' unfolding f q by (simp add: rotate_def numeral_3_eq_3)
  ultimately show ?thesis using acq by blast
qed

text \<open>
  Releasing the units of a granted request that held no core before gives back the holders of the
  state before the request, and releasing from a well-formed manager never panics.
\<close>

theorem dev_acquire_release:
  assumes "dev_inv mm um st" "dev_acquire mm um req st = Some (Inr a, st')"
    and "\<forall>u \<in> set (unit_ids req). dev_held st u = None"
  shows "\<exists>st''. dev_release um (unit_ids req) st' = Some st'' \<and> dev_held st'' = dev_held st"
  by (rule dev.acquire_release [OF assms])

theorem dev_acquire_release_witness:
  "\<exists>a st' st''. dev_acquire list_multimap list_multimap \<lparr>unit_ids = [7, 8, 9], worker_type = Deal\<rparr> dev_demo = Some (Inr a, st')
     \<and> dev_release list_multimap [7, 8, 9] st' = Some st'' \<and> dev_held st'' = Map.empty"
proof -
  let ?req = "\<lparr>unit_ids = [7, 8, 9], worker_type = Deal\<rparr> :: acquire_request"
  obtain a st' where acq: "dev_acquire list_multimap list_multimap ?req dev_demo = Some (Inr a, st')"
    by (rule dev_acquire_granted [OF dev_demo_inv, of ?req]) (rule that)
  have empty: "dev_held dev_demo = Map.empty" by (simp add: dev_held_def dev_demo_def dev_make_instance_def)
  have "\<forall>u \<in> set (unit_ids ?req). dev_held dev_demo u = None" using empty by simp
  from dev_acquire_release [OF dev_demo_inv acq this] obtain st'' where
    "dev_release list_multimap (unit_ids ?req) st' = Some st''" "dev_held st'' = dev_held dev_demo" by (elim exE conjE) (rule that)
  then show ?thesis using acq empty by (intro exI [of _ a] exI [of _ st'] exI [of _ st'']) simp
qed

text \<open>
  A development manager that was just created is well formed exactly when a core is left beside
  the system cores; otherwise it is created all the same and then every request that names a unit
  panics.
\<close>

theorem dev_new_needs_spare_core:
  assumes "multimap_laws mm" "multimap_laws um" "topology_ok topo"
    and "dev_new rs mm um (Inr topo) n r = Some (Inr st)"
  shows "(dev_inv mm um st \<longleftrightarrow> ds_available_cores st \<noteq> [])
    \<and> (ds_available_cores st = [] \<longrightarrow> (\<forall>req. unit_ids req \<noteq> [] \<longrightarrow> dev_acquire mm um req st = None))"
proof -
  from assms(4) obtain cs m av av' sys where
    coll: "collect_cores rs r mm topo cs (mm_new mm, {}) = Inr (m, av)" and
    sys: "take_system_cores n av {} = Some (av', sys)" and
    st: "st = dev_make_instance m sys (sorted_list_of_set av') (mm_new um) Map.empty []"
    by (auto simp: dev_new_def Let_def split: if_splits sum.splits option.splits prod.splits)
  have "mapped_cores mm (mm_new mm) = {}" "no_empty_vec mm (mm_new mm)"
    using multimap_lawsD(1) [OF assms(1)] by (simp_all add: mapped_cores_def no_empty_vec_def)
  from collect_cores_Inr [OF assms(1,3) coll _ this]
  have c: "finite av" "mapped_cores mm m = av" "no_empty_vec mm m" by simp_all
  have t: "finite av'" "finite sys" "av' \<inter> sys = {}" "av' \<union> sys = av"
    using take_system_cores_Some [OF sys c(1)] by simp_all
  have none: "dev_held st = Map.empty" "mm_get_vec um (ds_core_unit_id_mapping st) d = None" "dev_units um st d = []" for d
    using multimap_lawsD(1) [OF assms(2)] by (simp_all add: st dev_held_def dev_units_def dev_make_instance_def)
  have "dev_inv mm um st \<longleftrightarrow> ds_available_cores st \<noteq> []"
    unfolding dev_inv_def none using assms(1,2) c t by (simp add: st dev_make_instance_def none)
  moreover have "dev_acquire mm um req st = None" if "ds_available_cores st = []" "unit_ids req \<noteq> []" for req
    using that none(1) by (cases "unit_ids req") (auto simp: dev_acquire_def dev_assign_unit_def dev_held_def)
  ultimately show ?thesis by blast
qed

lemma mm_new_list_multimap: "mm_new list_multimap = []"
  by (simp add: list_multimap_def)

theorem dev_new_needs_spare_core_witness:
  "\<exists>st. dev_new list_range_set list_multimap list_multimap (Inr strict_demo_topology) 3 [1, 2, 3] = Some (Inr st)
     \<and> dev_acquire list_multimap list_multimap \<lparr>unit_ids = [7], worker_type = Deal\<rparr> st = None"
proof -
  have t: "topology_ok strict_demo_topology" by (simp add: topology_ok_def strict_demo_topology_def)
  have new: "dev_new list_range_set list_multimap list_multimap (Inr strict_demo_topology) 3 [1, 2, 3] =
      Some (Inr (dev_make_instance [(1, [2, 3]), (2, [4, 5]), (3, [6, 7])] {1, 2, 3} [] [] Map.empty []))"
  proof -
    have "collect_cores list_range_set [1, 2, 3] list_multimap strict_demo_topology [1, 2, 3] (mm_new list_multimap, {})
        = Inr ([(1, [2, 3]), (2, [4, 5]), (3, [6, 7])], {1, 2, 3})"
      by (simp add: strict_demo_topology_def list_range_set_def list_multimap_def insert_commute)
    moreover have "take_system_cores 3 {1, 2, 3} {} = Some ({}, {1, 2, 3 :: 32 word})"
      unfolding numeral_3_eq_3 by (simp add: btree_pop_first_def insert_Diff_if insert_commute)
    moreover have "topo_physical_cores strict_demo_topology = Inr [1, 2, 3]" "rs_len list_range_set [1, 2, 3] = 3"
      by (simp_all add: strict_demo_topology_def list_range_set_def list_multimap_def)
    ultimately show ?thesis unfolding dev_new_def Let_def by (simp add: mm_new_list_multimap)
  qed
  from dev_new_needs_spare_core [OF list_multimap_laws list_multimap_laws t new] new show ?thesis
    by (simp add: dev_make_instance_def)
qed

end
