(* ===== verification/Workers_Restart.thy ===== *)
theory Workers_Restart
  imports Workers_Concurrent Core_Dev
begin

text \<open>
  What a single caller sees of the worker registry: what creation and removal do to the maps, the
  files and the core manager, and what a node finds again when it loads the files of a registry.
\<close>

section \<open>The files of workers\<close>

definition persisted_of :: "worker_id \<Rightarrow> worker_info \<Rightarrow> persisted_worker" where
  "persisted_of w i = \<lparr>pw_worker_id = w, pw_creator = wi_creator i, pw_deal_id = deal_id_into (wi_deal_id i),
     pw_active = wi_active i, pw_cu_ids = wi_cu_ids i\<rparr>"

text \<open>What is assumed of the format of worker files: what was written is read back.\<close>

definition worker_file_laws :: "('kp, 'fmt, 'e, 's) workers_env \<Rightarrow> bool" where
  "worker_file_laws env \<longleftrightarrow> (\<forall>pw bytes. we_ser env pw = Inr bytes \<longrightarrow> we_de env bytes = Inr pw)"

text \<open>The directory agrees with the registry: a file per registered worker that holds what is known of it.\<close>

definition disk_ok :: "('kp, 'fmt, 'e, 's) workers_env \<Rightarrow> ('kp, 'rt, 's) workers \<Rightarrow> bool" where
  "disk_ok env st \<longleftrightarrow>
     (\<forall>w i. hm_get (worker_infos st) w = Some i \<longrightarrow>
        (\<exists>bytes. workers_dir st (worker_file_name w) = Some bytes \<and> we_de env bytes = Inr (persisted_of w i)))
   \<and> (\<forall>n bytes pw. is_worker n \<longrightarrow> workers_dir st n = Some bytes \<longrightarrow> we_de env bytes = Inr pw \<longrightarrow>
        (\<exists>w i. n = worker_file_name w \<and> hm_get (worker_infos st) w = Some i \<and> pw = persisted_of w i))"

lemma disk_okD:
  assumes "disk_ok env st"
  shows "hm_get (worker_infos st) w = Some i \<Longrightarrow>
      \<exists>bytes. workers_dir st (worker_file_name w) = Some bytes \<and> we_de env bytes = Inr (persisted_of w i)"
    and "is_worker n \<Longrightarrow> workers_dir st n = Some bytes \<Longrightarrow> we_de env bytes = Inr pw \<Longrightarrow>
      \<exists>w i. n = worker_file_name w \<and> hm_get (worker_infos st) w = Some i \<and> pw = persisted_of w i"
  using assms unfolding disk_ok_def by blast+

text \<open>Writing or removing the file of one worker together with its entry keeps the agreement.\<close>

lemma disk_ok_write:
  assumes "disk_ok env st" "we_de env bytes = Inr (persisted_of w i)"
    and "hm_get (worker_infos st') = (hm_get (worker_infos st))(w \<mapsto> i)"
    and "workers_dir st' = (workers_dir st)(worker_file_name w \<mapsto> bytes)"
  shows "disk_ok env st'"
  unfolding disk_ok_def
proof (intro conjI allI impI)
  fix v j assume "hm_get (worker_infos st') v = Some j"
  then show "\<exists>bytes. workers_dir st' (worker_file_name v) = Some bytes \<and> we_de env bytes = Inr (persisted_of v j)"
    using disk_okD(1) [OF assms(1), of v j] assms(2-4) by (cases "v = w") simp_all
next
  fix n bs pw assume n: "is_worker n" "workers_dir st' n = Some bs" "we_de env bs = Inr pw"
  show "\<exists>v j. n = worker_file_name v \<and> hm_get (worker_infos st') v = Some j \<and> pw = persisted_of v j"
  proof (cases "n = worker_file_name w")
    case True
    then show ?thesis using n assms(2-4) by auto
  next
    case False
    then obtain v j where "n = worker_file_name v" "hm_get (worker_infos st) v = Some j" "pw = persisted_of v j"
      using disk_okD(2) [OF assms(1) n(1) _ n(3)] n(2) assms(4) by auto
    then show ?thesis using False assms(3) by auto
  qed
qed

lemma disk_ok_remove:
  assumes "disk_ok env st"
    and "hm_get (worker_infos st') = (hm_get (worker_infos st))(w := None)"
    and "workers_dir st' = (workers_dir st)(worker_file_name w := None)"
  shows "disk_ok env st'"
  unfolding disk_ok_def
proof (intro conjI allI impI)
  fix v j assume "hm_get (worker_infos st') v = Some j"
  then show "\<exists>bytes. workers_dir st' (worker_file_name v) = Some bytes \<and> we_de env bytes = Inr (persisted_of v j)"
    using disk_okD(1) [OF assms(1), of v j] assms(2,3) by (cases "v = w") simp_all
next
  fix n bs pw assume n: "is_worker n" "workers_dir st' n = Some bs" "we_de env bs = Inr pw"
  then have nw: "n \<noteq> worker_file_name w" "workers_dir st n = Some bs" using assms(3) by (auto split: if_splits)
  then obtain v j where "n = worker_file_name v" "hm_get (worker_infos st) v = Some j" "pw = persisted_of v j"
    using disk_okD(2) [OF assms(1) n(1) _ n(3)] by auto
  then show "\<exists>v j. n = worker_file_name v \<and> hm_get (worker_infos st') v = Some j \<and> pw = persisted_of v j"
    using nw(1) assms(2) by auto
qed

section \<open>What a creation, a removal and a change of status do\<close>

definition created_info :: "worker_params \<Rightarrow> worker_info" where
  "created_info p = \<lparr>wi_deal_id = wp_deal_id p, wi_creator = wp_creator p, wi_active = True, wi_cu_ids = wp_cu_ids p\<rparr>"

lemma persist_worker_Inr:
  "persist_worker env wr w pw d = (Inr u, d') \<longleftrightarrow>
     wr = WriteOk \<and> (\<exists>bytes. we_ser env pw = Inr bytes \<and> d' = d(worker_file_name w \<mapsto> bytes))"
  by (cases wr) (auto simp: persist_worker_def split: sum.splits)

lemma store_worker_Inr:
  "store_worker env wr w d c cus st = (Inr i, st') \<longleftrightarrow>
     wr = WriteOk \<and> i = \<lparr>wi_deal_id = d, wi_creator = c, wi_active = True, wi_cu_ids = cus\<rparr>
   \<and> (\<exists>bytes. we_ser env (persisted_of w i) = Inr bytes
        \<and> st' = st\<lparr>workers_dir := (workers_dir st)(worker_file_name w \<mapsto> bytes)\<rparr>)"
  unfolding store_worker_def by (auto simp: persist_worker_Inr persisted_of_def split: prod.splits sum.splits)
    (cases wr; auto simp: persist_worker_def split: sum.splits)+

lemma build_runtime_Inr:
  "build_runtime env build w cus cm n = Some (Inr (rt, k), cm', n') \<longleftrightarrow>
     (\<exists>a. we_acquire env (acquire_request_new cus Deal) cm = Some (Inr a, cm') \<and> k = card (logical_core_ids a)
        \<and> build k = Some (Inr rt) \<and> n' = n + 1)"
  by (auto simp: build_runtime_def Let_def split: option.splits prod.splits sum.splits)

lemma cw_create_key_Inr:
  "cw_create_key env wr kp st = (Inr w, st') \<longleftrightarrow>
     (\<exists>ks. create_key_pair (we_keys env) wr kp (w_key_storage st) = (Inr kp, ks)
        \<and> w = WorkerId (kp_peer_id (we_keys env) kp) \<and> st' = st\<lparr>w_key_storage := ks\<rparr>)"
  by (auto simp: cw_create_key_def split: prod.splits sum.splits dest: iffD1 [OF create_key_pair_Inr])

lemma create_worker_Inr:
  fixes env :: "('kp, 'fmt, 'e, 's) workers_env"
  assumes "create_worker env ans p st = Some (Inr w, st')"
  obtains ks bytes a cm rt where
    "worker_ids st (wp_deal_id p) = None" "w = WorkerId (kp_peer_id (we_keys env) (ca_key_pair ans))"
    "create_key_pair (we_keys env) (ca_key_write ans) (ca_key_pair ans) (w_key_storage st) = (Inr (ca_key_pair ans), ks)"
    "we_ser env (persisted_of w (created_info p)) = Inr bytes"
    "we_acquire env (acquire_request_new (wp_cu_ids p) Deal) (w_core_manager st) = Some (Inr a, cm)"
    "ca_build ans (card (logical_core_ids a)) = Some (Inr rt)"
    "st' = st\<lparr>worker_ids := (worker_ids st)(wp_deal_id p \<mapsto> w),
              worker_infos := hm_insert w (created_info p) (worker_infos st),
              workers_dir := (workers_dir st)(worker_file_name w \<mapsto> bytes), w_key_storage := ks,
              runtimes := hm_insert w rt (runtimes st), w_core_manager := cm,
              runtime_counter := runtime_counter st + 1,
              sent_events := sent_events st @ [WorkerCreated w (card (logical_core_ids a))]\<rparr>"
proof -
  obtain st1 st2 st3 i n v where c': "worker_ids st (wp_deal_id p) = None"
    "cw_create_key env (ca_key_write ans) (ca_key_pair ans) st = (Inr v, st1)"
    "store_worker env (ca_info_write ans) v (wp_deal_id p) (wp_creator p) (wp_cu_ids p) st1 = (Inr i, st2)"
    "cw_register env (ca_build ans) v i st2 = Some (Inr n, st3)"
    "cw_notify (ca_sent ans) (wp_deal_id p) v n st3 = (Inr w :: 'e workers_error + worker_id, st')"
    using assms unfolding create_worker_def cw_check_def
    by (simp add: Let_def split: prod.splits sum.splits option.splits)
  have "v = w" using c'(5) by (simp add: cw_notify_def split: if_splits)
  note c = c' [unfolded this]
  obtain ks where ks: "create_key_pair (we_keys env) (ca_key_write ans) (ca_key_pair ans) (w_key_storage st) = (Inr (ca_key_pair ans), ks)"
    "w = WorkerId (kp_peer_id (we_keys env) (ca_key_pair ans))" "st1 = st\<lparr>w_key_storage := ks\<rparr>"
    using c(2) unfolding cw_create_key_Inr by blast
  obtain bytes where b: "i = created_info p" "we_ser env (persisted_of w i) = Inr bytes"
    "st2 = st1\<lparr>workers_dir := (workers_dir st1)(worker_file_name w \<mapsto> bytes)\<rparr>"
    using c(3) unfolding store_worker_Inr created_info_def by blast
  obtain rt cm m where r: "build_runtime env (ca_build ans) w (wp_cu_ids p) (w_core_manager st) (runtime_counter st) = Some (Inr (rt, n), cm, m)"
    "worker_ids st (wp_deal_id p) = None"
    "st3 = st2\<lparr>w_core_manager := cm, runtime_counter := m, worker_ids := (worker_ids st2)(wp_deal_id p \<mapsto> w),
                 worker_infos := hm_insert w i (worker_infos st2), runtimes := hm_insert w rt (runtimes st2)\<rparr>"
    using c(4) unfolding cw_register_def
    by (auto simp: b ks(3) created_info_def Let_def split: if_splits option.splits prod.splits sum.splits)
  obtain a where a: "we_acquire env (acquire_request_new (wp_cu_ids p) Deal) (w_core_manager st) = Some (Inr a, cm)"
    "n = card (logical_core_ids a)" "ca_build ans n = Some (Inr rt)" "m = runtime_counter st + 1"
    using r(1) unfolding build_runtime_Inr by blast
  have "st' = st3\<lparr>sent_events := sent_events st3 @ [WorkerCreated w n]\<rparr>" using c(5) by (simp add: cw_notify_def split: if_splits)
  then show thesis using that [OF r(2) ks(2,1) b(2) [unfolded b(1)] a(1) a(3) [unfolded a(2)]] by (simp add: r(3) b(1,3) ks(3) a(2,4))
qed

lemma remove_worker_Inr:
  "remove_worker sent ff kf w st = (Inr u, st') \<longleftrightarrow>
     sent \<and> ff = None \<and> kf = None \<and> workers_dir st (worker_file_name w) \<noteq> None \<and> has_key_file st w
   \<and> (\<exists>i. hm_get (worker_infos st) w = Some i
      \<and> st' = st\<lparr>worker_ids := (worker_ids st)(wi_deal_id i := None), worker_infos := hm_remove w (worker_infos st),
            workers_dir := (workers_dir st)(worker_file_name w := None),
            w_key_storage := (w_key_storage st)
              \<lparr>key_pairs_dir := (key_pairs_dir (w_key_storage st))(keypair_file_name w := None),
               worker_key_pairs := (worker_key_pairs (w_key_storage st))(w := None)\<rparr>,
            runtimes := hm_remove w (runtimes st), sent_events := sent_events st @ [WorkerRemoved w]\<rparr>)"
  by (auto simp: remove_worker_def rw_notify_def get_deal_id_def rw_remove_file_def remove_worker_file_def
      rw_remove_key_def remove_key_pair_def remove_keypair_def fs_remove_def rw_remove_maps_def has_key_file_def Let_def
      split: option.splits if_splits)

lemma set_worker_status_Inr:
  "set_worker_status env wr w status st = (Inr u, st') \<longleftrightarrow>
     wr = WriteOk \<and> (\<exists>i bytes. hm_get (worker_infos st) w = Some i
       \<and> we_ser env (persisted_of w (i\<lparr>wi_active := status\<rparr>)) = Inr bytes
       \<and> st' = st\<lparr>worker_infos := hm_insert w (i\<lparr>wi_active := status\<rparr>) (worker_infos st),
              workers_dir := (workers_dir st)(worker_file_name w \<mapsto> bytes)\<rparr>)"
  by (cases wr) (auto simp: set_worker_status_def sw_set_def sw_persist_def persist_worker_def persisted_of_def Let_def
      split: option.splits sum.splits)

section \<open>A single caller\<close>

datatype ('kp, 'rt, 'e) registry_call =
    RCreate "('kp, 'rt, 'e) create_answers" worker_params
  | RRemove worker_id
  | RStatus worker_id bool

text \<open>A call that succeeds; a generated key pair is that of no registered worker.\<close>

fun registry_step ::
    "('kp, 'fmt, 'e, 's) workers_env \<Rightarrow> ('kp, 'rt, 's) workers \<Rightarrow> ('kp, 'rt, 'e) registry_call \<Rightarrow> ('kp, 'rt, 's) workers \<Rightarrow> bool" where
  "registry_step env st (RCreate ans p) st' =
     (\<exists>w. create_worker env ans p st = Some (Inr w, st') \<and> hm_get (worker_infos st) w = None)"
| "registry_step env st (RRemove w) st' = (remove_worker True (None :: 'e option) None w st = (Inr (), st'))"
| "registry_step env st (RStatus w status) st' = (set_worker_status env WriteOk w status st = (Inr (), st'))"

definition registry_inv :: "('kp, 'fmt, 'e, 's) workers_env \<Rightarrow> ('kp, 'rt, 's) workers \<Rightarrow> bool" where
  "registry_inv env st \<longleftrightarrow> worker_file_laws env \<and> workers_ok st \<and> disk_ok env st"

definition registry_empty :: "('kp, 'fmt, 'e, 's) workers_env \<Rightarrow> ('kp, 'rt, 's) workers \<Rightarrow> bool" where
  "registry_empty env st \<longleftrightarrow> worker_file_laws env \<and> worker_ids st = Map.empty \<and> worker_infos st = []
     \<and> runtimes st = [] \<and> workers_dir st = Map.empty"

lemma workers_ok_insert:
  assumes "workers_ok st" "worker_ids st d = None" "deal_of st w = None" "wi_deal_id i = d"
    and "worker_ids st' = (worker_ids st)(d \<mapsto> w)" "worker_infos st' = hm_insert w i (worker_infos st)"
    "runtimes st' = hm_insert w rt (runtimes st)"
  shows "workers_ok st'"
proof -
  have d: "deal_of st' = (deal_of st)(w \<mapsto> d)" using assms(4,6) by (auto simp: deal_of_def fun_eq_iff)
  have ids: "worker_ids st e = Some v \<longleftrightarrow> deal_of st v = Some e" for e v using assms(1) unfolding workers_ok_def by blast
  have "worker_ids st' e = Some v \<longleftrightarrow> deal_of st' v = Some e" for e v
    using ids [of e v] ids [of d v] ids [of e w] assms(2,3,5) d by (cases "v = w"; cases "e = d") auto
  moreover have "hm_ok (worker_infos st')" "hm_ok (runtimes st')" using assms(1,6,7) by (simp_all add: workers_ok_def)
  moreover have "hm_get (runtimes st') v \<noteq> None \<longrightarrow> deal_of st' v \<noteq> None" for v
    using assms(1,7) d by (simp add: workers_ok_def)
  ultimately show ?thesis unfolding workers_ok_def by blast
qed

lemma registry_step_inv:
  assumes "registry_inv env st" "registry_step env st c st'"
  shows "registry_inv env st'"
proof -
  have laws: "worker_file_laws env" and ok: "workers_ok st" and disk: "disk_ok env st"
    using assms(1) by (simp_all add: registry_inv_def)
  have read: "we_ser env pw = Inr bytes \<Longrightarrow> we_de env bytes = Inr pw" for pw bytes
    using laws by (simp add: worker_file_laws_def)
  show ?thesis
  proof (cases c)
    case (RCreate ans p)
    then obtain w where cr: "create_worker env ans p st = Some (Inr w, st')" and new: "hm_get (worker_infos st) w = None"
      using assms(2) by auto
    from cr show ?thesis
    proof (rule create_worker_Inr)
      fix ks bytes a cm rt
      assume e: "worker_ids st (wp_deal_id p) = None" "we_ser env (persisted_of w (created_info p)) = Inr bytes"
        and st': "st' = st\<lparr>worker_ids := (worker_ids st)(wp_deal_id p \<mapsto> w),
              worker_infos := hm_insert w (created_info p) (worker_infos st),
              workers_dir := (workers_dir st)(worker_file_name w \<mapsto> bytes), w_key_storage := ks,
              runtimes := hm_insert w rt (runtimes st), w_core_manager := cm,
              runtime_counter := runtime_counter st + 1,
              sent_events := sent_events st @ [WorkerCreated w (card (logical_core_ids a))]\<rparr>"
      have "workers_ok st'"
        by (rule workers_ok_insert [OF ok e(1), of w "created_info p" st' rt])
          (simp_all add: st' deal_of_def new created_info_def)
      moreover have "disk_ok env st'" by (rule disk_ok_write [OF disk read [OF e(2)]]) (simp_all add: st' fun_eq_iff)
      ultimately show ?thesis using laws by (simp add: registry_inv_def)
    qed
  next
    case (RRemove w)
    then obtain i where i: "hm_get (worker_infos st) w = Some i" "has_key_file st w"
      and st': "worker_ids st' = worker_ids (rw_remove_maps (wi_deal_id i) w st)"
        "worker_infos st' = worker_infos (rw_remove_maps (wi_deal_id i) w st)"
        "runtimes st' = runtimes (rw_remove_maps (wi_deal_id i) w st)"
        "workers_dir st' = (workers_dir st)(worker_file_name w := None)"
      using assms(2) by (auto simp: remove_worker_Inr rw_remove_maps_def)
    have "workers_ok (rw_remove_maps (wi_deal_id i) w st)"
      by (rule workers_ok_remove_maps [OF ok]) (simp add: deal_of_def i)
    then have "workers_ok st'" using st' by (simp add: workers_ok_def deal_of_def)
    moreover have "disk_ok env st'"
      by (rule disk_ok_remove [OF disk, of _ w]) (simp_all add: st' rw_remove_maps_effect fun_eq_iff)
    ultimately show ?thesis using laws by (simp add: registry_inv_def)
  next
    case (RStatus w status)
    then obtain i bytes where i: "hm_get (worker_infos st) w = Some i" "we_ser env (persisted_of w (i\<lparr>wi_active := status\<rparr>)) = Inr bytes"
      and st': "st' = st\<lparr>worker_infos := hm_insert w (i\<lparr>wi_active := status\<rparr>) (worker_infos st),
              workers_dir := (workers_dir st)(worker_file_name w \<mapsto> bytes)\<rparr>"
      using assms(2) by (auto simp: set_worker_status_Inr)
    have "workers_ok st'"
      by (rule workers_ok_cong [OF _ _ _ _ _ ok]) (use ok i(1) in \<open>auto simp: st' deal_of_def fun_eq_iff workers_ok_def\<close>)
    moreover have "disk_ok env st'" by (rule disk_ok_write [OF disk read [OF i(2)]]) (simp_all add: st' fun_eq_iff)
    ultimately show ?thesis using laws by (simp add: registry_inv_def)
  qed
qed

interpretation registry: invariant_system "registry_empty env" "registry_step env" "registry_inv env" for env
proof
  show "registry_inv env st" if "registry_empty env st" for st
    using that by (simp add: registry_empty_def registry_inv_def workers_ok_def disk_ok_def deal_of_def hm_ok_def)
  show "registry_inv env t" if "registry_inv env s" "registry_step env s c t" for s c t
    using that by (rule registry_step_inv)
qed

section \<open>Loading\<close>

text \<open>
  Runtimes can be built: \<open>I\<close> is kept by the core manager, which grants every request, and the builder
  succeeds.
\<close>

definition runtimes_granted ::
    "('kp, 'fmt, 'e, 's) workers_env \<Rightarrow> (nat \<Rightarrow> ('e io_error + 'rt) option) \<Rightarrow> ('s \<Rightarrow> bool) \<Rightarrow> bool" where
  "runtimes_granted env build I \<longleftrightarrow>
     (\<forall>req cm. I cm \<longrightarrow> (\<exists>a cm'. we_acquire env req cm = Some (Inr a, cm') \<and> I cm'))
   \<and> (\<forall>n. \<exists>rt. build n = Some (Inr rt))"

lemma build_runtime_granted:
  assumes "runtimes_granted env build I" "I cm"
  obtains rt k cm' where "build_runtime env build w cus cm n = Some (Inr (rt, k), cm', n + 1)" "I cm'"
proof -
  obtain a cm' where a: "we_acquire env (acquire_request_new cus Deal) cm = Some (Inr a, cm')" "I cm'"
    using assms unfolding runtimes_granted_def by blast
  obtain rt where "build (card (logical_core_ids a)) = Some (Inr rt)"
    using assms(1) unfolding runtimes_granted_def by blast
  then show thesis using that [of rt "card (logical_core_ids a)" cm'] a by (simp add: build_runtime_Inr)
qed

lemma load_workers_hangs:
  assumes "runtimes_granted env build I" "I (w_core_manager st)"
  shows "load_workers env build room pws st = None \<longleftrightarrow> room < length pws"
  using assms(2)
proof (induction pws arbitrary: room st)
  case (Cons pp pws)
  obtain pw path where pp: "pp = (pw, path)" by (cases pp)
  show ?case
  proof (rule build_runtime_granted [OF assms(1) Cons.prems, of "pw_worker_id pw" "pw_cu_ids pw" "runtime_counter st"])
    fix rt k cm'
    assume "build_runtime env build (pw_worker_id pw) (pw_cu_ids pw) (w_core_manager st) (runtime_counter st)
        = Some (Inr (rt, k), cm', runtime_counter st + 1)" "I cm'"
    then show ?thesis by (cases room) (simp_all add: pp Let_def Cons.IH)
  qed
qed simp

text \<open>What loading registers; a later file wins over an earlier one with the same worker or deal.\<close>

definition loaded_infos :: "(persisted_worker \<times> string) list \<Rightarrow> (worker_id \<times> worker_info) list" where
  "loaded_infos pws = rev (map (\<lambda>(pw, _). (pw_worker_id pw, worker_info_from pw)) pws)"

definition loaded_ids :: "(persisted_worker \<times> string) list \<Rightarrow> (deal_id \<times> worker_id) list" where
  "loaded_ids pws = rev (map (\<lambda>(pw, _). (deal_id_from (pw_deal_id pw), pw_worker_id pw)) pws)"

lemma load_workers_result:
  assumes "runtimes_granted env build I" "I (w_core_manager st)" "length pws \<le> room"
  shows "\<exists>st'. load_workers env build room pws st = Some (Inr st')
    \<and> hm_get (worker_infos st') = hm_get (worker_infos st) ++ map_of (loaded_infos pws)
    \<and> worker_ids st' = worker_ids st ++ map_of (loaded_ids pws)
    \<and> (\<forall>w. hm_get (runtimes st') w \<noteq> None \<longleftrightarrow> hm_get (runtimes st) w \<noteq> None \<or> w \<in> fst ` set (loaded_infos pws))
    \<and> length (sent_events st') = length (sent_events st) + length pws"
  using assms(2,3)
proof (induction pws arbitrary: room st)
  case Nil
  then show ?case by (simp add: loaded_infos_def loaded_ids_def)
next
  case (Cons pp pws)
  obtain pw path where pp: "pp = (pw, path)" by (cases pp)
  obtain rt k cm' where b: "build_runtime env build (pw_worker_id pw) (pw_cu_ids pw) (w_core_manager st) (runtime_counter st)
        = Some (Inr (rt, k), cm', runtime_counter st + 1)" and i: "I cm'"
    by (rule build_runtime_granted [OF assms(1) Cons.prems(1)])
  define st1 where "st1 = st\<lparr>worker_infos := hm_insert (pw_worker_id pw) (worker_info_from pw) (worker_infos st),
    worker_ids := (worker_ids st)(deal_id_from (pw_deal_id pw) \<mapsto> pw_worker_id pw), w_core_manager := cm',
    runtime_counter := runtime_counter st + 1, runtimes := hm_insert (pw_worker_id pw) rt (runtimes st),
    sent_events := sent_events st @ [WorkerCreated (pw_worker_id pw) k]\<rparr>"
  obtain room' where room: "room = Suc room'" using Cons.prems(2) by (cases room) auto
  have step: "load_workers env build room (pp # pws) st = load_workers env build room' pws st1"
    using b by (simp add: pp Let_def room st1_def)
  have "length pws \<le> room'" "I (w_core_manager st1)" using Cons.prems(2) room i by (simp_all add: st1_def)
  from Cons.IH [OF this(2,1)] obtain st' where r: "load_workers env build room' pws st1 = Some (Inr st')"
    "hm_get (worker_infos st') = hm_get (worker_infos st1) ++ map_of (loaded_infos pws)"
    "worker_ids st' = worker_ids st1 ++ map_of (loaded_ids pws)"
    "\<forall>w. hm_get (runtimes st') w \<noteq> None \<longleftrightarrow> hm_get (runtimes st1) w \<noteq> None \<or> w \<in> fst ` set (loaded_infos pws)"
    "length (sent_events st') = length (sent_events st1) + length pws" by blast
  have 1: "hm_get (worker_infos st') = hm_get (worker_infos st) ++ map_of (loaded_infos (pp # pws))"
    by (simp add: r(2) st1_def loaded_infos_def pp fun_eq_iff map_add_def split: option.split)
  have 2: "worker_ids st' = worker_ids st ++ map_of (loaded_ids (pp # pws))"
    by (simp add: r(3) st1_def loaded_ids_def pp fun_eq_iff map_add_def split: option.split)
  have 3: "\<forall>w. hm_get (runtimes st') w \<noteq> None \<longleftrightarrow> hm_get (runtimes st) w \<noteq> None \<or> w \<in> fst ` set (loaded_infos (pp # pws))"
    using r(4) by (auto simp: st1_def loaded_infos_def pp)
  have 4: "length (sent_events st') = length (sent_events st) + length (pp # pws)" using r(5) by (simp add: st1_def)
  show ?case unfolding step using r(1) 1 2 3 4 by blast
qed

lemma hm_get_empty: "hm_get [] = Map.empty"
  by (simp add: fun_eq_iff)

lemma map_of_graph:
  assumes "\<And>k v. (k, v) \<in> set xs \<longleftrightarrow> m k = Some v"
  shows "map_of xs = m"
proof (rule ext)
  fix k
  show "map_of xs k = m k"
  proof (cases "map_of xs k")
    case None
    then have "m k \<noteq> Some v" for v using assms [of k v] by (force simp: map_of_eq_None_iff)
    then show ?thesis using None by (cases "m k") auto
  next
    case (Some v)
    then show ?thesis using assms [of k v] map_of_SomeD by metis
  qed
qed

text \<open>The files of a registry give back its maps.\<close>

lemma loaded_registry:
  assumes ok: "workers_ok st" and disk: "disk_ok env st"
    and canon: "\<And>w i. hm_get (worker_infos st) w = Some i \<Longrightarrow> deal_id_from (deal_id_into (wi_deal_id i)) = wi_deal_id i"
    and pws: "set pws = {(pw, n). is_worker n \<and> (\<exists>bytes. workers_dir st n = Some bytes \<and> we_de env bytes = Inr pw)}"
  shows "map_of (loaded_infos pws) = hm_get (worker_infos st)" "map_of (loaded_ids pws) = worker_ids st"
proof -
  have mem: "(\<exists>n. (pw, n) \<in> set pws) \<longleftrightarrow> (\<exists>w i. pw = persisted_of w i \<and> hm_get (worker_infos st) w = Some i)" for pw
  proof
    assume "\<exists>n. (pw, n) \<in> set pws"
    then show "\<exists>w i. pw = persisted_of w i \<and> hm_get (worker_infos st) w = Some i"
      using disk_okD(2) [OF disk] unfolding pws by blast
  next
    assume "\<exists>w i. pw = persisted_of w i \<and> hm_get (worker_infos st) w = Some i"
    then show "\<exists>n. (pw, n) \<in> set pws" using disk_okD(1) [OF disk] is_worker_file_name unfolding pws by blast
  qed
  have info: "worker_info_from (persisted_of w i) = i" "pw_worker_id (persisted_of w i) = w"
    "deal_id_from (pw_deal_id (persisted_of w i)) = wi_deal_id i" if "hm_get (worker_infos st) w = Some i" for w i
    using canon [OF that] by (simp_all add: worker_info_from_def persisted_of_def)
  show "map_of (loaded_infos pws) = hm_get (worker_infos st)"
  proof (rule map_of_graph)
    fix w i
    have "(w, i) \<in> set (loaded_infos pws) \<longleftrightarrow> (\<exists>pw. (\<exists>n. (pw, n) \<in> set pws) \<and> pw_worker_id pw = w \<and> worker_info_from pw = i)"
      by (force simp: loaded_infos_def)
    then show "(w, i) \<in> set (loaded_infos pws) \<longleftrightarrow> hm_get (worker_infos st) w = Some i"
      unfolding mem using info by metis
  qed
  show "map_of (loaded_ids pws) = worker_ids st"
  proof (rule map_of_graph)
    fix d w
    have "(d, w) \<in> set (loaded_ids pws) \<longleftrightarrow> (\<exists>pw. (\<exists>n. (pw, n) \<in> set pws) \<and> pw_worker_id pw = w \<and> deal_id_from (pw_deal_id pw) = d)"
      by (force simp: loaded_ids_def)
    also have "\<dots> \<longleftrightarrow> deal_of st w = Some d" unfolding mem deal_of_def map_option_eq_Some using info by metis
    finally show "(d, w) \<in> set (loaded_ids pws) \<longleftrightarrow> worker_ids st d = Some w"
      using ok unfolding workers_ok_def by metis
  qed
qed

section \<open>Properties\<close>


text \<open>A node that created a worker, deactivated it, and starts again.\<close>

definition demo_created :: "(string, nat, nat) workers" where
  "demo_created = \<lparr>worker_ids = [demo_deal \<mapsto> WorkerId ''w1''], worker_infos = [(WorkerId ''w1'', demo_info)],
     workers_dir = [''w1_info.toml'' \<mapsto> ''t''],
     w_key_storage = \<lparr>worker_key_pairs = [WorkerId ''w1'' \<mapsto> ''w1''],
       key_pairs_dir = [''w1_keypair.toml'' \<mapsto> ''w1''], root_key_pair = ''host''\<rparr>,
     runtimes = [(WorkerId ''w1'', 0)], w_core_manager = 1, runtime_counter = 1,
     sent_events = [WorkerCreated (WorkerId ''w1'') 0]\<rparr>"

lemma demo_create: "create_worker demo_env (demo_answers ''w1'') demo_params demo_workers = Some (Inr (WorkerId ''w1''), demo_created)"
  by (simp add: create_worker_def demo_created_def demo_eval)

lemma demo_normal: "normalize ''ab'' = ''ab''"
  by code_simp

lemma demo_laws: "worker_file_laws demo_env"
  by (auto simp: worker_file_laws_def demo_env_def demo_persisted_def split: if_splits)

lemma demo_granted: "runtimes_granted demo_env (\<lambda>n. Some (Inr n)) (\<lambda>_. True)"
  by (simp add: runtimes_granted_def demo_env_def)




text \<open>
  C33: creating a worker and removing it again brings back the deals, the registered workers, the runtimes, the
  key pairs and both directories, tells the subsystems of both, and leaves the core manager as the
  creation left it: the units of the worker stay assigned.
\<close>

theorem create_remove_roundtrip:
  assumes "create_worker env ans p st = Some (Inr w, st1)"
    and "hm_get (worker_infos st) w = None" "hm_get (runtimes st) w = None"
    and "workers_dir st (worker_file_name w) = None" "key_pairs_dir (w_key_storage st) (keypair_file_name w) = None"
    and "worker_key_pairs (w_key_storage st) w = None"
  shows "\<exists>st2 n. remove_worker True (None :: 'e option) None w st1 = (Inr (), st2)
    \<and> worker_ids st2 = worker_ids st \<and> hm_get (worker_infos st2) = hm_get (worker_infos st)
    \<and> hm_get (runtimes st2) = hm_get (runtimes st) \<and> workers_dir st2 = workers_dir st
    \<and> w_key_storage st2 = w_key_storage st
    \<and> sent_events st2 = sent_events st @ [WorkerCreated w n, WorkerRemoved w]
    \<and> w_core_manager st2 = w_core_manager st1"
proof (rule create_worker_Inr [OF assms(1)])
  fix ks bytes a cm rt
  assume d: "worker_ids st (wp_deal_id p) = None" and w: "w = WorkerId (kp_peer_id (we_keys env) (ca_key_pair ans))"
    and ks: "create_key_pair (we_keys env) (ca_key_write ans) (ca_key_pair ans) (w_key_storage st) = (Inr (ca_key_pair ans), ks)"
    and st1: "st1 = st\<lparr>worker_ids := (worker_ids st)(wp_deal_id p \<mapsto> w),
              worker_infos := hm_insert w (created_info p) (worker_infos st),
              workers_dir := (workers_dir st)(worker_file_name w \<mapsto> bytes), w_key_storage := ks,
              runtimes := hm_insert w rt (runtimes st), w_core_manager := cm,
              runtime_counter := runtime_counter st + 1,
              sent_events := sent_events st @ [WorkerCreated w (card (logical_core_ids a))]\<rparr>"
  obtain kb where kb: "ks = (w_key_storage st)\<lparr>key_pairs_dir := (key_pairs_dir (w_key_storage st))(keypair_file_name w \<mapsto> kb),
             worker_key_pairs := (worker_key_pairs (w_key_storage st))(w \<mapsto> ca_key_pair ans)\<rparr>"
    using ks unfolding create_key_pair_Inr w by blast
  obtain st2 where st2: "remove_worker True (None :: 'e option) None w st1 = (Inr (), st2)"
    "st2 = st1\<lparr>worker_ids := (worker_ids st1)(wp_deal_id p := None), worker_infos := hm_remove w (worker_infos st1),
            workers_dir := (workers_dir st1)(worker_file_name w := None),
            w_key_storage := (w_key_storage st1)
              \<lparr>key_pairs_dir := (key_pairs_dir (w_key_storage st1))(keypair_file_name w := None),
               worker_key_pairs := (worker_key_pairs (w_key_storage st1))(w := None)\<rparr>,
            runtimes := hm_remove w (runtimes st1), sent_events := sent_events st1 @ [WorkerRemoved w]\<rparr>"
    by (simp add: remove_worker_Inr has_key_file_def st1 kb created_info_def)
  have "w_key_storage st2 = w_key_storage st" using assms(5,6) by (simp add: st2(2) st1 kb fun_upd_idem)
  then show ?thesis using st2(1) d assms(2-4)
    by (intro exI [of _ st2] exI [of _ "card (logical_core_ids a)"]) (simp add: st2(2) st1 fun_eq_iff fun_upd_idem)
qed

theorem create_remove_roundtrip_witness:
  "\<exists>st2 n. remove_worker True (None :: unit option) None (WorkerId ''w1'') demo_created = (Inr (), st2)
     \<and> worker_ids st2 = Map.empty \<and> workers_dir st2 = Map.empty
     \<and> sent_events st2 = [WorkerCreated (WorkerId ''w1'') n, WorkerRemoved (WorkerId ''w1'')]
     \<and> w_core_manager st2 = 1 \<and> w_core_manager demo_workers = 0"
  using create_remove_roundtrip [OF demo_create, where 'e = unit]
  by (simp add: demo_workers_def) (auto simp: demo_created_def)

text \<open>
  A creation that fails registers nothing: the deals, the registered workers, the runtimes and the events are as
  before.
\<close>

theorem create_worker_error:
  assumes "create_worker env ans p st = Some (Inl e, st')"
    and "w = WorkerId (kp_peer_id (we_keys env) (ca_key_pair ans))"
    and "hm_get (worker_infos st) w = None" "hm_get (runtimes st) w = None"
  shows "worker_ids st' = worker_ids st \<and> hm_get (worker_infos st') = hm_get (worker_infos st)
    \<and> hm_get (runtimes st') = hm_get (runtimes st) \<and> sent_events st' = sent_events st"
proof -
  have key: "worker_ids t = worker_ids s \<and> worker_infos t = worker_infos s \<and> runtimes t = runtimes s \<and> sent_events t = sent_events s"
    if "cw_create_key env wr kp s = (r, t)" for wr kp r s t
    using that by (auto simp: cw_create_key_def split: prod.splits sum.splits)
  have store: "worker_ids t = worker_ids s \<and> worker_infos t = worker_infos s \<and> runtimes t = runtimes s \<and> sent_events t = sent_events s"
    if "store_worker env wr v d c cus s = (r, t)" for wr v d c cus r s t
    using that by (auto simp: store_worker_def split: prod.splits sum.splits)
  show ?thesis
  proof (cases "worker_ids st (wp_deal_id p)")
    case (Some v)
    then show ?thesis using assms(1) by (simp add: create_worker_def cw_check_def)
  next
    case None
    obtain r st1 where k: "cw_create_key env (ca_key_write ans) (ca_key_pair ans) st = (r, st1)" by fastforce
    show ?thesis
    proof (cases r)
      case (Inl e')
      then show ?thesis using assms(1) k None key [OF k] by (simp add: create_worker_def cw_check_def)
    next
      case (Inr v)
      then have v: "v = w" using k assms(2) by (simp add: cw_create_key_Inr) blast
      obtain r2 st2 where s: "store_worker env (ca_info_write ans) w (wp_deal_id p) (wp_creator p) (wp_cu_ids p) st1 = (r2, st2)" by fastforce
      note same = key [OF k] store [OF s]
      have run: "create_worker env ans p st = (case r2 of
           Inl e \<Rightarrow> (let (e', st3) = cw_undo_key (ca_undo_fail ans) w e st2 in Some (Inl e', st3))
         | Inr info \<Rightarrow> (case cw_register env (ca_build ans) w info st2 of
             None \<Rightarrow> None | Some (Inl e, st3) \<Rightarrow> Some (Inl e, st3)
           | Some (Inr thread_count, st3) \<Rightarrow> Some (cw_notify (ca_sent ans) (wp_deal_id p) w thread_count st3)))"
        using None k s Inr v by (simp add: create_worker_def cw_check_def)
      show ?thesis
      proof (cases r2)
        case (Inl e')
        then show ?thesis using run assms(1) same by (auto simp: cw_undo_key_def Let_def split: prod.splits sum.splits)
      next
        case (Inr info)
        have "wi_deal_id info = wp_deal_id p" using s Inr by (simp add: store_worker_Inr)
        then show ?thesis using run Inr assms(1,3,4) same None
          by (auto simp: cw_register_def cw_notify_def Let_def fun_eq_iff split: option.splits prod.splits sum.splits if_splits)
      qed
    qed
  qed
qed

theorem create_worker_error_witness:
  "\<exists>st'. create_worker demo_env ((demo_answers ''w1'')\<lparr>ca_sent := False\<rparr>) demo_params demo_workers
       = Some (Inl (FailedToNotifySubsystem (WorkerId ''w1'')), st') \<and> worker_ids st' = Map.empty \<and> sent_events st' = []"
proof -
  obtain st' where c: "create_worker demo_env ((demo_answers ''w1'')\<lparr>ca_sent := False\<rparr>) demo_params demo_workers
       = Some (Inl (FailedToNotifySubsystem (WorkerId ''w1'')), st')"
    by (simp add: create_worker_def demo_eval)
  then show ?thesis using create_worker_error [OF c refl]
    by (simp add: demo_workers_def demo_answers_def demo_env_def demo_keys_def)
qed

text \<open>
  A creation that fails because no cores are left keeps the key pair and the file of the worker that
  was not created, so that the next start of the node registers it.
\<close>

theorem create_without_cores:
  assumes "worker_ids st (wp_deal_id p) = None"
    and "create_key_pair (we_keys env) (ca_key_write ans) (ca_key_pair ans) (w_key_storage st) = (Inr (ca_key_pair ans), ks)"
    and "w = WorkerId (kp_peer_id (we_keys env) (ca_key_pair ans))"
    and "we_ser env (persisted_of w (created_info p)) = Inr bytes" "ca_info_write ans = WriteOk"
    and "we_acquire env (acquire_request_new (wp_cu_ids p) Deal) (w_core_manager st) = Some (Inl e, cm)"
  shows "\<exists>st'. create_worker env ans p st = Some (Inl (FailedToAssignCores w e), st')
    \<and> worker_ids st' = worker_ids st \<and> worker_infos st' = worker_infos st
    \<and> w_key_storage st' = ks \<and> workers_dir st' = (workers_dir st)(worker_file_name w \<mapsto> bytes)"
  using assms
  by (simp add: create_worker_def cw_check_def cw_create_key_def store_worker_def persist_worker_def
      created_info_def persisted_of_def cw_register_def build_runtime_def Let_def)

definition demo_refusal :: acquire_error where
  "demo_refusal = NotFoundAvailableCores 1 0 []"

definition demo_refusing_env :: "(string, unit, unit, nat) workers_env" where
  "demo_refusing_env = demo_env\<lparr>we_acquire := (\<lambda>_ n. Some (Inl demo_refusal, n))\<rparr>"

theorem create_without_cores_witness:
  "\<exists>e st'. create_worker demo_refusing_env (demo_answers ''w1'') demo_params demo_workers
       = Some (Inl (FailedToAssignCores (WorkerId ''w1'') e), st')
     \<and> worker_ids st' = Map.empty \<and> workers_dir st' = [''w1_info.toml'' \<mapsto> ''t'']"
proof -
  obtain ks where "create_key_pair (we_keys demo_refusing_env) (ca_key_write (demo_answers ''w1'')) (ca_key_pair (demo_answers ''w1''))
      (w_key_storage demo_workers) = (Inr (ca_key_pair (demo_answers ''w1'')), ks)"
    by (simp add: demo_refusing_env_def demo_eval)
  from create_without_cores [OF _ this refl, of demo_params "''t''" demo_refusal "w_core_manager demo_workers"]
  show ?thesis
    by (simp add: demo_refusing_env_def demo_eval created_info_def persisted_of_def) blast
qed

end
