(* ===== verification/Particle_Protocol.thy ===== *)
theory Particle_Protocol
  imports Nox_Prelude
begin

text \<open>
  Particles and the protocol that carries them between peers: \<^verbatim>\<open>particle-protocol/src\<close>
  (\<^verbatim>\<open>particle.rs\<close>, \<^verbatim>\<open>error.rs\<close>, \<^verbatim>\<open>contact.rs\<close>, \<^verbatim>\<open>libp2p_protocol/message.rs\<close>,
  \<^verbatim>\<open>libp2p_protocol/upgrade.rs\<close>, \<^verbatim>\<open>libp2p_protocol/codec/fluence.rs\<close>).  A text is the list of its
  UTF-8 bytes.  The key crate, the MessagePack format and the length-prefixed framing are parameters.
\<close>

unbundle bit_operations_syntax

section \<open>Particles\<close>

record particle =
  particle_id :: string
  init_peer_id :: peer_id
  timestamp :: u64
  ttl :: u32
  script :: string
  signature :: "8 word list"
  data :: "8 word list"

definition deadline :: "particle \<Rightarrow> u64 option" where
  "deadline p = checked_add (timestamp p) (ucast (ttl p))"

text \<open>The clock is read in milliseconds as a \<^verbatim>\<open>u128\<close>, and cut to 64 bits in \<^verbatim>\<open>time_to_live\<close>.\<close>

definition is_expired :: "128 word \<Rightarrow> particle \<Rightarrow> bool" where
  "is_expired now_ms p = (case deadline p of Some d \<Rightarrow> ucast d < now_ms | None \<Rightarrow> True)"

definition checked_sub :: "'a::len word \<Rightarrow> 'a word \<Rightarrow> 'a word option" where
  "checked_sub a b = (if b \<le> a then Some (a - b) else None)"

definition time_to_live :: "128 word \<Rightarrow> particle \<Rightarrow> u64" where
  "time_to_live now_ms p =
     (case Option.bind (deadline p) (\<lambda>d. checked_sub d (ucast now_ms)) of Some ms \<Rightarrow> ms | None \<Rightarrow> 0)"

subsection \<open>Signing\<close>

definition string_bytes :: "string \<Rightarrow> 8 word list" where
  "string_bytes s = map (\<lambda>c. of_nat (of_char c)) s"

text \<open>\<^verbatim>\<open>to_le_bytes\<close> of a word of \<open>k\<close> bytes.\<close>

definition to_le_bytes :: "nat \<Rightarrow> 'a::len word \<Rightarrow> 8 word list" where
  "to_le_bytes k x = map (\<lambda>i. ucast (drop_bit (8 * i) x)) [0..<k]"

definition as_bytes :: "particle \<Rightarrow> 8 word list" where
  "as_bytes p = string_bytes (particle_id p) @ to_le_bytes 8 (timestamp p) @ to_le_bytes 4 (ttl p)
     @ string_bytes (script p)"

datatype 'e particle_error =
    InvalidKeypair string peer_id peer_id
  | SigningFailed 'e string
  | SignatureVerificationFailed 'e string peer_id
  | DecodingError 'e string

record ('kp, 'pk, 'e) sign_api =
  sa_peer_id :: "'kp \<Rightarrow> peer_id"
  sa_sign :: "'kp \<Rightarrow> 8 word list \<Rightarrow> 'e + 8 word list"
  sa_public_of_peer :: "peer_id \<Rightarrow> 'e + 'pk"
  sa_verify :: "'pk \<Rightarrow> 8 word list \<Rightarrow> 8 word list \<Rightarrow> 'e + unit"

definition sign :: "('kp, 'pk, 'e) sign_api \<Rightarrow> 'kp \<Rightarrow> particle \<Rightarrow> 'e particle_error + particle" where
  "sign api kp p =
     (if init_peer_id p \<noteq> sa_peer_id api kp
      then Inl (InvalidKeypair (particle_id p) (init_peer_id p) (sa_peer_id api kp))
      else case sa_sign api kp (as_bytes p) of
             Inl e \<Rightarrow> Inl (SigningFailed e (particle_id p))
           | Inr sig \<Rightarrow> Inr (p\<lparr>signature := sig\<rparr>))"

definition verify :: "('kp, 'pk, 'e) sign_api \<Rightarrow> particle \<Rightarrow> 'e particle_error + unit" where
  "verify api p =
     (case sa_public_of_peer api (init_peer_id p) of
        Inl e \<Rightarrow> Inl (DecodingError e (particle_id p))
      | Inr pk \<Rightarrow> (case sa_verify api pk (as_bytes p) (signature p) of
          Inl e \<Rightarrow> Inl (SignatureVerificationFailed e (particle_id p) (init_peer_id p))
        | Inr _ \<Rightarrow> Inr ()))"

text \<open>
  What is relied on of the key crate: the public key is in the peer id of a key pair, and accepts the
  pair's signatures.
\<close>

definition sign_laws :: "('kp, 'pk, 'e) sign_api \<Rightarrow> bool" where
  "sign_laws api \<longleftrightarrow> (\<forall>kp. \<exists>pk. sa_public_of_peer api (sa_peer_id api kp) = Inr pk
     \<and> (\<forall>msg sig. sa_sign api kp msg = Inr sig \<longrightarrow> sa_verify api pk msg sig = Inr ()))"

section \<open>Contacts\<close>

type_synonym multiaddr = string

record contact =
  c_peer_id :: peer_id
  c_addresses :: "multiaddr list"

definition contact_new :: "peer_id \<Rightarrow> multiaddr list \<Rightarrow> contact" where
  "contact_new p addrs = \<lparr>c_peer_id = p, c_addresses = addrs\<rparr>"

definition contact_fmt :: "(nat \<Rightarrow> string) \<Rightarrow> contact \<Rightarrow> string" where
  "contact_fmt show_nat c =
     (if c_addresses c = [] then c_peer_id c @ '' @ [no addr]''
      else c_peer_id c @ '' @ ['' @ hd (c_addresses c) @ '', ('' @ show_nat (length (c_addresses c) - 1) @ '' more)]'')"

section \<open>Messages\<close>

text \<open>A one-shot channel is known by a number; \<open>'err\<close> is the text of an I/O error.\<close>

datatype send_status =
    SendOk
  | SendTimedOut u64
  | SendProtocolError string
  | SendNotConnected
  | SendConnectionPoolDied

definition send_status_default :: send_status where
  "send_status_default = SendConnectionPoolDied"

datatype completion_channel = ChannelIgnore | ChannelOneshot nat

fun outlet :: "completion_channel \<Rightarrow> nat option" where
  "outlet ChannelIgnore = None"
| "outlet (ChannelOneshot out) = Some out"

datatype handler_message = OutParticle particle completion_channel | InParticle particle | HandlerUpgrade

datatype protocol_message = ParticleMessage particle | UpgradeMessage

text \<open>\<open>None\<close> is the panic of \<^verbatim>\<open>unreachable!\<close>.\<close>

fun into_protocol_message :: "handler_message \<Rightarrow> (protocol_message \<times> nat option) option" where
  "into_protocol_message (OutParticle p channel) = Some (ParticleMessage p, outlet channel)"
| "into_protocol_message HandlerUpgrade = Some (UpgradeMessage, None)"
| "into_protocol_message (InParticle p) = None"

fun handler_message_from :: "protocol_message \<Rightarrow> handler_message" where
  "handler_message_from (ParticleMessage p) = InParticle p"
| "handler_message_from UpgradeMessage = HandlerUpgrade"

section \<open>The codec\<close>

text \<open>
  \<open>codec_api\<close> is what the codec calls: the MessagePack format, and the framing that puts an unsigned
  variable-length integer before each frame.  A decoder consumes its buffer: \<open>None\<close> is a frame that is
  not complete.
\<close>

record 'e codec_api =
  msgpack_ser :: "protocol_message \<Rightarrow> 'e + 8 word list"
  msgpack_de :: "8 word list \<Rightarrow> 'e + protocol_message"
  uvi_encode :: "nat \<Rightarrow> 8 word list \<Rightarrow> 8 word list \<Rightarrow> 'e + 8 word list"
  uvi_decode :: "nat \<Rightarrow> 8 word list \<Rightarrow> 'e + (8 word list option \<times> 8 word list)"

datatype 'e fluence_codec_error = CodecIo 'e | CodecLength 'e | CodecSerialize 'e | CodecDeserialize 'e

definition MAX_BUF_SIZE :: nat where
  "MAX_BUF_SIZE = 100 * 1024 * 1024"

definition codec_encode :: "'e codec_api \<Rightarrow> protocol_message \<Rightarrow> 8 word list \<Rightarrow> 'e fluence_codec_error + 8 word list" where
  "codec_encode api item dst =
     (case msgpack_ser api item of
        Inl e \<Rightarrow> Inl (CodecSerialize e)
      | Inr msg_buf \<Rightarrow> (case uvi_encode api MAX_BUF_SIZE msg_buf dst of
          Inl e \<Rightarrow> Inl (CodecIo e)
        | Inr dst' \<Rightarrow> Inr dst'))"

definition codec_decode ::
    "'e codec_api \<Rightarrow> 8 word list \<Rightarrow> 'e fluence_codec_error + (protocol_message option \<times> 8 word list)" where
  "codec_decode api src =
     (case uvi_decode api MAX_BUF_SIZE src of
        Inl e \<Rightarrow> Inl (CodecIo e)
      | Inr (None, src') \<Rightarrow> Inr (None, src')
      | Inr (Some bytes, src') \<Rightarrow> (case msgpack_de api bytes of
          Inl e \<Rightarrow> Inl (CodecDeserialize e)
        | Inr msg \<Rightarrow> Inr (Some msg, src')))"

text \<open>An I/O error of the codec: it keeps the error itself or wraps it as an invalid input.\<close>

datatype 'e io_failure = IoError 'e | IoInvalidInput 'e | IoUnexpectedEof

fun io_error_from :: "'e fluence_codec_error \<Rightarrow> 'e io_failure" where
  "io_error_from (CodecIo e) = IoError e"
| "io_error_from (CodecLength e) = IoInvalidInput e"
| "io_error_from (CodecSerialize e) = IoInvalidInput e"
| "io_error_from (CodecDeserialize e) = IoInvalidInput e"

section \<open>Upgrades\<close>

text \<open>A \<^verbatim>\<open>Duration\<close> is counted in milliseconds.\<close>

definition duration_from_secs :: "u64 \<Rightarrow> u64" where
  "duration_from_secs s = 1000 * s"

record protocol_config =
  upgrade_timeout :: u64
  outbound_substream_timeout :: u64

definition protocol_config_new :: "u64 \<Rightarrow> u64 \<Rightarrow> protocol_config" where
  "protocol_config_new up out = \<lparr>upgrade_timeout = up, outbound_substream_timeout = out\<rparr>"

definition default_upgrade_timeout :: u64 where
  "default_upgrade_timeout = duration_from_secs 10"

definition default_outbound_substream_timeout :: u64 where
  "default_outbound_substream_timeout = duration_from_secs 10"

definition protocol_config_default :: protocol_config where
  "protocol_config_default = protocol_config_new default_upgrade_timeout default_outbound_substream_timeout"

text \<open>
  The inbound side reads one frame from the socket's bytes; a stream that ends before a frame is
  complete is an error.
\<close>

definition upgrade_inbound :: "'e codec_api \<Rightarrow> 8 word list \<Rightarrow> 'e io_failure + handler_message" where
  "upgrade_inbound api socket =
     (case codec_decode api socket of
        Inl e \<Rightarrow> Inl (io_error_from e)
      | Inr (None, _) \<Rightarrow> Inl IoUnexpectedEof
      | Inr (Some msg, _) \<Rightarrow> Inr (handler_message_from msg))"

text \<open>
  The outbound side writes one frame and closes; \<open>io\<close> is the socket's failure, if any.  The result is
  what is returned, the bytes that were written, and what is answered on the message's channel;
  \<open>None\<close> is the panic for a message that is only ever received.
\<close>

definition upgrade_outbound ::
    "'e codec_api \<Rightarrow> ('e io_failure \<Rightarrow> string) \<Rightarrow> 'e option \<Rightarrow> handler_message
      \<Rightarrow> (('e io_failure + 8 word list) \<times> (nat \<times> send_status) option) option" where
  "upgrade_outbound api show_error io m =
     (case into_protocol_message m of
        None \<Rightarrow> None
      | Some (msg, channel) \<Rightarrow>
          (let result = (case codec_encode api msg [] of
               Inl e \<Rightarrow> Inl (io_error_from e)
             | Inr bytes \<Rightarrow> (case io of Some e \<Rightarrow> Inl (IoError e) | None \<Rightarrow> Inr bytes))
           in Some (result, map_option (\<lambda>out. (out,
               case result of Inr _ \<Rightarrow> SendOk | Inl e \<Rightarrow> SendProtocolError (show_error e))) channel)))"

text \<open>
  What is relied on of the formats: a serialised message is read back, and a frame that is not
  longer than the bound is put at the end of the buffer and taken from its front.
\<close>

definition codec_laws :: "'e codec_api \<Rightarrow> bool" where
  "codec_laws api \<longleftrightarrow>
     (\<forall>msg bytes. msgpack_ser api msg = Inr bytes \<longrightarrow> msgpack_de api bytes = Inr msg)
   \<and> (\<forall>max bytes. length bytes \<le> max \<longrightarrow>
        (\<exists>frame. (\<forall>dst. uvi_encode api max bytes dst = Inr (dst @ frame))
           \<and> (\<forall>rest. uvi_decode api max (frame @ rest) = Inr (Some bytes, rest))))"

section \<open>Little-endian bytes\<close>

text \<open>The word whose little-endian bytes are given.\<close>

fun le_value :: "8 word list \<Rightarrow> 'a::len word" where
  "le_value [] = 0"
| "le_value (b # bs) = ucast b OR push_bit 8 (le_value bs)"

lemma bit_le_value:
  "bit (le_value bs :: 'a::len word) n \<longleftrightarrow> n < LENGTH('a) \<and> n div 8 < length bs \<and> bit (bs ! (n div 8)) (n mod 8)"
proof (induction bs arbitrary: n)
  case (Cons b bs)
  show ?case
  proof (cases "n < 8")
    case True
    then show ?thesis by (auto simp: bit_or_iff bit_push_bit_iff bit_ucast_iff)
  next
    case False
    then obtain m where n: "n = m + 8" by (metis add.commute le_add_diff_inverse not_less)
    have b: "\<not> bit b (m + 8)" using bit_imp_le_length [of b "m + 8"] by auto
    have "n div 8 = Suc (m div 8)" "n mod 8 = m mod 8" using n by simp_all
    then show ?thesis using Cons.IH [of m] b n by (auto simp: bit_or_iff bit_push_bit_iff bit_ucast_iff)
  qed
qed simp

lemma le_value_byte:
  assumes "i < length bs" "8 * length bs \<le> LENGTH('a::len)"
  shows "ucast (drop_bit (8 * i) (le_value bs :: 'a word)) = bs ! i"
proof (rule bit_word_eqI)
  fix n assume "n < LENGTH(8)"
  then have n: "n < 8" by simp
  then have "(8 * i + n) div 8 = i" "(8 * i + n) mod 8 = n" by simp_all
  moreover have "8 * i + n < LENGTH('a)" using assms n by linarith
  ultimately show "bit (ucast (drop_bit (8 * i) (le_value bs :: 'a word)) :: 8 word) n = bit (bs ! i) n"
    using assms(1) n by (simp add: bit_ucast_iff bit_drop_bit_eq bit_le_value)
qed

lemma to_le_bytes_length [simp]: "length (to_le_bytes k x) = k"
  by (simp add: to_le_bytes_def)

lemma to_le_bytes_value:
  assumes "length bs = k" "8 * k \<le> LENGTH('a::len)"
  shows "to_le_bytes k (le_value bs :: 'a word) = bs"
proof (rule nth_equalityI)
  fix i assume i: "i < length (to_le_bytes k (le_value bs :: 'a word))"
  then have "to_le_bytes k (le_value bs :: 'a word) ! i = ucast (drop_bit (8 * i) (le_value bs :: 'a word))"
    by (simp add: to_le_bytes_def)
  also have "\<dots> = bs ! i" using i assms by (intro le_value_byte) simp_all
  finally show "to_le_bytes k (le_value bs :: 'a word) ! i = bs ! i" .
qed (simp add: assms)

lemma to_le_bytes_inject:
  fixes x y :: "'a::len word"
  assumes "to_le_bytes k x = to_le_bytes k y" "8 * k = LENGTH('a)"
  shows "x = y"
proof (rule bit_word_eqI)
  fix n assume "n < LENGTH('a)"
  then have i: "n div 8 < k" using assms(2) by auto
  have "(to_le_bytes k x) ! (n div 8) = (to_le_bytes k y) ! (n div 8)" using assms(1) by simp
  then have "(ucast (drop_bit (8 * (n div 8)) x) :: 8 word) = ucast (drop_bit (8 * (n div 8)) y)"
    using i by (simp add: to_le_bytes_def)
  then have "bit (ucast (drop_bit (8 * (n div 8)) x) :: 8 word) (n mod 8) = bit (ucast (drop_bit (8 * (n div 8)) y) :: 8 word) (n mod 8)"
    by simp
  then show "bit x n = bit y n" by (simp add: bit_ucast_iff bit_drop_bit_eq)
qed

lemma string_bytes_inject: "string_bytes s = string_bytes t \<longleftrightarrow> s = t"
proof -
  have "inj (\<lambda>c :: char. of_nat (of_char c) :: 8 word)"
  proof (rule injI)
    fix c d :: char assume "(of_nat (of_char c) :: 8 word) = of_nat (of_char d)"
    then have "unat (of_nat (of_char c) :: 8 word) = unat (of_nat (of_char d) :: 8 word)" by simp
    then show "c = d" by (simp add: unat_of_nat)
  qed
  then show ?thesis by (simp add: string_bytes_def inj_map_eq_map)
qed

lemma string_bytes_char: "string_bytes [char_of (unat (b :: 8 word))] = [b]"
proof -
  have "unat b < 256" using unsigned_less [of b] by simp
  then show ?thesis by (simp add: string_bytes_def)
qed

lemma unat_ucast_up:
  assumes "LENGTH('a::len) \<le> LENGTH('b::len)"
  shows "unat (ucast (x :: 'a word) :: 'b word) = unat x"
proof -
  have "unat x < 2 ^ LENGTH('b)"
    using unsigned_less [of x] assms by (meson less_le_trans one_le_numeral power_increasing)
  then show ?thesis by (simp add: unsigned_ucast_eq take_bit_nat_eq_self)
qed

section \<open>Properties\<close>

text \<open>
  C38: what is left of a particle's life, on the numbers themselves: it is expired exactly when the
  clock is past the sum of timestamp and time to live, or that sum does not fit 64 bits; and the
  remaining time is the difference, never negative, and zero when the sum overflows.
\<close>

theorem particle_lifetime:
  assumes "unat now < 2 ^ 64"
  shows "(is_expired now p \<longleftrightarrow> unat (timestamp p) + unat (ttl p) < unat now
            \<or> 2 ^ 64 \<le> unat (timestamp p) + unat (ttl p))
    \<and> unat (time_to_live now p) =
        (if 2 ^ 64 \<le> unat (timestamp p) + unat (ttl p) then 0 else unat (timestamp p) + unat (ttl p) - unat now)"
proof (cases "deadline p")
  case None
  then have "2 ^ 64 \<le> unat (timestamp p) + unat (ttl p)"
    by (simp add: deadline_def checked_add_None_iff unat_ucast_up)
  then show ?thesis using None by (simp add: is_expired_def time_to_live_def)
next
  case (Some d)
  then have d: "unat d = unat (timestamp p) + unat (ttl p)"
    by (simp add: deadline_def checked_add_Some_iff unat_ucast_up)
  have lt: "unat d < 2 ^ 64" using unsigned_less [of d] by simp
  have "(ucast d :: 128 word) < now \<longleftrightarrow> unat d < unat now" by (simp add: word_less_nat_alt unat_ucast_up)
  moreover have n: "unat (ucast now :: u64) = unat now" using assms by (simp add: unsigned_ucast_eq take_bit_nat_eq_self)
  have "unat (case checked_sub d (ucast now :: u64) of Some ms \<Rightarrow> ms | None \<Rightarrow> 0) = unat d - unat now"
    by (simp add: checked_sub_def word_le_nat_alt n unat_sub)
  ultimately show ?thesis using Some d lt by (simp add: is_expired_def time_to_live_def)
qed

definition demo_particle :: particle where
  "demo_particle = \<lparr>particle_id = ''a'', init_peer_id = ''peer'', timestamp = 98, ttl = 7, script = ''xyz'',
     signature = [], data = []\<rparr>"

theorem particle_lifetime_witness:
  "\<not> is_expired 100 demo_particle \<and> unat (time_to_live 100 demo_particle) = 5"
  using particle_lifetime [of 100 demo_particle] by (simp add: demo_particle_def)


definition demo_sign_api :: "(peer_id, peer_id, unit) sign_api" where
  "demo_sign_api = \<lparr>sa_peer_id = (\<lambda>kp. kp), sa_sign = (\<lambda>kp msg. Inr (string_bytes kp @ msg)),
     sa_public_of_peer = Inr, sa_verify = (\<lambda>pk msg sig. if sig = string_bytes pk @ msg then Inr () else Inl ())\<rparr>"

lemma demo_sign_laws: "sign_laws demo_sign_api"
  by (simp add: sign_laws_def demo_sign_api_def)

definition demo_signed :: particle where
  "demo_signed = demo_particle\<lparr>signature := string_bytes ''peer'' @ as_bytes demo_particle\<rparr>"

lemma demo_sign: "sign demo_sign_api ''peer'' demo_particle = Inr demo_signed"
  by (simp add: sign_def demo_sign_api_def demo_particle_def demo_signed_def as_bytes_def)




text \<open>
  A particle crosses the wire unchanged: what the outbound upgrade writes for it is read by the inbound
  upgrade as exactly that particle, whatever follows on the stream, and the sender's channel is
  answered with success.
\<close>

theorem particle_crosses_wire:
  assumes "codec_laws api" "msgpack_ser api (ParticleMessage p) = Inr bytes" "length bytes \<le> MAX_BUF_SIZE"
  shows "\<exists>frame. upgrade_outbound api show_error None (OutParticle p (ChannelOneshot out)) = Some (Inr frame, Some (out, SendOk))
    \<and> (\<forall>rest. upgrade_inbound api (frame @ rest) = Inr (InParticle p))"
proof -
  obtain frame where f: "\<And>dst. uvi_encode api MAX_BUF_SIZE bytes dst = Inr (dst @ frame)"
    "\<And>rest. uvi_decode api MAX_BUF_SIZE (frame @ rest) = Inr (Some bytes, rest)"
    using assms(1,3) unfolding codec_laws_def by blast
  have "msgpack_de api bytes = Inr (ParticleMessage p)" using assms(1,2) unfolding codec_laws_def by blast
  then show ?thesis using assms(2) f
    by (intro exI [of _ frame]) (simp add: upgrade_outbound_def upgrade_inbound_def codec_encode_def codec_decode_def)
qed

definition demo_codec :: "unit codec_api" where
  "demo_codec = \<lparr>msgpack_ser = (\<lambda>m. if m = ParticleMessage demo_particle then Inr [9] else Inl ()),
     msgpack_de = (\<lambda>bs. if bs = [9] then Inr (ParticleMessage demo_particle) else Inl ()),
     uvi_encode = (\<lambda>max bs dst. if length bs \<le> max then Inr (dst @ replicate (length bs) 1 @ [0] @ bs) else Inl ()),
     uvi_decode = (\<lambda>max src. let n = length (takeWhile (\<lambda>b. b = 1) src); r = drop (n + 1) src in
       if max < n then Inl () else if length r < n then Inr (None, src) else Inr (Some (take n r), drop n r))\<rparr>"

lemma demo_codec_laws: "codec_laws demo_codec"
proof -
  have t: "takeWhile (\<lambda>b. b = 1) (replicate n 1 @ (0 :: 8 word) # bs) = replicate n 1" for n bs
    by (induction n) simp_all
  have "\<exists>frame. (\<forall>dst. uvi_encode demo_codec max bytes dst = Inr (dst @ frame))
      \<and> (\<forall>rest. uvi_decode demo_codec max (frame @ rest) = Inr (Some bytes, rest))" if "length bytes \<le> max" for max bytes
    using that by (intro exI [of _ "replicate (length bytes) 1 @ [0] @ bytes"]) (simp add: demo_codec_def t Let_def)
  moreover have "msgpack_ser demo_codec msg = Inr bytes \<Longrightarrow> msgpack_de demo_codec bytes = Inr msg" for msg bytes
    by (auto simp: demo_codec_def split: if_splits)
  ultimately show ?thesis by (simp add: codec_laws_def)
qed

theorem particle_crosses_wire_witness:
  "\<exists>frame. upgrade_outbound demo_codec (\<lambda>_. []) None (OutParticle demo_particle (ChannelOneshot 3))
       = Some (Inr frame, Some (3, SendOk)) \<and> upgrade_inbound demo_codec (frame @ []) = Inr (InParticle demo_particle)"
proof -
  have s: "msgpack_ser demo_codec (ParticleMessage demo_particle) = Inr [9]" by (simp add: demo_codec_def)
  have l: "length [9 :: 8 word] \<le> MAX_BUF_SIZE" by (simp add: MAX_BUF_SIZE_def)
  show ?thesis using particle_crosses_wire [OF demo_codec_laws s l, of "\<lambda>_. []" 3] by blast
qed

end
