(* ===== verification/Connection_Pool.thy ===== *)
theory Connection_Pool
  imports Particle_Protocol
begin

text \<open>
  The connection pool, \<^verbatim>\<open>connection-pool/src\<close> (\<^verbatim>\<open>behaviour.rs\<close>, \<^verbatim>\<open>api.rs\<close>, \<^verbatim>\<open>connection_pool.rs\<close>):
  the behaviour that keeps contacts, dials peers, hands particles to the handlers of connections and
  incoming particles to their execution.  The swarm of \<^verbatim>\<open>libp2p\<close> drives it; its notifications are the
  labels of the step relation.  Channels are numbers; what is sent on them is kept in logs.  Tracing
  spans and metrics are left out.
\<close>

section \<open>Data\<close>

record peer =
  p_connected :: "multiaddr set"
  p_discovered :: "multiaddr set"
  p_dialing :: "multiaddr set"
  dial_promises :: "nat list"

definition peer_default :: peer where
  "peer_default = \<lparr>p_connected = {}, p_discovered = {}, p_dialing = {}, dial_promises = []\<rparr>"

definition peer_connected :: "multiaddr list \<Rightarrow> peer" where
  "peer_connected addrs = \<lparr>p_connected = set addrs, p_discovered = {}, p_dialing = {}, dial_promises = []\<rparr>"

definition peer_dialing :: "multiaddr list \<Rightarrow> nat \<Rightarrow> peer" where
  "peer_dialing addrs out = \<lparr>p_connected = {}, p_discovered = {}, p_dialing = set addrs, dial_promises = [out]\<rparr>"

text \<open>
  The surroundings of a call: the order in which a hash set is iterated, and which subscribers still
  listen.
\<close>

record pool_env =
  hash_iter :: "multiaddr set \<Rightarrow> multiaddr list"
  sub_open :: "nat \<Rightarrow> bool"

definition addresses :: "pool_env \<Rightarrow> peer \<Rightarrow> multiaddr list" where
  "addresses env p = hash_iter env (p_connected p \<union> p_discovered p \<union> p_dialing p)"

datatype lifecycle_event = Connected contact | Disconnected contact

datatype command =
    CmdConnect contact nat
  | CmdSend contact particle nat
  | CmdDial multiaddr nat
  | CmdDisconnect peer_id nat
  | CmdIsConnected peer_id nat
  | CmdGetContact peer_id nat
  | CmdCountConnections nat
  | CmdLifecycleEvents nat

datatype to_swarm =
    DialAddress multiaddr
  | DialPeer peer_id "multiaddr list"
  | CloseConnection peer_id
  | NotifyHandler peer_id handler_message

datatype reply =
    BoolReply nat bool
  | ContactReply nat "contact option"
  | StatusReply nat send_status
  | CountReply nat nat

text \<open>
  \<open>woken\<close> says that the waker was called since the last poll began; \<open>replies\<close>, \<open>delivered\<close> and
  \<open>executed\<close> are what was sent on one-shot channels, to subscribers and to the execution of particles.
\<close>

record pool =
  pool_peer_id :: peer_id
  queue :: "particle list"
  contacts :: "(peer_id, peer) hash_map"
  pool_dialing :: "(multiaddr, nat list) hash_map"
  events :: "to_swarm list"
  subscribers :: "nat list"
  commands :: "command list"
  waker :: bool
  woken :: bool
  pool_config :: protocol_config
  replies :: "reply list"
  delivered :: "(nat \<times> lifecycle_event) list"
  executed :: "particle list"

definition pool_new :: "protocol_config \<Rightarrow> peer_id \<Rightarrow> pool \<times> u64" where
  "pool_new config peer =
     (\<lparr>pool_peer_id = peer, queue = [], contacts = [], pool_dialing = [], events = [], subscribers = [], commands = [],
       waker = False, woken = False, pool_config = config, replies = [], delivered = [], executed = []\<rparr>,
      upgrade_timeout config * 2)"

section \<open>Helpers\<close>

definition wake :: "pool \<Rightarrow> pool" where
  "wake pl = (if waker pl then pl\<lparr>woken := True\<rparr> else pl)"

definition push_event :: "to_swarm \<Rightarrow> pool \<Rightarrow> pool" where
  "push_event e pl = wake (pl\<lparr>events := events pl @ [e]\<rparr>)"

definition reply_on :: "reply \<Rightarrow> pool \<Rightarrow> pool" where
  "reply_on r pl = pl\<lparr>replies := replies pl @ [r]\<rparr>"

definition reply_all :: "reply list \<Rightarrow> pool \<Rightarrow> pool" where
  "reply_all rs pl = pl\<lparr>replies := replies pl @ rs\<rparr>"

definition get_contact_impl :: "pool_env \<Rightarrow> pool \<Rightarrow> peer_id \<Rightarrow> contact option" where
  "get_contact_impl env pl p =
     map_option (\<lambda>c. \<lparr>c_peer_id = p, c_addresses = addresses env c\<rparr>) (hm_get (contacts pl) p)"

definition send_lifecycle_event :: "pool_env \<Rightarrow> lifecycle_event \<Rightarrow> pool \<Rightarrow> pool" where
  "send_lifecycle_event env ev pl =
     (let ok = filter (sub_open env) (subscribers pl)
      in pl\<lparr>subscribers := ok, delivered := delivered pl @ map (\<lambda>s. (s, ev)) ok\<rparr>)"

definition remove_contact :: "pool_env \<Rightarrow> peer_id \<Rightarrow> pool \<Rightarrow> pool" where
  "remove_contact env p pl =
     (case hm_get (contacts pl) p of
        None \<Rightarrow> pl
      | Some c \<Rightarrow>
          reply_all (map (\<lambda>out. BoolReply out False) (dial_promises c))
            (send_lifecycle_event env (Disconnected (contact_new p (addresses env c)))
               (pl\<lparr>contacts := hm_remove p (contacts pl)\<rparr>)))"

definition add_connected_address :: "pool_env \<Rightarrow> peer_id \<Rightarrow> multiaddr \<Rightarrow> pool \<Rightarrow> pool" where
  "add_connected_address env p maddr pl =
     (let pl1 = (case hm_get (contacts pl) p of
          Some c \<Rightarrow>
            reply_all (map (\<lambda>out. BoolReply out True) (dial_promises c))
              (pl\<lparr>contacts := hm_insert p
                 (c\<lparr>p_dialing := p_dialing c - {maddr}, p_discovered := p_discovered c - {maddr},
                    p_connected := insert maddr (p_connected c), dial_promises := []\<rparr>) (contacts pl)\<rparr>)
        | None \<Rightarrow> pl\<lparr>contacts := hm_insert p (peer_connected [maddr]) (contacts pl)\<rparr>)
      in case hm_get (pool_dialing pl1) maddr of
           None \<Rightarrow> pl1
         | Some outs \<Rightarrow>
             reply_all (map (\<lambda>out. ContactReply out (get_contact_impl env pl1 p)) outs)
               (pl1\<lparr>pool_dialing := hm_remove maddr (pool_dialing pl1)\<rparr>))"

definition cleanup_address :: "pool_env \<Rightarrow> peer_id option \<Rightarrow> multiaddr \<Rightarrow> pool \<Rightarrow> pool" where
  "cleanup_address env po addr pl =
     (let pl1 = (case hm_get (pool_dialing pl) addr of
          None \<Rightarrow> pl
        | Some outs \<Rightarrow> reply_all (map (\<lambda>out. ContactReply out None) outs)
            (pl\<lparr>pool_dialing := hm_remove addr (pool_dialing pl)\<rparr>))
      in case po of
           None \<Rightarrow> pl1
         | Some p \<Rightarrow> (case hm_get (contacts pl1) p of
             None \<Rightarrow> pl1
           | Some c0 \<Rightarrow>
               (let c1 = c0\<lparr>p_connected := p_connected c0 - {addr}, p_discovered := p_discovered c0 - {addr},
                            p_dialing := p_dialing c0 - {addr}\<rparr>;
                    none = (p_dialing c1 = {});
                    c2 = (if none then c1\<lparr>dial_promises := []\<rparr> else c1);
                    pl2 = reply_all (if none then map (\<lambda>out. BoolReply out False) (dial_promises c1) else [])
                            (pl1\<lparr>contacts := hm_insert p c2 (contacts pl1)\<rparr>)
                in if p_connected c2 = {} \<and> none then remove_contact env p pl2 else pl2)))"

section \<open>Commands\<close>

definition pool_dial :: "multiaddr \<Rightarrow> nat \<Rightarrow> pool \<Rightarrow> pool" where
  "pool_dial address out pl =
     push_event (DialAddress address)
       (pl\<lparr>pool_dialing := hm_insert address
          ((case hm_get (pool_dialing pl) address of None \<Rightarrow> [] | Some outs \<Rightarrow> outs) @ [out]) (pool_dialing pl)\<rparr>)"

definition pool_connect :: "pool_env \<Rightarrow> contact \<Rightarrow> nat \<Rightarrow> pool \<Rightarrow> pool" where
  "pool_connect env new_contact out pl =
     (let (addrs, pl1) =
        (case hm_get (contacts pl) (c_peer_id new_contact) of
           Some known \<Rightarrow>
             (let not_connected = (\<exists>a \<in> set (c_addresses new_contact). a \<notin> p_connected known);
                  new_addrs = {a \<in> set (c_addresses new_contact). a \<notin> p_dialing known}
              in (hash_iter env new_addrs,
                  if not_connected
                  then pl\<lparr>contacts := hm_insert (c_peer_id new_contact)
                         (known\<lparr>dial_promises := dial_promises known @ [out]\<rparr>) (contacts pl)\<rparr>
                  else reply_on (BoolReply out True) pl))
         | None \<Rightarrow>
             (c_addresses new_contact,
              pl\<lparr>contacts := hm_insert (c_peer_id new_contact) (peer_dialing (c_addresses new_contact) out) (contacts pl)\<rparr>))
      in if addrs \<noteq> [] then push_event (DialPeer (c_peer_id new_contact) addrs) pl1 else pl1)"

definition pool_disconnect :: "peer_id \<Rightarrow> nat \<Rightarrow> pool \<Rightarrow> pool" where
  "pool_disconnect p out pl = reply_on (BoolReply out True) (push_event (CloseConnection p) pl)"

definition pool_is_connected :: "peer_id \<Rightarrow> nat \<Rightarrow> pool \<Rightarrow> pool" where
  "pool_is_connected p out pl = reply_on (BoolReply out (hm_contains (contacts pl) p)) pl"

definition pool_get_contact :: "pool_env \<Rightarrow> peer_id \<Rightarrow> nat \<Rightarrow> pool \<Rightarrow> pool" where
  "pool_get_contact env p out pl = reply_on (ContactReply out (get_contact_impl env pl p)) pl"

definition pool_send :: "contact \<Rightarrow> particle \<Rightarrow> nat \<Rightarrow> pool \<Rightarrow> pool" where
  "pool_send to p out pl =
     (if c_peer_id to = pool_peer_id pl
      then wake (reply_on (StatusReply out SendOk) (pl\<lparr>queue := queue pl @ [p]\<rparr>))
      else if hm_contains (contacts pl) (c_peer_id to)
           then push_event (NotifyHandler (c_peer_id to) (OutParticle p (ChannelOneshot out))) pl
           else reply_on (StatusReply out SendNotConnected) pl)"

definition pool_count_connections :: "nat \<Rightarrow> pool \<Rightarrow> pool" where
  "pool_count_connections out pl = reply_on (CountReply out (length (contacts pl))) pl"

definition add_subscriber :: "nat \<Rightarrow> pool \<Rightarrow> pool" where
  "add_subscriber out pl = pl\<lparr>subscribers := subscribers pl @ [out]\<rparr>"

fun pool_execute :: "pool_env \<Rightarrow> command \<Rightarrow> pool \<Rightarrow> pool" where
  "pool_execute env (CmdDial addr out) pl = pool_dial addr out pl"
| "pool_execute env (CmdConnect c out) pl = pool_connect env c out pl"
| "pool_execute env (CmdDisconnect p out) pl = pool_disconnect p out pl"
| "pool_execute env (CmdIsConnected p out) pl = pool_is_connected p out pl"
| "pool_execute env (CmdGetContact p out) pl = pool_get_contact env p out pl"
| "pool_execute env (CmdSend to p out) pl = pool_send to p out pl"
| "pool_execute env (CmdCountConnections out) pl = pool_count_connections out pl"
| "pool_execute env (CmdLifecycleEvents out) pl = add_subscriber out pl"

definition add_discovered_addresses :: "peer_id \<Rightarrow> multiaddr list \<Rightarrow> pool \<Rightarrow> pool" where
  "add_discovered_addresses p addrs pl =
     (let c = (case hm_get (contacts pl) p of None \<Rightarrow> peer_default | Some c \<Rightarrow> c)
      in pl\<lparr>contacts := hm_insert p (c\<lparr>p_discovered := p_discovered c \<union> set addrs\<rparr>) (contacts pl)\<rparr>)"

section \<open>Notifications of the swarm\<close>

datatype connected_point = Dialer multiaddr | Listener multiaddr

fun remote_multiaddr :: "connected_point \<Rightarrow> multiaddr" where
  "remote_multiaddr (Dialer address) = address"
| "remote_multiaddr (Listener send_back_addr) = send_back_addr"

text \<open>The conditions and errors of a dial, as \<^verbatim>\<open>libp2p\<close> has them; errors without addresses are one case.\<close>

datatype peer_condition = CondDisconnected | CondNotDialing | CondDisconnectedAndNotDialing | CondAlways

datatype dial_error =
    DialPeerConditionFalse peer_condition
  | WrongPeerId connected_point
  | Transport "multiaddr list"
  | OtherDialError

datatype from_swarm =
    ConnectionEstablished peer_id "multiaddr list"
  | ConnectionClosed peer_id connected_point nat
  | DialFailure "peer_id option" dial_error
  | OtherSwarmEvent

definition handle_established_inbound :: "pool_env \<Rightarrow> peer_id \<Rightarrow> multiaddr \<Rightarrow> pool \<Rightarrow> pool" where
  "handle_established_inbound env p addr pl =
     send_lifecycle_event env (Connected (contact_new p [addr])) (add_connected_address env p addr pl)"

definition handle_established_outbound :: "pool_env \<Rightarrow> peer_id \<Rightarrow> multiaddr \<Rightarrow> pool \<Rightarrow> pool" where
  "handle_established_outbound env p addr pl =
     send_lifecycle_event env (Connected (contact_new p [addr])) (add_connected_address env p addr pl)"

definition handle_pending_outbound :: "pool_env \<Rightarrow> peer_id option \<Rightarrow> pool \<Rightarrow> multiaddr list" where
  "handle_pending_outbound env maybe_peer pl =
     (case maybe_peer of
        None \<Rightarrow> []
      | Some p \<Rightarrow> (case hm_get (contacts pl) p of None \<Rightarrow> [] | Some c \<Rightarrow> addresses env c))"

definition on_connection_closed :: "pool_env \<Rightarrow> peer_id \<Rightarrow> connected_point \<Rightarrow> nat \<Rightarrow> pool \<Rightarrow> pool" where
  "on_connection_closed env p cp remaining pl =
     cleanup_address env (Some p) (remote_multiaddr cp) (if remaining = 0 then remove_contact env p pl else pl)"

definition on_dial_failure :: "pool_env \<Rightarrow> peer_id option \<Rightarrow> dial_error \<Rightarrow> pool \<Rightarrow> pool" where
  "on_dial_failure env po err pl =
     (if err = DialPeerConditionFalse CondDisconnected \<or> err = DialPeerConditionFalse CondNotDialing then pl
      else let pl1 = (case err of
               WrongPeerId endpoint \<Rightarrow> cleanup_address env po (remote_multiaddr endpoint) pl
             | Transport addrs \<Rightarrow> fold (cleanup_address env po) addrs pl
             | _ \<Rightarrow> pl)
           in case po of Some p \<Rightarrow> remove_contact env p pl1 | None \<Rightarrow> pl1)"

fun on_swarm_event :: "pool_env \<Rightarrow> from_swarm \<Rightarrow> pool \<Rightarrow> pool" where
  "on_swarm_event env (ConnectionEstablished p failed) pl = fold (cleanup_address env (Some p)) failed pl"
| "on_swarm_event env (ConnectionClosed p cp remaining) pl = on_connection_closed env p cp remaining pl"
| "on_swarm_event env (DialFailure po err) pl = on_dial_failure env po err pl"
| "on_swarm_event env OtherSwarmEvent pl = pl"

text \<open>\<open>None\<close> is a handler error, which is logged; the result \<open>None\<close> is the panic of \<^verbatim>\<open>unreachable!\<close>.\<close>

fun on_connection_handler_event :: "handler_message option \<Rightarrow> pool \<Rightarrow> pool option" where
  "on_connection_handler_event (Some (InParticle p)) pl = Some (wake (pl\<lparr>queue := queue pl @ [p]\<rparr>))"
| "on_connection_handler_event (Some HandlerUpgrade) pl = Some pl"
| "on_connection_handler_event (Some (OutParticle p ch)) pl = None"
| "on_connection_handler_event None pl = Some pl"

section \<open>Polling\<close>

text \<open>
  What the outlet answers when it is asked for a slot: ready (and whether the send then succeeds), no
  room, or no receiver.  \<open>answers i\<close> is the answer in round \<open>i\<close>.  The result are the particles sent,
  those that stay, and whether the outlet stopped the loop.
\<close>

datatype outlet_answer = OutReady bool | OutPending | OutClosed

fun drain_queue :: "(nat \<Rightarrow> outlet_answer) \<Rightarrow> nat \<Rightarrow> particle list \<Rightarrow> particle list \<times> particle list \<times> bool" where
  "drain_queue answers i [] = ([], [], (case answers i of OutReady _ \<Rightarrow> False | _ \<Rightarrow> True))"
| "drain_queue answers i (p # ps) =
     (case answers i of
        OutReady ok \<Rightarrow> (case drain_queue answers (i + 1) ps of (sent, rest, stopped) \<Rightarrow>
          (if ok then p # sent else sent, rest, stopped))
      | _ \<Rightarrow> ([], p # ps, True))"

definition poll :: "pool_env \<Rightarrow> (nat \<Rightarrow> outlet_answer) \<Rightarrow> pool \<Rightarrow> to_swarm option \<times> pool" where
  "poll env answers pl =
     (let (sent, rest, _) = drain_queue answers 0 (queue pl);
          pl1 = pl\<lparr>waker := True, woken := False, queue := rest, executed := executed pl @ sent, commands := []\<rparr>;
          pl2 = fold (pool_execute env) (commands pl) pl1
      in case events pl2 of
           [] \<Rightarrow> (None, pl2)
         | e # es \<Rightarrow> (Some e, pl2\<lparr>events := es\<rparr>))"

section \<open>The interface\<close>

text \<open>
  A caller sends a command with a new one-shot channel and waits for its answer; \<open>alive\<close> says whether
  the pool still receives.  \<open>None\<close> is an answer that never comes.  A caller of \<^verbatim>\<open>send\<close> waits no longer than
  its timeout.
\<close>

definition api_execute :: "bool \<Rightarrow> command \<Rightarrow> pool \<Rightarrow> pool" where
  "api_execute alive cmd pl = (if alive then wake (pl\<lparr>commands := commands pl @ [cmd]\<rparr>) else pl)"

definition api_answer :: "'r \<Rightarrow> bool \<Rightarrow> 'r option \<Rightarrow> 'r" where
  "api_answer dflt alive answer = (if alive then (case answer of Some r \<Rightarrow> r | None \<Rightarrow> dflt) else dflt)"

definition api_send_status :: "u64 \<Rightarrow> bool \<Rightarrow> send_status option \<Rightarrow> bool \<Rightarrow> send_status" where
  "api_send_status send_timeout alive answer in_time =
     (if in_time then api_answer send_status_default alive answer else SendTimedOut send_timeout)"

definition lifecycle_event_fmt :: "(nat \<Rightarrow> string) \<Rightarrow> lifecycle_event \<Rightarrow> string" where
  "lifecycle_event_fmt show_nat ev =
     (case ev of Connected c \<Rightarrow> ''Connected '' @ contact_fmt show_nat c
        | Disconnected c \<Rightarrow> ''Disconnected '' @ contact_fmt show_nat c)"

section \<open>Channels\<close>

text \<open>The one-shot channel of a command, of an event for the swarm, of a reply.\<close>

fun command_channel :: "command \<Rightarrow> nat option" where
  "command_channel (CmdConnect c out) = Some out"
| "command_channel (CmdSend to p out) = Some out"
| "command_channel (CmdDial a out) = Some out"
| "command_channel (CmdDisconnect p out) = Some out"
| "command_channel (CmdIsConnected p out) = Some out"
| "command_channel (CmdGetContact p out) = Some out"
| "command_channel (CmdCountConnections out) = Some out"
| "command_channel (CmdLifecycleEvents out) = None"

fun event_channel :: "to_swarm \<Rightarrow> nat option" where
  "event_channel (NotifyHandler p (OutParticle q ch)) = outlet ch"
| "event_channel _ = None"

fun reply_channel :: "reply \<Rightarrow> nat" where
  "reply_channel (BoolReply out b) = out"
| "reply_channel (ContactReply out c) = out"
| "reply_channel (StatusReply out s) = out"
| "reply_channel (CountReply out n) = out"

definition promised :: "pool \<Rightarrow> nat multiset" where
  "promised pl = hm_msum (\<lambda>c. mset (dial_promises c)) (contacts pl) + hm_msum mset (pool_dialing pl)
     + mset (List.map_filter event_channel (events pl))"

definition answered :: "pool \<Rightarrow> nat multiset" where
  "answered pl = mset (map reply_channel (replies pl))"

text \<open>All channels the pool has seen in a command it executed: answered, or kept to be answered.\<close>

definition channels :: "pool \<Rightarrow> nat multiset" where
  "channels pl = promised pl + answered pl"

definition pool_ok :: "pool \<Rightarrow> bool" where
  "pool_ok pl \<longleftrightarrow> hm_ok (contacts pl) \<and> hm_ok (pool_dialing pl)"

lemma map_filter_append: "List.map_filter f (xs @ ys) = List.map_filter f xs @ List.map_filter f ys"
  by (simp add: List.map_filter_def)

lemma map_filter_Cons: "List.map_filter f (x # xs) = List.map_filter f [x] @ List.map_filter f xs"
  by (simp add: map_filter_simps split: option.split)

lemmas channels_defs = channels_def promised_def answered_def

lemma wake_same [simp]:
  "contacts (wake pl) = contacts pl" "pool_dialing (wake pl) = pool_dialing pl" "events (wake pl) = events pl"
  "replies (wake pl) = replies pl" "queue (wake pl) = queue pl" "commands (wake pl) = commands pl" "waker (wake pl) = waker pl"
  "delivered (wake pl) = delivered pl" "subscribers (wake pl) = subscribers pl" "pool_peer_id (wake pl) = pool_peer_id pl"
  "woken (wake pl) = (waker pl \<or> woken pl)"
  by (simp_all add: wake_def)

lemma push_event_ok [simp]: "pool_ok (push_event e pl) = pool_ok pl"
  by (simp add: push_event_def pool_ok_def)

lemma channels_push_event:
  "channels (push_event e pl) = channels pl + mset (List.map_filter event_channel [e])"
  by (simp add: push_event_def channels_defs map_filter_append)

lemma channels_reply_all:
  "channels (reply_all rs pl) = channels pl + mset (map reply_channel rs)"
  by (simp add: reply_all_def channels_defs)

lemma channels_lifecycle [simp]: "channels (send_lifecycle_event env ev pl) = channels pl"
  by (simp add: send_lifecycle_event_def Let_def channels_defs)

lemma reply_map_channel:
  "reply_channel \<circ> (\<lambda>out. BoolReply out b) = id" "reply_channel \<circ> (\<lambda>out. ContactReply out c) = id"
  by (simp_all add: fun_eq_iff)

lemma channels_contacts_insert:
  "hm_get (contacts pl) p = Some u \<Longrightarrow>
     channels (pl\<lparr>contacts := hm_insert p c (contacts pl)\<rparr>) + mset (dial_promises u) = channels pl + mset (dial_promises c)"
  "hm_get (contacts pl) p = None \<Longrightarrow>
     channels (pl\<lparr>contacts := hm_insert p c (contacts pl)\<rparr>) = channels pl + mset (dial_promises c)"
  using hm_msum_insert_Some [of "contacts pl" p u "\<lambda>c. mset (dial_promises c)" c]
    hm_msum_insert_None [of "contacts pl" p "\<lambda>c. mset (dial_promises c)" c]
  by (simp_all add: channels_defs algebra_simps)

lemma channels_contacts_remove:
  "hm_ok (contacts pl) \<Longrightarrow> hm_get (contacts pl) p = Some u \<Longrightarrow>
     channels (pl\<lparr>contacts := hm_remove p (contacts pl)\<rparr>) + mset (dial_promises u) = channels pl"
  using hm_msum_remove_Some [of "contacts pl" p u "\<lambda>c. mset (dial_promises c)"]
  by (simp add: channels_defs algebra_simps)

lemma channels_dialing_remove:
  "hm_ok (pool_dialing pl) \<Longrightarrow> hm_get (pool_dialing pl) a = Some outs \<Longrightarrow>
     channels (pl\<lparr>pool_dialing := hm_remove a (pool_dialing pl)\<rparr>) + mset outs = channels pl"
  using hm_msum_remove_Some [of "pool_dialing pl" a outs mset] by (simp add: channels_defs algebra_simps)

subsection \<open>Every operation keeps the channels\<close>

lemma remove_contact_channels: "pool_ok pl \<Longrightarrow> channels (remove_contact env p pl) = channels pl"
  using channels_contacts_remove [of pl p]
  by (auto simp: remove_contact_def pool_ok_def channels_reply_all reply_map_channel split: option.split)

lemma add_connected_channels:
  assumes "pool_ok pl"
  shows "channels (add_connected_address env p a pl) = channels pl"
proof -
  define pl1 where "pl1 = (case hm_get (contacts pl) p of
          Some c \<Rightarrow>
            reply_all (map (\<lambda>out. BoolReply out True) (dial_promises c))
              (pl\<lparr>contacts := hm_insert p
                 (c\<lparr>p_dialing := p_dialing c - {a}, p_discovered := p_discovered c - {a},
                    p_connected := insert a (p_connected c), dial_promises := []\<rparr>) (contacts pl)\<rparr>)
        | None \<Rightarrow> pl\<lparr>contacts := hm_insert p (peer_connected [a]) (contacts pl)\<rparr>)"
  have 1: "channels pl1 = channels pl"
    using channels_contacts_insert [of pl p]
    by (auto simp: pl1_def channels_reply_all reply_map_channel peer_connected_def split: option.split)
  have "hm_ok (pool_dialing pl1)" using assms by (simp add: pl1_def pool_ok_def reply_all_def split: option.split)
  then show ?thesis using 1 channels_dialing_remove [of pl1 a]
    by (auto simp: add_connected_address_def channels_reply_all reply_map_channel simp flip: pl1_def split: option.split)
qed

lemma reply_all_same [simp]:
  "contacts (reply_all rs pl) = contacts pl" "pool_dialing (reply_all rs pl) = pool_dialing pl"
  by (simp_all add: reply_all_def)

lemma remove_contact_ok: "pool_ok pl \<Longrightarrow> pool_ok (remove_contact env p pl)"
  by (simp add: remove_contact_def pool_ok_def reply_all_def send_lifecycle_event_def Let_def split: option.split)

lemma add_connected_ok: "pool_ok pl \<Longrightarrow> pool_ok (add_connected_address env p a pl)"
  by (simp add: add_connected_address_def pool_ok_def reply_all_def Let_def split: option.split)

text \<open>The part of a clean-up that looks at the contact.\<close>

definition cleanup_contact :: "pool_env \<Rightarrow> peer_id option \<Rightarrow> multiaddr \<Rightarrow> pool \<Rightarrow> pool" where
  "cleanup_contact env po addr pl1 =
     (case po of
        None \<Rightarrow> pl1
      | Some p \<Rightarrow> (case hm_get (contacts pl1) p of
          None \<Rightarrow> pl1
        | Some c0 \<Rightarrow>
            (let c1 = c0\<lparr>p_connected := p_connected c0 - {addr}, p_discovered := p_discovered c0 - {addr},
                         p_dialing := p_dialing c0 - {addr}\<rparr>;
                 none = (p_dialing c1 = {});
                 c2 = (if none then c1\<lparr>dial_promises := []\<rparr> else c1);
                 pl2 = reply_all (if none then map (\<lambda>out. BoolReply out False) (dial_promises c1) else [])
                         (pl1\<lparr>contacts := hm_insert p c2 (contacts pl1)\<rparr>)
             in if p_connected c2 = {} \<and> none then remove_contact env p pl2 else pl2)))"

definition cleanup_dialing :: "multiaddr \<Rightarrow> pool \<Rightarrow> pool" where
  "cleanup_dialing addr pl =
     (case hm_get (pool_dialing pl) addr of
        None \<Rightarrow> pl
      | Some outs \<Rightarrow> reply_all (map (\<lambda>out. ContactReply out None) outs)
          (pl\<lparr>pool_dialing := hm_remove addr (pool_dialing pl)\<rparr>))"

lemma cleanup_address_split: "cleanup_address env po addr pl = cleanup_contact env po addr (cleanup_dialing addr pl)"
  by (simp only: cleanup_address_def cleanup_contact_def cleanup_dialing_def Let_def)

lemma cleanup_dialing_keeps: "pool_ok pl \<Longrightarrow> pool_ok (cleanup_dialing a pl) \<and> channels (cleanup_dialing a pl) = channels pl"
  using channels_dialing_remove [of pl a]
  by (auto simp: cleanup_dialing_def pool_ok_def channels_reply_all reply_map_channel split: option.split)

lemma cleanup_contact_keeps:
  assumes "pool_ok pl"
  shows "pool_ok (cleanup_contact env po a pl) \<and> channels (cleanup_contact env po a pl) = channels pl"
proof (cases "\<exists>p c0. po = Some p \<and> hm_get (contacts pl) p = Some c0")
  case True
  then obtain p c0 where p: "po = Some p" "hm_get (contacts pl) p = Some c0" by blast
  define c1 where "c1 = c0\<lparr>p_connected := p_connected c0 - {a}, p_discovered := p_discovered c0 - {a},
                         p_dialing := p_dialing c0 - {a}\<rparr>"
  define c2 where "c2 = (if p_dialing c1 = {} then c1\<lparr>dial_promises := []\<rparr> else c1)"
  define pl2 where "pl2 = reply_all (if p_dialing c1 = {} then map (\<lambda>out. BoolReply out False) (dial_promises c1) else [])
                         (pl\<lparr>contacts := hm_insert p c2 (contacts pl)\<rparr>)"
  have e: "cleanup_contact env po a pl = (if p_connected c2 = {} \<and> p_dialing c1 = {} then remove_contact env p pl2 else pl2)"
    by (simp add: cleanup_contact_def p Let_def c1_def c2_def pl2_def)
  have ok: "pool_ok pl2" using assms by (simp add: pl2_def pool_ok_def reply_all_def)
  have d: "dial_promises c1 = dial_promises c0" by (simp add: c1_def)
  have "channels pl2 = channels pl"
    using channels_contacts_insert(1) [OF p(2), of c2]
    by (cases "p_dialing c1 = {}") (simp_all add: pl2_def channels_reply_all reply_map_channel c2_def d)
  then show ?thesis using e ok remove_contact_ok [OF ok] remove_contact_channels [OF ok] by simp
next
  case False
  then show ?thesis using assms by (auto simp: cleanup_contact_def split: option.split)
qed

lemma cleanup_address_keeps:
  "pool_ok pl \<Longrightarrow> pool_ok (cleanup_address env po a pl) \<and> channels (cleanup_address env po a pl) = channels pl"
  using cleanup_dialing_keeps [of pl a] cleanup_contact_keeps [of "cleanup_dialing a pl" env po a]
  by (simp add: cleanup_address_split)

lemma cleanup_fold_keeps:
  "pool_ok pl \<Longrightarrow> pool_ok (fold (cleanup_address env po) as pl) \<and> channels (fold (cleanup_address env po) as pl) = channels pl"
  by (induction as arbitrary: pl) (simp_all add: cleanup_address_keeps)

lemma on_swarm_event_keeps:
  "pool_ok pl \<Longrightarrow> pool_ok (on_swarm_event env ev pl) \<and> channels (on_swarm_event env ev pl) = channels pl"
proof (cases ev)
  case (ConnectionClosed p cp n)
  assume "pool_ok pl"
  then show ?thesis using ConnectionClosed remove_contact_ok [of pl env p] remove_contact_channels [of pl env p]
      cleanup_address_keeps [of pl env "Some p" "remote_multiaddr cp"]
      cleanup_address_keeps [of "remove_contact env p pl" env "Some p" "remote_multiaddr cp"]
    by (simp add: on_connection_closed_def)
next
  case (DialFailure po err)
  assume ok: "pool_ok pl"
  define pl1 where "pl1 = (case err of WrongPeerId endpoint \<Rightarrow> cleanup_address env po (remote_multiaddr endpoint) pl
    | Transport addrs \<Rightarrow> fold (cleanup_address env po) addrs pl | _ \<Rightarrow> pl)"
  have "pool_ok pl1 \<and> channels pl1 = channels pl"
    using cleanup_address_keeps [OF ok] cleanup_fold_keeps [OF ok] ok by (cases err) (simp_all add: pl1_def)
  moreover have "on_swarm_event env ev pl = (if err = DialPeerConditionFalse CondDisconnected \<or> err = DialPeerConditionFalse CondNotDialing
      then pl else case po of Some p \<Rightarrow> remove_contact env p pl1 | None \<Rightarrow> pl1)"
    by (simp only: DialFailure on_swarm_event.simps on_dial_failure_def Let_def pl1_def)
  ultimately show ?thesis using ok remove_contact_ok [of pl1 env] remove_contact_channels [of pl1 env]
    by (cases po) simp_all
qed (use cleanup_fold_keeps in auto)

lemma hm_insert_default_channels:
  "channels (pl\<lparr>pool_dialing := hm_insert a ((case hm_get (pool_dialing pl) a of None \<Rightarrow> [] | Some outs \<Rightarrow> outs) @ [out])
      (pool_dialing pl)\<rparr>) = channels pl + {#out#}"
proof (cases "hm_get (pool_dialing pl) a")
  case None
  then show ?thesis using hm_msum_insert_None [of "pool_dialing pl" a mset "[out]"]
    by (simp add: channels_defs algebra_simps)
next
  case (Some outs)
  have "hm_msum mset (hm_insert a (outs @ [out]) (pool_dialing pl)) + mset outs = hm_msum mset (pool_dialing pl) + {#out#} + mset outs"
    using hm_msum_insert_Some [OF Some, of mset "outs @ [out]"] by (simp add: algebra_simps)
  then have "hm_msum mset (hm_insert a (outs @ [out]) (pool_dialing pl)) = hm_msum mset (pool_dialing pl) + {#out#}" by simp
  then show ?thesis using Some by (simp add: channels_defs algebra_simps)
qed

lemma pool_connect_keeps:
  "pool_ok pl \<Longrightarrow> pool_ok (pool_connect env c out pl) \<and> channels (pool_connect env c out pl) = channels pl + {#out#}"
proof -
  assume ok: "pool_ok pl"
  define p where "p = c_peer_id c"
  define addrs where "addrs = (case hm_get (contacts pl) p of
      Some known \<Rightarrow> hash_iter env {a \<in> set (c_addresses c). a \<notin> p_dialing known} | None \<Rightarrow> c_addresses c)"
  define pl1 where 1: "pl1 = (case hm_get (contacts pl) p of
        Some known \<Rightarrow> (if \<exists>a \<in> set (c_addresses c). a \<notin> p_connected known
           then pl\<lparr>contacts := hm_insert p (known\<lparr>dial_promises := dial_promises known @ [out]\<rparr>) (contacts pl)\<rparr>
           else reply_on (BoolReply out True) pl)
      | None \<Rightarrow> pl\<lparr>contacts := hm_insert p (peer_dialing (c_addresses c) out) (contacts pl)\<rparr>)"
  have e: "pool_connect env c out pl = (if addrs \<noteq> [] then push_event (DialPeer p addrs) pl1 else pl1)"
    by (cases "hm_get (contacts pl) p") (simp_all add: pool_connect_def p_def [symmetric] Let_def addrs_def 1)
  have ok1: "pool_ok pl1" using ok by (simp add: 1 pool_ok_def reply_on_def split: option.split)
  have "channels pl1 = channels pl + {#out#}"
  proof (cases "hm_get (contacts pl) p")
    case None
    then show ?thesis using channels_contacts_insert(2) [OF None] by (simp add: 1 peer_dialing_def)
  next
    case (Some known)
    have "channels (pl\<lparr>contacts := hm_insert p (known\<lparr>dial_promises := dial_promises known @ [out]\<rparr>) (contacts pl)\<rparr>)
        + mset (dial_promises known) = channels pl + {#out#} + mset (dial_promises known)"
      using channels_contacts_insert(1) [OF Some] by simp
    then show ?thesis using Some by (simp add: 1 reply_on_def channels_defs)
  qed
  then show ?thesis using e ok1 by (simp add: channels_push_event map_filter_simps)
qed

lemma pool_execute_keeps:
  "pool_ok pl \<Longrightarrow> pool_ok (pool_execute env cmd pl)
     \<and> channels (pool_execute env cmd pl) = channels pl + mset (List.map_filter command_channel [cmd])"
proof (cases cmd)
  case (CmdDial a out)
  then show "pool_ok pl \<Longrightarrow> ?thesis" using hm_insert_default_channels [of a pl out]
    by (simp add: pool_dial_def channels_push_event map_filter_simps) (simp add: push_event_def pool_ok_def)
next
  case (CmdConnect c out)
  then show "pool_ok pl \<Longrightarrow> ?thesis" using pool_connect_keeps by (simp add: map_filter_simps)
qed (auto simp: pool_disconnect_def pool_is_connected_def pool_get_contact_def pool_send_def pool_count_connections_def
    add_subscriber_def reply_on_def push_event_def channels_defs pool_ok_def map_filter_simps map_filter_append)

lemma pool_execute_fold_keeps:
  "pool_ok pl \<Longrightarrow> pool_ok (fold (pool_execute env) cmds pl)
     \<and> channels (fold (pool_execute env) cmds pl) = channels pl + mset (List.map_filter command_channel cmds)"
proof (induction cmds arbitrary: pl)
  case (Cons cmd cmds)
  note s = pool_execute_keeps [OF Cons.prems, of env cmd]
  show ?case using Cons.IH [of "pool_execute env cmd pl"] s map_filter_Cons [of command_channel cmd cmds] by simp
qed (simp add: map_filter_simps)

section \<open>The pool and the swarm\<close>

text \<open>
  The pool together with what the swarm took from it (\<open>ps_swarm\<close>), the one-shot channels that callers
  have put into commands (\<open>ps_issued\<close>), whether the last poll found nothing to do (\<open>ps_idle\<close>) and whether
  the outlet stopped it (\<open>ps_stopped\<close>).
\<close>

record pool_system =
  ps_pool :: pool
  ps_swarm :: "to_swarm list"
  ps_issued :: "nat list"
  ps_idle :: bool
  ps_stopped :: bool

datatype pool_label =
    PCommand command
  | PPoll pool_env "nat \<Rightarrow> outlet_answer"
  | PInbound pool_env peer_id multiaddr
  | POutbound pool_env peer_id multiaddr
  | PSwarm pool_env from_swarm
  | PHandler "handler_message option"
  | PDiscovered peer_id "multiaddr list"

fun pool_next :: "pool_label \<Rightarrow> pool_system \<Rightarrow> pool_system option" where
  "pool_next (PCommand cmd) s =
     Some (s\<lparr>ps_pool := api_execute True cmd (ps_pool s),
             ps_issued := ps_issued s @ List.map_filter command_channel [cmd]\<rparr>)"
| "pool_next (PPoll env answers) s =
     (case poll env answers (ps_pool s) of (ev, pl) \<Rightarrow>
        Some (s\<lparr>ps_pool := pl, ps_swarm := ps_swarm s @ (case ev of None \<Rightarrow> [] | Some e \<Rightarrow> [e]), ps_idle := (ev = None),
                ps_stopped := snd (snd (drain_queue answers 0 (queue (ps_pool s))))\<rparr>))"
| "pool_next (PInbound env p a) s = Some (s\<lparr>ps_pool := handle_established_inbound env p a (ps_pool s)\<rparr>)"
| "pool_next (POutbound env p a) s = Some (s\<lparr>ps_pool := handle_established_outbound env p a (ps_pool s)\<rparr>)"
| "pool_next (PSwarm env ev) s = Some (s\<lparr>ps_pool := on_swarm_event env ev (ps_pool s)\<rparr>)"
| "pool_next (PHandler m) s = map_option (\<lambda>pl. s\<lparr>ps_pool := pl\<rparr>) (on_connection_handler_event m (ps_pool s))"
| "pool_next (PDiscovered p addrs) s = Some (s\<lparr>ps_pool := add_discovered_addresses p addrs (ps_pool s)\<rparr>)"

definition pool_step :: "pool_system \<Rightarrow> pool_label \<Rightarrow> pool_system \<Rightarrow> bool" where
  "pool_step s l t \<longleftrightarrow> pool_next l s = Some t"

definition pool_start :: "pool_system \<Rightarrow> bool" where
  "pool_start s \<longleftrightarrow> (\<exists>config p. s = \<lparr>ps_pool = fst (pool_new config p), ps_swarm = [], ps_issued = [], ps_idle = False, ps_stopped = False\<rparr>)"

text \<open>Channels that wait in commands not yet executed, and those handed to a connection's handler.\<close>

definition waiting_commands :: "pool \<Rightarrow> nat multiset" where
  "waiting_commands pl = mset (List.map_filter command_channel (commands pl))"

definition handed_over :: "to_swarm list \<Rightarrow> nat multiset" where
  "handed_over evs = mset (List.map_filter event_channel evs)"

definition channels_inv :: "pool_system \<Rightarrow> bool" where
  "channels_inv s \<longleftrightarrow> pool_ok (ps_pool s)
     \<and> waiting_commands (ps_pool s) + channels (ps_pool s) + handed_over (ps_swarm s) = mset (ps_issued s)"

lemma cleanup_fold_commands: "commands (fold (cleanup_address env po) as pl) = commands pl"
proof -
  have "commands (cleanup_address env po a pl) = commands pl" for a pl
    by (simp add: cleanup_address_def Let_def remove_contact_def reply_all_def send_lifecycle_event_def split: option.split)
  then show ?thesis by (induction as arbitrary: pl) simp_all
qed

lemma swarm_commands: "commands (on_swarm_event env ev pl) = commands pl"
  using cleanup_fold_commands [of env _ "[_]"] cleanup_fold_commands
  by (cases ev)
    (auto simp: on_connection_closed_def on_dial_failure_def Let_def remove_contact_def reply_all_def send_lifecycle_event_def
      split: option.split dial_error.split)

lemma established_keeps:
  assumes "pool_ok pl"
  shows "pool_ok (handle_established_inbound env p a pl) \<and> channels (handle_established_inbound env p a pl) = channels pl
    \<and> commands (handle_established_inbound env p a pl) = commands pl"
  using add_connected_channels [OF assms, of env p a] add_connected_ok [OF assms, of env p a]
  by (simp add: handle_established_inbound_def)
    (simp add: send_lifecycle_event_def Let_def pool_ok_def add_connected_address_def reply_all_def split: option.split)

lemma established_same: "handle_established_outbound = handle_established_inbound"
  by (simp add: fun_eq_iff handle_established_outbound_def handle_established_inbound_def)

lemma fold_execute_commands: "commands (fold (pool_execute env) cmds pl) = commands pl"
proof -
  have "commands (pool_execute env cmd pl) = commands pl" for cmd pl
    by (cases cmd) (auto simp: pool_dial_def pool_connect_def pool_disconnect_def pool_is_connected_def pool_get_contact_def
        pool_send_def pool_count_connections_def add_subscriber_def reply_on_def push_event_def Let_def split: option.split)
  then show ?thesis by (induction cmds arbitrary: pl) simp_all
qed

lemma poll_keeps:
  assumes "pool_ok pl" "poll env answers pl = (ev, pl')"
  shows "pool_ok pl' \<and> commands pl' = [] \<and>
    channels pl' + handed_over (case ev of None \<Rightarrow> [] | Some e \<Rightarrow> [e]) = waiting_commands pl + channels pl"
proof -
  obtain sent rest stopped where d: "drain_queue answers 0 (queue pl) = (sent, rest, stopped)" by (cases "drain_queue answers 0 (queue pl)")
  define pl1 where "pl1 = pl\<lparr>waker := True, woken := False, queue := rest, executed := executed pl @ sent, commands := []\<rparr>"
  define pl2 where "pl2 = fold (pool_execute env) (commands pl) pl1"
  have ok1: "pool_ok pl1" using assms(1) by (simp add: pl1_def pool_ok_def)
  have c: "channels pl1 = channels pl" by (simp add: pl1_def channels_defs)
  have k: "pool_ok pl2" "channels pl2 = channels pl + waiting_commands pl"
    using pool_execute_fold_keeps [OF ok1, of env "commands pl"] c by (simp_all add: pl2_def waiting_commands_def)
  have e: "commands pl2 = []" using fold_execute_commands by (simp add: pl2_def pl1_def)
  have p: "(ev, pl') = (case events pl2 of [] \<Rightarrow> (None, pl2) | e # es \<Rightarrow> (Some e, pl2\<lparr>events := es\<rparr>))"
    using assms(2) unfolding poll_def d pl2_def pl1_def by (simp add: Let_def)
  show ?thesis
  proof (cases "events pl2")
    case Nil
    then show ?thesis using p k e by (simp add: handed_over_def map_filter_simps)
  next
    case (Cons x es)
    then show ?thesis using p k e map_filter_Cons [of event_channel x es]
      by (simp add: handed_over_def pool_ok_def channels_defs algebra_simps)
  qed
qed

lemma pool_next_channels:
  assumes "channels_inv s" "pool_step s l t"
  shows "channels_inv t"
proof -
  have ok: "pool_ok (ps_pool s)"
    and eq: "waiting_commands (ps_pool s) + channels (ps_pool s) + handed_over (ps_swarm s) = mset (ps_issued s)"
    using assms(1) by (simp_all add: channels_inv_def)
  have n: "pool_next l s = Some t" using assms(2) by (simp add: pool_step_def)
  show ?thesis
  proof (cases l)
    case (PCommand cmd)
    let ?pl = "api_execute True cmd (ps_pool s)"
    have "pool_ok ?pl" "channels ?pl = channels (ps_pool s)" using ok by (simp_all add: api_execute_def pool_ok_def channels_defs)
    moreover have "waiting_commands ?pl = waiting_commands (ps_pool s) + mset (List.map_filter command_channel [cmd])"
      by (simp add: waiting_commands_def api_execute_def map_filter_append)
    moreover have "t = s\<lparr>ps_pool := ?pl, ps_issued := ps_issued s @ List.map_filter command_channel [cmd]\<rparr>" using n PCommand by simp
    ultimately show ?thesis using eq by (simp add: channels_inv_def algebra_simps)
  next
    case (PPoll env answers)
    obtain ev pl where p: "poll env answers (ps_pool s) = (ev, pl)" by (cases "poll env answers (ps_pool s)")
    note k = poll_keeps [OF ok p]
    have h: "handed_over (ps_swarm s @ (case ev of None \<Rightarrow> [] | Some e \<Rightarrow> [e]))
        = handed_over (ps_swarm s) + handed_over (case ev of None \<Rightarrow> [] | Some e \<Rightarrow> [e])"
      by (simp add: handed_over_def map_filter_append)
    have w: "waiting_commands pl = {#}" using k by (simp add: waiting_commands_def map_filter_simps)
    have t: "ps_pool t = pl" "ps_swarm t = ps_swarm s @ (case ev of None \<Rightarrow> [] | Some e \<Rightarrow> [e])" "ps_issued t = ps_issued s"
      using n PPoll p by auto
    show ?thesis unfolding channels_inv_def t using k eq h w by (simp add: algebra_simps flip: eq)
  next
    case (PInbound env p a)
    then show ?thesis using n eq established_keeps [OF ok, of env p a] by (auto simp: channels_inv_def waiting_commands_def)
  next
    case (POutbound env p a)
    then show ?thesis using n eq established_keeps [OF ok, of env p a] by (auto simp: channels_inv_def waiting_commands_def established_same)
  next
    case (PSwarm env ev)
    then show ?thesis using n eq on_swarm_event_keeps [OF ok, of env ev] by (auto simp: channels_inv_def waiting_commands_def swarm_commands)
  next
    case (PHandler m)
    then obtain pl where pl: "on_connection_handler_event m (ps_pool s) = Some pl" "t = s\<lparr>ps_pool := pl\<rparr>" using n by auto
    have "pool_ok pl \<and> channels pl = channels (ps_pool s) \<and> commands pl = commands (ps_pool s)"
      using pl(1) ok by (cases "(m, ps_pool s)" rule: on_connection_handler_event.cases) (auto simp: pool_ok_def channels_defs)
    then show ?thesis using eq pl(2) by (simp add: channels_inv_def waiting_commands_def)
  next
    case (PDiscovered p addrs)
    let ?pl = "add_discovered_addresses p addrs (ps_pool s)"
    have "channels ?pl = channels (ps_pool s)"
    proof (cases "hm_get (contacts (ps_pool s)) p")
      case None
      then show ?thesis using channels_contacts_insert(2) [OF None]
        by (simp add: add_discovered_addresses_def Let_def peer_default_def)
    next
      case (Some c)
      then show ?thesis using channels_contacts_insert(1) [OF Some, of "c\<lparr>p_discovered := p_discovered c \<union> set addrs\<rparr>"]
        by (simp add: add_discovered_addresses_def Let_def)
    qed
    then show ?thesis using n PDiscovered ok eq
      by (auto simp: channels_inv_def waiting_commands_def add_discovered_addresses_def Let_def pool_ok_def)
  qed
qed

subsection \<open>Waking up\<close>

text \<open>A step that gives the pool something to do wakes the task that polls it.\<close>

definition quiet :: "pool \<Rightarrow> pool \<Rightarrow> bool" where
  "quiet pl pl' \<longleftrightarrow> waker pl' = waker pl \<and> (woken pl \<longrightarrow> woken pl')
     \<and> (waker pl \<and> \<not> woken pl' \<longrightarrow> events pl' = events pl \<and> queue pl' = queue pl \<and> commands pl' = commands pl)"

lemma quiet_refl: "quiet pl pl"
  by (simp add: quiet_def)

lemma quiet_trans: "quiet pl pl' \<Longrightarrow> quiet pl' pl'' \<Longrightarrow> quiet pl pl''"
  by (auto simp: quiet_def)

lemma quiet_fold: "(\<And>x pl. quiet pl (f x pl)) \<Longrightarrow> quiet pl (fold f xs pl)"
  by (induction xs arbitrary: pl) (auto intro: quiet_refl quiet_trans)

lemma quiet_execute: "quiet pl (pool_execute env cmd pl)"
  by (cases cmd) (auto simp: quiet_def pool_dial_def pool_connect_def pool_disconnect_def pool_is_connected_def pool_get_contact_def
      pool_send_def pool_count_connections_def add_subscriber_def reply_on_def push_event_def Let_def split: option.split)

lemma quiet_remove_contact: "quiet pl (remove_contact env p pl)"
  by (simp add: quiet_def remove_contact_def reply_all_def send_lifecycle_event_def Let_def split: option.split)

lemma quiet_cleanup: "quiet pl (cleanup_address env po a pl)"
  by (simp add: quiet_def cleanup_address_def Let_def remove_contact_def reply_all_def send_lifecycle_event_def split: option.split)

lemma quiet_swarm: "quiet pl (on_swarm_event env ev pl)"
proof (cases ev)
  case (ConnectionEstablished p failed)
  then show ?thesis using quiet_fold [of "cleanup_address env (Some p)"] quiet_cleanup by simp
next
  case (ConnectionClosed p cp n)
  then show ?thesis using quiet_trans [OF quiet_remove_contact quiet_cleanup] quiet_cleanup by (simp add: on_connection_closed_def)
next
  case (DialFailure po err)
  have 1: "quiet pl (case err of WrongPeerId endpoint \<Rightarrow> cleanup_address env po (remote_multiaddr endpoint) pl
    | Transport addrs \<Rightarrow> fold (cleanup_address env po) addrs pl | _ \<Rightarrow> pl)"
    using quiet_fold [of "cleanup_address env po"] quiet_cleanup quiet_refl by (cases err) simp_all
  show ?thesis unfolding DialFailure on_swarm_event.simps on_dial_failure_def Let_def
    using 1 quiet_trans [OF 1 quiet_remove_contact] quiet_refl by (auto split: option.split)
qed (simp add: quiet_refl)

lemma quiet_established: "quiet pl (handle_established_inbound env p a pl)"
  by (simp add: quiet_def handle_established_inbound_def send_lifecycle_event_def Let_def add_connected_address_def reply_all_def split: option.split)

lemma drain_rest: "drain_queue answers i q = (sent, rest, False) \<Longrightarrow> rest = []"
  by (induction answers i q arbitrary: sent rule: drain_queue.induct) (auto split: outlet_answer.splits prod.splits)

definition wake_inv :: "pool_system \<Rightarrow> bool" where
  "wake_inv s \<longleftrightarrow> (ps_idle s \<longrightarrow> waker (ps_pool s) \<and> (\<not> woken (ps_pool s) \<longrightarrow>
     events (ps_pool s) = [] \<and> commands (ps_pool s) = [] \<and> (queue (ps_pool s) = [] \<or> ps_stopped s)))"

lemma wake_inv_quiet:
  "wake_inv s \<Longrightarrow> quiet (ps_pool s) (ps_pool t) \<Longrightarrow> ps_idle t = ps_idle s \<Longrightarrow> ps_stopped t = ps_stopped s \<Longrightarrow> wake_inv t"
  by (auto simp: wake_inv_def quiet_def)

lemma poll_wake:
  assumes "poll env answers pl = (None, pl')"
  shows "waker pl' \<and> (\<not> woken pl' \<longrightarrow> events pl' = [] \<and> commands pl' = []
    \<and> (queue pl' = [] \<or> snd (snd (drain_queue answers 0 (queue pl)))))"
proof -
  obtain sent rest stopped where d: "drain_queue answers 0 (queue pl) = (sent, rest, stopped)" by (cases "drain_queue answers 0 (queue pl)")
  define pl1 where "pl1 = pl\<lparr>waker := True, woken := False, queue := rest, executed := executed pl @ sent, commands := []\<rparr>"
  have q: "quiet pl1 (fold (pool_execute env) (commands pl) pl1)" by (intro quiet_fold quiet_execute)
  have p: "pl' = fold (pool_execute env) (commands pl) pl1 \<and> events pl' = []"
    using assms unfolding poll_def d pl1_def by (auto simp: Let_def split: list.splits)
  have "rest = [] \<or> stopped" using drain_rest [of answers 0 "queue pl" sent rest] d by (cases stopped) auto
  then show ?thesis using q p d by (auto simp: quiet_def pl1_def)
qed

lemma pool_next_wake:
  assumes "wake_inv s" "pool_step s l t"
  shows "wake_inv t"
proof -
  have n: "pool_next l s = Some t" using assms(2) by (simp add: pool_step_def)
  show ?thesis
  proof (cases l)
    case (PPoll env answers)
    obtain ev pl where p: "poll env answers (ps_pool s) = (ev, pl)" by (cases "poll env answers (ps_pool s)")
    then have t: "ps_pool t = pl" "ps_idle t = (ev = None)" "ps_stopped t = snd (snd (drain_queue answers 0 (queue (ps_pool s))))"
      using n PPoll by auto
    show ?thesis using poll_wake [of env answers "ps_pool s" pl] p t by (auto simp: wake_inv_def)
  next
    case (PCommand cmd)
    then have "quiet (ps_pool s) (ps_pool t) \<and> ps_idle t = ps_idle s \<and> ps_stopped t = ps_stopped s"
      using n by (auto simp: quiet_def api_execute_def)
    then show ?thesis using wake_inv_quiet assms(1) by blast
  next
    case (PInbound env p a)
    then show ?thesis using n wake_inv_quiet [OF assms(1), of t] quiet_established [of "ps_pool s" env p a] by auto
  next
    case (POutbound env p a)
    then show ?thesis using n wake_inv_quiet [OF assms(1), of t] quiet_established [of "ps_pool s" env p a]
      by (auto simp: established_same)
  next
    case (PSwarm env ev)
    then show ?thesis using n wake_inv_quiet [OF assms(1), of t] quiet_swarm [of "ps_pool s" env ev] by auto
  next
    case (PHandler m)
    then obtain pl where pl: "on_connection_handler_event m (ps_pool s) = Some pl" "t = s\<lparr>ps_pool := pl\<rparr>" using n by auto
    have "quiet (ps_pool s) pl"
      using pl(1) by (cases "(m, ps_pool s)" rule: on_connection_handler_event.cases) (auto simp: quiet_def)
    then show ?thesis using wake_inv_quiet [OF assms(1), of t] pl(2) by simp
  next
    case (PDiscovered p addrs)
    then show ?thesis using n wake_inv_quiet [OF assms(1), of t]
      by (auto simp: quiet_def add_discovered_addresses_def Let_def)
  qed
qed

definition pool_sys_inv :: "pool_system \<Rightarrow> bool" where
  "pool_sys_inv s \<longleftrightarrow> channels_inv s \<and> wake_inv s"

interpretation pool: invariant_system pool_start pool_step pool_sys_inv
proof
  show "pool_sys_inv s" if "pool_start s" for s
    using that by (auto simp: pool_start_def pool_sys_inv_def channels_inv_def wake_inv_def pool_new_def pool_ok_def
        waiting_commands_def handed_over_def channels_defs map_filter_simps)
  show "pool_sys_inv t" if "pool_sys_inv s" "pool_step s l t" for s l t
    using that pool_next_channels pool_next_wake by (auto simp: pool_sys_inv_def)
qed

section \<open>Properties\<close>

text \<open>
  C5: no caller is forgotten and none is answered twice: at any time every one-shot channel that a
  caller has put into a command is in exactly one place, answered, in a command that waits, kept
  for a dial, or handed to the handler of a connection.
\<close>

theorem pool_answers_once:
  assumes "reachable pool_start pool_step s"
  shows "answered (ps_pool s) + (waiting_commands (ps_pool s) + promised (ps_pool s) + handed_over (ps_swarm s)) = mset (ps_issued s)
    \<and> (distinct (ps_issued s) \<longrightarrow> distinct (map reply_channel (replies (ps_pool s))))"
proof -
  have eq: "waiting_commands (ps_pool s) + channels (ps_pool s) + handed_over (ps_swarm s) = mset (ps_issued s)"
    using pool.reachable_inv [OF assms] by (simp add: pool_sys_inv_def channels_inv_def)
  then have a: "answered (ps_pool s) + (waiting_commands (ps_pool s) + promised (ps_pool s) + handed_over (ps_swarm s)) = mset (ps_issued s)"
    by (simp add: channels_def algebra_simps)
  have "distinct (map reply_channel (replies (ps_pool s)))" if d: "distinct (ps_issued s)"
  proof -
    have "mset (map reply_channel (replies (ps_pool s))) \<subseteq># mset (ps_issued s)" by (simp add: answered_def flip: a)
    then show ?thesis using d by (rule distinct_submultiset)
  qed
  then show ?thesis using a by blast
qed

text \<open>Runs of the system, executable.\<close>

definition pool_run :: "pool_label list \<Rightarrow> pool_system \<Rightarrow> pool_system option" where
  "pool_run ls s = fold (\<lambda>l r. Option.bind r (pool_next l)) ls (Some s)"

lemma pool_run_None: "fold (\<lambda>l r. Option.bind r (pool_next l)) ls None = None"
  by (induction ls) simp_all

lemma pool_run_reachable:
  "pool_run ls s = Some t \<Longrightarrow> reachable pool_start pool_step s \<Longrightarrow> reachable pool_start pool_step t"
proof (induction ls arbitrary: s)
  case (Cons l ls)
  then obtain u where "pool_next l s = Some u" "pool_run ls u = Some t"
    by (cases "pool_next l s") (auto simp: pool_run_def pool_run_None)
  then show ?case using Cons reach_step by (metis pool_step_def)
qed (simp add: pool_run_def)

definition demo_pool_env :: pool_env where
  "demo_pool_env = \<lparr>hash_iter = (\<lambda>A. if A = {''/a''} then [''/a''] else if A = {''/b''} then [''/b''] else []), sub_open = (\<lambda>_. True)\<rparr>"

definition demo_pool_start :: pool_system where
  "demo_pool_start = \<lparr>ps_pool = fst (pool_new protocol_config_default ''me''), ps_swarm = [], ps_issued = [], ps_idle = False, ps_stopped = False\<rparr>"

lemma demo_pool_reachable: "reachable pool_start pool_step demo_pool_start"
  by (rule reach_start) (auto simp: pool_start_def demo_pool_start_def)

text \<open>A caller connects, another dials the same address, the connection is established.\<close>

definition demo_pool_labels :: "pool_label list" where
  "demo_pool_labels = [PCommand (CmdConnect (contact_new ''p'' [''/a'']) 1), PCommand (CmdDial ''/a'' 2),
     PPoll demo_pool_env (\<lambda>_. OutReady True), POutbound demo_pool_env ''p'' ''/a'',
     PPoll demo_pool_env (\<lambda>_. OutReady True), PPoll demo_pool_env (\<lambda>_. OutReady True)]"

lemmas pool_eval = pool_run_def demo_pool_start_def pool_new_def api_execute_def wake_def poll_def pool_connect_def pool_dial_def
  push_event_def contact_new_def peer_dialing_def hm_insert_def hm_get_def handle_established_outbound_def
  handle_established_inbound_def add_connected_address_def send_lifecycle_event_def reply_all_def reply_on_def get_contact_impl_def
  addresses_def demo_pool_env_def hm_remove_def Let_def map_filter_simps

theorem pool_answers_once_witness:
  "\<exists>s. pool_run demo_pool_labels demo_pool_start = Some s
     \<and> replies (ps_pool s) = [BoolReply 1 True, ContactReply 2 (Some \<lparr>c_peer_id = ''p'', c_addresses = [''/a'']\<rparr>)]
     \<and> distinct (map reply_channel (replies (ps_pool s)))
     \<and> answered (ps_pool s) + (waiting_commands (ps_pool s) + promised (ps_pool s) + handed_over (ps_swarm s)) = {#1, 2#}"
proof -
  obtain s where s: "pool_run demo_pool_labels demo_pool_start = Some s" "ps_issued s = [1, 2]"
    "replies (ps_pool s) = [BoolReply 1 True, ContactReply 2 (Some \<lparr>c_peer_id = ''p'', c_addresses = [''/a'']\<rparr>)]"
    by (simp add: demo_pool_labels_def pool_eval)
  show ?thesis using pool_answers_once [OF pool_run_reachable [OF s(1) demo_pool_reachable]] s
    by (intro exI [of _ s]) (simp add: add_mset_commute)
qed

text \<open>
  C6: no wake-up is lost: after a poll that found nothing to do, and as long as the task has not been woken, there
  is no event for the swarm, no command, and no particle unless the outlet refused it.
\<close>

theorem pool_never_sleeps_on_work:
  assumes "reachable pool_start pool_step s" "ps_idle s" "\<not> woken (ps_pool s)"
  shows "events (ps_pool s) = [] \<and> commands (ps_pool s) = [] \<and> (queue (ps_pool s) = [] \<or> ps_stopped s)"
  using pool.reachable_inv [OF assms(1)] assms(2,3) by (simp add: pool_sys_inv_def wake_inv_def)

theorem pool_never_sleeps_on_work_witness:
  "\<exists>s. pool_run demo_pool_labels demo_pool_start = Some s \<and> ps_idle s
     \<and> events (ps_pool s) = [] \<and> commands (ps_pool s) = [] \<and> ps_swarm s = [DialPeer ''p'' [''/a''], DialAddress ''/a'']"
proof -
  obtain s where s: "pool_run demo_pool_labels demo_pool_start = Some s" "ps_idle s" "\<not> woken (ps_pool s)"
    "ps_swarm s = [DialPeer ''p'' [''/a''], DialAddress ''/a'']"
    by (simp add: demo_pool_labels_def pool_eval)
  show ?thesis using pool_never_sleeps_on_work [OF pool_run_reachable [OF s(1) demo_pool_reachable] s(2,3)] s by auto
qed

text \<open>Who waits for a peer to be connected, and who for an address to be dialed.\<close>

definition waiting_for_peer :: "pool \<Rightarrow> peer_id \<Rightarrow> nat list" where
  "waiting_for_peer pl p = (case hm_get (contacts pl) p of None \<Rightarrow> [] | Some c \<Rightarrow> dial_promises c)"

definition waiting_for_address :: "pool \<Rightarrow> multiaddr \<Rightarrow> nat list" where
  "waiting_for_address pl a = (case hm_get (pool_dialing pl) a of None \<Rightarrow> [] | Some outs \<Rightarrow> outs)"

definition notified :: "pool_env \<Rightarrow> lifecycle_event \<Rightarrow> pool \<Rightarrow> (nat \<times> lifecycle_event) list" where
  "notified env ev pl = map (\<lambda>s. (s, ev)) (filter (sub_open env) (subscribers pl))"

text \<open>
  An established connection, inbound or outbound, is recorded and announced: the address is among the connected ones of
  the contact, everybody who waited for the peer is told success, everybody who waited for the address gets the
  contact, every subscriber is told, and nothing else changes.
\<close>

theorem connection_established:
  "\<exists>c. hm_get (contacts (handle_established_outbound env p a pl)) = (hm_get (contacts pl))(p \<mapsto> c)
     \<and> a \<in> p_connected c \<and> a \<notin> p_dialing c \<and> dial_promises c = []
     \<and> replies (handle_established_outbound env p a pl) = replies pl
         @ map (\<lambda>out. BoolReply out True) (waiting_for_peer pl p)
         @ map (\<lambda>out. ContactReply out (Some \<lparr>c_peer_id = p, c_addresses = addresses env c\<rparr>)) (waiting_for_address pl a)
     \<and> delivered (handle_established_outbound env p a pl) = delivered pl @ notified env (Connected (contact_new p [a])) pl
     \<and> handle_established_inbound env p a pl = handle_established_outbound env p a pl"
proof (cases "hm_get (contacts pl) p")
  case None
  then show ?thesis
    by (intro exI [of _ "peer_connected [a]"])
      (simp add: established_same handle_established_inbound_def add_connected_address_def send_lifecycle_event_def Let_def
        reply_all_def get_contact_impl_def fun_eq_iff peer_connected_def waiting_for_peer_def waiting_for_address_def
        notified_def split: option.split)
next
  case (Some c)
  then show ?thesis
    by (intro exI [of _ "c\<lparr>p_dialing := p_dialing c - {a}, p_discovered := p_discovered c - {a},
                    p_connected := insert a (p_connected c), dial_promises := []\<rparr>"])
      (simp add: established_same handle_established_inbound_def add_connected_address_def send_lifecycle_event_def Let_def
        reply_all_def get_contact_impl_def fun_eq_iff waiting_for_peer_def waiting_for_address_def
        notified_def split: option.split)
qed

text \<open>
  When the last connection to a contact is closed the contact is forgotten, everybody who waits for the peer or for the
  address of the connection is told failure, and the subscribers are told with all addresses of the contact.
\<close>

theorem connection_lost:
  assumes "hm_get (contacts pl) p = Some c"
  shows "hm_get (contacts (on_connection_closed env p cp 0 pl)) = (hm_get (contacts pl))(p := None)
    \<and> replies (on_connection_closed env p cp 0 pl) = replies pl
         @ map (\<lambda>out. BoolReply out False) (dial_promises c)
         @ map (\<lambda>out. ContactReply out None) (waiting_for_address pl (remote_multiaddr cp))
    \<and> delivered (on_connection_closed env p cp 0 pl) = delivered pl
         @ notified env (Disconnected (contact_new p (addresses env c))) pl"
proof -
  let ?pl = "remove_contact env p pl"
  have r: "?pl = reply_all (map (\<lambda>out. BoolReply out False) (dial_promises c))
      (send_lifecycle_event env (Disconnected (contact_new p (addresses env c))) (pl\<lparr>contacts := hm_remove p (contacts pl)\<rparr>))"
    using assms by (simp add: remove_contact_def)
  have "cleanup_contact env (Some p) a (cleanup_dialing a ?pl) = cleanup_dialing a ?pl" for a
    by (simp add: cleanup_contact_def cleanup_dialing_def r reply_all_def send_lifecycle_event_def Let_def split: option.split)
  then have e: "on_connection_closed env p cp 0 pl = cleanup_dialing (remote_multiaddr cp) ?pl"
    by (simp add: on_connection_closed_def cleanup_address_split)
  show ?thesis unfolding e r
    by (simp add: cleanup_dialing_def reply_all_def send_lifecycle_event_def Let_def fun_eq_iff notified_def waiting_for_address_def
        split: option.split)
qed

definition demo_connected :: pool where
  "demo_connected = (fst (pool_new protocol_config_default ''me''))
     \<lparr>contacts := [(''p'', \<lparr>p_connected = {''/a''}, p_discovered = {}, p_dialing = {}, dial_promises = [1]\<rparr>)], subscribers := [9]\<rparr>"

theorem connection_lost_witness:
  "hm_get (contacts (on_connection_closed demo_pool_env ''p'' (Dialer ''/a'') 0 demo_connected)) ''p'' = None
   \<and> replies (on_connection_closed demo_pool_env ''p'' (Dialer ''/a'') 0 demo_connected) = [BoolReply 1 False]
   \<and> delivered (on_connection_closed demo_pool_env ''p'' (Dialer ''/a'') 0 demo_connected)
       = [(9, Disconnected (contact_new ''p'' [''/a'']))]"
  using connection_lost [of demo_connected "''p''" _ demo_pool_env "Dialer ''/a''"]
  by (simp add: demo_connected_def pool_new_def hm_get_def waiting_for_address_def notified_def demo_pool_env_def addresses_def)

text \<open>
  A caller that connects to a connected peer by an address that is not connected is not answered: the pool asks
  the swarm to dial.  When the swarm refuses because the peer is connected, under the conditions the pool
  knows nothing happens and the caller waits on; under the condition that combines them the contact
  of the connected peer is removed and its subscribers are told that it is disconnected.
\<close>

theorem connect_to_connected_peer:
  assumes "hm_get (contacts pl) p = Some c" "a \<notin> p_connected c"
    and "pl1 = pool_connect env (contact_new p [a]) out pl"
  shows "replies pl1 = replies pl
    \<and> on_dial_failure env (Some p) (DialPeerConditionFalse CondDisconnected) pl1 = pl1
    \<and> on_dial_failure env (Some p) (DialPeerConditionFalse CondNotDialing) pl1 = pl1
    \<and> out \<in> set (waiting_for_peer pl1 p)
    \<and> hm_get (contacts (on_dial_failure env (Some p) (DialPeerConditionFalse CondDisconnectedAndNotDialing) pl1)) p = None
    \<and> delivered (on_dial_failure env (Some p) (DialPeerConditionFalse CondDisconnectedAndNotDialing) pl1)
        = delivered pl @ notified env (Disconnected (contact_new p (addresses env c))) pl"
proof -
  define d where "d = c\<lparr>dial_promises := dial_promises c @ [out]\<rparr>"
  have c: "hm_get (contacts pl1) p = Some d" "replies pl1 = replies pl" "delivered pl1 = delivered pl" "subscribers pl1 = subscribers pl"
    using assms(1,2) by (simp_all add: assms(3) pool_connect_def contact_new_def Let_def push_event_def d_def)
  have "addresses env d = addresses env c" "out \<in> set (dial_promises d)" by (simp_all add: addresses_def d_def)
  then show ?thesis using c
    by (simp add: on_dial_failure_def remove_contact_def waiting_for_peer_def reply_all_def send_lifecycle_event_def Let_def notified_def)
qed

theorem connect_to_connected_peer_witness:
  "\<exists>pl1. pl1 = pool_connect demo_pool_env (contact_new ''p'' [''/b'']) 2 demo_connected
     \<and> on_dial_failure demo_pool_env (Some ''p'') (DialPeerConditionFalse CondDisconnected) pl1 = pl1
     \<and> 2 \<in> set (waiting_for_peer pl1 ''p'')
     \<and> hm_get (contacts (on_dial_failure demo_pool_env (Some ''p'') (DialPeerConditionFalse CondDisconnectedAndNotDialing) pl1)) ''p'' = None"
proof -
  have c: "hm_get (contacts demo_connected) ''p'' = Some \<lparr>p_connected = {''/a''}, p_discovered = {}, p_dialing = {}, dial_promises = [1]\<rparr>"
    by (simp add: demo_connected_def hm_get_def)
  have n: "''/b'' \<notin> p_connected \<lparr>p_connected = {''/a''}, p_discovered = {}, p_dialing = {}, dial_promises = [1]\<rparr>" by simp
  note w = connect_to_connected_peer [OF c n refl, of demo_pool_env 2]
  show ?thesis by (rule exI [of _ "pool_connect demo_pool_env (contact_new ''p'' [''/b'']) 2 demo_connected"]) (use w in blast)
qed

lemma drain_fifo:
  "(\<And>i. answers i \<noteq> OutReady False) \<Longrightarrow> drain_queue answers i q = (sent, rest, stopped) \<Longrightarrow> sent @ rest = q"
proof (induction q arbitrary: i sent rest stopped)
  case (Cons p ps)
  obtain sent' rest' stopped' where d: "drain_queue answers (i + 1) ps = (sent', rest', stopped')"
    by (cases "drain_queue answers (i + 1) ps")
  have ih: "sent' @ rest' = ps" by (rule Cons.IH [OF Cons.prems(1) d])
  show ?case
  proof (cases "answers i")
    case (OutReady ok)
    then have ok using Cons.prems(1) [of i] by (cases ok) auto
    then show ?thesis using Cons.prems(2) OutReady d ih by auto
  qed (use Cons.prems(2) in simp_all)
qed (auto split: outlet_answer.splits)

lemma execute_queue:
  "\<exists>new. queue (fold (pool_execute env) cmds pl) = queue pl @ new
     \<and> executed (fold (pool_execute env) cmds pl) = executed pl"
proof (induction cmds arbitrary: pl)
  case (Cons cmd cmds)
  have "\<exists>new. queue (pool_execute env cmd pl) = queue pl @ new \<and> executed (pool_execute env cmd pl) = executed pl"
    by (cases cmd) (simp_all add: pool_dial_def pool_connect_def pool_disconnect_def pool_is_connected_def pool_get_contact_def
        pool_send_def pool_count_connections_def add_subscriber_def reply_on_def push_event_def wake_def Let_def split: option.split)
  then show ?case using Cons.IH [of "pool_execute env cmd pl"] by force
qed simp

text \<open>
  A poll hands particles to their execution in the order of their arrival and loses none, as long as
  the outlet accepts what it has room for; particles that commands send to the node itself come last.
\<close>

theorem poll_keeps_particles:
  assumes "\<forall>i. answers i \<noteq> OutReady False"
  shows "\<exists>new. executed (snd (poll env answers pl)) @ queue (snd (poll env answers pl)) = executed pl @ queue pl @ new"
proof -
  obtain sent rest stopped where d: "drain_queue answers 0 (queue pl) = (sent, rest, stopped)" by (cases "drain_queue answers 0 (queue pl)")
  have q: "sent @ rest = queue pl" by (rule drain_fifo [OF _ d]) (use assms in simp)
  define pl1 where "pl1 = pl\<lparr>waker := True, woken := False, queue := rest, executed := executed pl @ sent, commands := []\<rparr>"
  define pl2 where "pl2 = fold (pool_execute env) (commands pl) pl1"
  obtain new where n: "queue pl2 = rest @ new" "executed pl2 = executed pl @ sent"
    using execute_queue [of env "commands pl" pl1] by (auto simp: pl2_def pl1_def)
  have "queue (snd (poll env answers pl)) = queue pl2 \<and> executed (snd (poll env answers pl)) = executed pl2"
    unfolding poll_def d pl2_def pl1_def by (simp add: Let_def split: list.split)
  then show ?thesis using n q by (intro exI [of _ new]) (simp flip: q)
qed

theorem poll_keeps_particles_witness:
  "\<exists>new. executed (snd (poll demo_pool_env (\<lambda>i. if i < 1 then OutReady True else OutPending)
       (demo_connected\<lparr>queue := [demo_particle, demo_signed]\<rparr>)))
     @ queue (snd (poll demo_pool_env (\<lambda>i. if i < 1 then OutReady True else OutPending)
       (demo_connected\<lparr>queue := [demo_particle, demo_signed]\<rparr>))) = [demo_particle, demo_signed] @ new"
  using poll_keeps_particles [of "\<lambda>i. if i < 1 then OutReady True else OutPending" demo_pool_env
      "demo_connected\<lparr>queue := [demo_particle, demo_signed]\<rparr>"]
  by (simp add: demo_connected_def pool_new_def)

end
