(* ===== verification/Kademlia.thy ===== *)
theory Kademlia
  imports Particle_Protocol
begin

text \<open>
  The discovery of peers, \<^verbatim>\<open>crates/kademlia/src\<close> (\<^verbatim>\<open>behaviour.rs\<close>, \<^verbatim>\<open>api.rs\<close>, \<^verbatim>\<open>error.rs\<close>): a behaviour
  around the Kademlia behaviour of libp2p that keeps the callers who wait for a query, gives up on
  requests that take too long, and bans peers that are not found.  The libp2p behaviour is a parameter.
  Instants and durations are natural numbers of milliseconds.
\<close>

section \<open>Definitions\<close>

record kad_config =
  query_timeout :: nat
  peer_fail_threshold :: nat
  ban_cooldown :: nat

definition kad_config_default :: kad_config where
  "kad_config_default = \<lparr>query_timeout = 3000, peer_fail_threshold = 3, ban_cooldown = 60000\<rparr>"

datatype kademlia_error = NoPeersFound | PeerTimedOut | QueryTimedOut | KadCancelled | NoKnownPeers | PeerBanned

text \<open>What the node calls of the libp2p behaviour, whose state is \<open>'k\<close>.  Numbers identify queries.\<close>

record 'k kad_api =
  kad_add_address :: "peer_id \<Rightarrow> multiaddr \<Rightarrow> 'k \<Rightarrow> 'k"
  kad_bootstrap :: "'k \<Rightarrow> nat option \<times> 'k"
  kad_pending_outbound :: "peer_id \<Rightarrow> 'k \<Rightarrow> multiaddr list option \<times> 'k"
  kad_get_closest_peers :: "string \<Rightarrow> 'k \<Rightarrow> nat \<times> 'k"
  kad_get_closest_local_peers :: "string \<Rightarrow> 'k \<Rightarrow> peer_id list \<times> 'k"

text \<open>One-shot channels are numbers, as in the connection pool; what is sent on them is recorded.\<close>

datatype kad_reply =
    AddressesReply nat "kademlia_error + multiaddr list"
  | LookupReply nat "multiaddr list"
  | BootstrapReply nat "kademlia_error + unit"
  | PeersReply nat "kademlia_error + peer_id list"

datatype kad_command =
    KadAddContact contact
  | KadLocalLookup peer_id nat
  | KadBootstrap nat
  | KadDiscoverPeer peer_id nat
  | KadNeighborhood string nat nat

datatype pending_query = QueryPeer peer_id | QueryNeighborhood nat | QueryUnit nat

record pending_peer =
  pp_out :: nat
  pp_created :: nat

record failed_peer =
  fp_ban :: "nat option"
  fp_count :: nat

definition failed_peer_default :: failed_peer where
  "failed_peer_default = \<lparr>fp_ban = None, fp_count = 0\<rparr>"

definition failed_peer_increment :: "failed_peer \<Rightarrow> failed_peer" where
  "failed_peer_increment f = f\<lparr>fp_count := fp_count f + 1\<rparr>"

record 'k kademlia =
  kd_kad :: 'k
  kd_commands :: "kad_command list"
  kd_queries :: "(nat, pending_query) hash_map"
  kd_pending :: "(peer_id, pending_peer list) hash_map"
  kd_failed :: "(peer_id, failed_peer) hash_map"
  kd_waker :: bool
  kd_woken :: bool
  kd_timer :: nat
  kd_replies :: "kad_reply list"

text \<open>\<open>kd_timer\<close> is the instant at which the timer wakes the task.\<close>

definition kademlia_new :: "kad_config \<Rightarrow> nat \<Rightarrow> 'k \<Rightarrow> 'k kademlia" where
  "kademlia_new conf now k = \<lparr>kd_kad = k, kd_commands = [], kd_queries = [], kd_pending = [], kd_failed = [], kd_waker = False, kd_woken = False,
     kd_timer = now + query_timeout conf, kd_replies = []\<rparr>"

definition kad_wake :: "'k kademlia \<Rightarrow> 'k kademlia" where
  "kad_wake kd = (if kd_waker kd then kd\<lparr>kd_woken := True\<rparr> else kd)"

definition kad_send :: "kad_reply \<Rightarrow> 'k kademlia \<Rightarrow> 'k kademlia" where
  "kad_send r kd = kd\<lparr>kd_replies := kd_replies kd @ [r]\<rparr>"

definition add_kad_node :: "'k kad_api \<Rightarrow> peer_id \<Rightarrow> multiaddr list \<Rightarrow> 'k kademlia \<Rightarrow> 'k kademlia" where
  "add_kad_node api p addrs kd = kad_wake (kd\<lparr>kd_kad := fold (kad_add_address api p) addrs (kd_kad kd)\<rparr>)"

definition add_contact :: "'k kad_api \<Rightarrow> contact \<Rightarrow> 'k kademlia \<Rightarrow> 'k kademlia" where
  "add_contact api c kd = kd\<lparr>kd_kad := fold (kad_add_address api (c_peer_id c)) (c_addresses c) (kd_kad kd)\<rparr>"

definition bootstrap :: "'k kad_api \<Rightarrow> nat \<Rightarrow> 'k kademlia \<Rightarrow> 'k kademlia" where
  "bootstrap api out kd =
     (case kad_bootstrap api (kd_kad kd) of
        (Some q, k) \<Rightarrow> kad_wake (kd\<lparr>kd_kad := k, kd_queries := hm_insert q (QueryUnit out) (kd_queries kd)\<rparr>)
      | (None, k) \<Rightarrow> kad_send (BootstrapReply out (Inl NoKnownPeers)) (kd\<lparr>kd_kad := k\<rparr>))"

definition addresses_of_peer :: "'k kad_api \<Rightarrow> peer_id \<Rightarrow> 'k kademlia \<Rightarrow> multiaddr list \<times> 'k kademlia" where
  "addresses_of_peer api p kd =
     (case kad_pending_outbound api p (kd_kad kd) of (r, k) \<Rightarrow> ((case r of Some addrs \<Rightarrow> addrs | None \<Rightarrow> []), kd\<lparr>kd_kad := k\<rparr>))"

definition local_lookup :: "'k kad_api \<Rightarrow> peer_id \<Rightarrow> nat \<Rightarrow> 'k kademlia \<Rightarrow> 'k kademlia" where
  "local_lookup api p out kd = (case addresses_of_peer api p kd of (addrs, kd1) \<Rightarrow> kad_send (LookupReply out addrs) kd1)"

definition is_banned :: "peer_id \<Rightarrow> 'k kademlia \<Rightarrow> bool" where
  "is_banned p kd = (case hm_get (kd_failed kd) p of None \<Rightarrow> False | Some f \<Rightarrow> fp_ban f \<noteq> None)"

definition discover_peer :: "'k kad_api \<Rightarrow> nat \<Rightarrow> peer_id \<Rightarrow> nat \<Rightarrow> 'k kademlia \<Rightarrow> 'k kademlia" where
  "discover_peer api now p out kd =
     (case addresses_of_peer api p kd of (addrs, kd1) \<Rightarrow>
        if addrs \<noteq> [] then kad_send (AddressesReply out (Inr addrs)) kd1
        else if is_banned p kd1 then kad_send (AddressesReply out (Inl PeerBanned)) kd1
        else
          (let outlets = (case hm_get (kd_pending kd1) p of None \<Rightarrow> [] | Some ps \<Rightarrow> ps);
               kd2 = kd1\<lparr>kd_pending := hm_insert p (outlets @ [\<lparr>pp_out = out, pp_created = now\<rparr>]) (kd_pending kd1)\<rparr>
           in if outlets \<noteq> [] then kd2
              else case kad_get_closest_peers api p (kd_kad kd2) of (q, k) \<Rightarrow>
                kad_wake (kd2\<lparr>kd_kad := k, kd_queries := hm_insert q (QueryPeer p) (kd_queries kd2)\<rparr>)))"

definition neighborhood :: "'k kad_api \<Rightarrow> string \<Rightarrow> nat \<Rightarrow> nat \<Rightarrow> 'k kademlia \<Rightarrow> 'k kademlia" where
  "neighborhood api key n out kd =
     (case kad_get_closest_local_peers api key (kd_kad kd) of (peers, k) \<Rightarrow>
        kad_wake (kad_send (PeersReply out (Inr (take n peers))) (kd\<lparr>kd_kad := k\<rparr>)))"

definition remote_neighborhood :: "'k kad_api \<Rightarrow> string \<Rightarrow> nat \<Rightarrow> 'k kademlia \<Rightarrow> 'k kademlia" where
  "remote_neighborhood api key out kd =
     (case kad_get_closest_peers api key (kd_kad kd) of (q, k) \<Rightarrow>
        kad_wake (kd\<lparr>kd_kad := k, kd_queries := hm_insert q (QueryNeighborhood out) (kd_queries kd)\<rparr>))"

fun kad_execute :: "'k kad_api \<Rightarrow> nat \<Rightarrow> kad_command \<Rightarrow> 'k kademlia \<Rightarrow> 'k kademlia" where
  "kad_execute api now (KadAddContact c) kd = add_contact api c kd"
| "kad_execute api now (KadBootstrap out) kd = bootstrap api out kd"
| "kad_execute api now (KadLocalLookup p out) kd = local_lookup api p out kd"
| "kad_execute api now (KadDiscoverPeer p out) kd = discover_peer api now p out kd"
| "kad_execute api now (KadNeighborhood key n out) kd = neighborhood api key n out kd"

definition peer_discovered :: "peer_id \<Rightarrow> multiaddr list \<Rightarrow> 'k kademlia \<Rightarrow> 'k kademlia" where
  "peer_discovered p addrs kd =
     (let kd1 = (case hm_get (kd_pending kd) p of
          None \<Rightarrow> kd
        | Some ps \<Rightarrow> kd\<lparr>kd_pending := hm_remove p (kd_pending kd),
            kd_replies := kd_replies kd @ map (\<lambda>pp. AddressesReply (pp_out pp) (Inr addrs)) ps\<rparr>)
      in kd1\<lparr>kd_failed := hm_remove p (kd_failed kd1)\<rparr>)"

text \<open>The result of a query for the closest peers: the peers, and whether it ended by a timeout.\<close>

record closest_result =
  cr_peers :: "peer_id list"
  cr_timeout :: bool

definition closest_finished :: "'k kad_api \<Rightarrow> nat \<Rightarrow> closest_result \<Rightarrow> 'k kademlia \<Rightarrow> 'k kademlia" where
  "closest_finished api q result kd =
     (case hm_get (kd_queries kd) q of
        None \<Rightarrow> kd
      | Some pending \<Rightarrow>
          (let kd1 = kd\<lparr>kd_queries := hm_remove q (kd_queries kd)\<rparr> in
           case pending of
             QueryPeer p \<Rightarrow> (case addresses_of_peer api p kd1 of (addrs, kd2) \<Rightarrow>
               if addrs \<noteq> [] then peer_discovered p addrs kd2 else kd2)
           | QueryNeighborhood out \<Rightarrow> kad_send (PeersReply out
               (if cr_peers result \<noteq> [] then Inr (cr_peers result)
                else if cr_timeout result then Inl QueryTimedOut else Inl NoPeersFound)) kd1
           | QueryUnit out \<Rightarrow> kad_send (BootstrapReply out (Inr ())) kd1))"

text \<open>
  \<open>num_remaining\<close> is how many buckets are left, if that is known.  A query that is not a bootstrap is
  removed all the same.
\<close>

definition bootstrap_finished :: "nat \<Rightarrow> nat option \<Rightarrow> 'k kademlia \<Rightarrow> 'k kademlia" where
  "bootstrap_finished q num_remaining kd =
     (if num_remaining = Some 0
      then (let kd1 = kd\<lparr>kd_queries := hm_remove q (kd_queries kd)\<rparr> in
            case hm_get (kd_queries kd) q of
              Some (QueryUnit out) \<Rightarrow> kad_send (BootstrapReply out (Inr ())) kd1
            | _ \<Rightarrow> kd1)
      else kd)"

text \<open>Whether something has timed out, and the time until the task has to wake up.\<close>

definition has_timed_out :: "nat \<Rightarrow> nat \<Rightarrow> nat \<Rightarrow> nat \<Rightarrow> bool \<times> nat" where
  "has_timed_out now since timeout next_wake =
     (let elapsed = now - since in
      if elapsed < timeout then (False, min (timeout - elapsed) next_wake) else (True, next_wake))"

text \<open>\<^verbatim>\<open>extract_if\<close>: the requests that have expired, those that stay, and the time to wake up.\<close>

fun extract_expired :: "nat \<Rightarrow> nat \<Rightarrow> pending_peer list \<Rightarrow> nat \<Rightarrow> pending_peer list \<times> pending_peer list \<times> nat" where
  "extract_expired now timeout [] next_wake = ([], [], next_wake)"
| "extract_expired now timeout (p # ps) next_wake =
     (case has_timed_out now (pp_created p) timeout next_wake of (expired, next_wake1) \<Rightarrow>
        case extract_expired now timeout ps next_wake1 of (es, rest, next_wake2) \<Rightarrow>
          if expired then (p # es, rest, next_wake2) else (es, p # rest, next_wake2))"

fun retain_pending ::
    "kad_config \<Rightarrow> nat \<Rightarrow> (peer_id, pending_peer list) hash_map \<Rightarrow> (peer_id, failed_peer) hash_map \<Rightarrow> nat
      \<Rightarrow> (peer_id, pending_peer list) hash_map \<times> (peer_id, failed_peer) hash_map \<times> nat \<times> kad_reply list" where
  "retain_pending conf now [] failed next_wake = ([], failed, next_wake, [])"
| "retain_pending conf now ((p, ps) # pending) failed next_wake =
     (case extract_expired now (query_timeout conf * 2) ps next_wake of (es, rest, next_wake1) \<Rightarrow>
        let failed1 = (if es \<noteq> []
              then hm_insert p (failed_peer_increment (case hm_get failed p of Some f \<Rightarrow> f | None \<Rightarrow> failed_peer_default)) failed
              else failed) in
        case retain_pending conf now pending failed1 next_wake1 of (pending', failed', next_wake2, replies) \<Rightarrow>
          (if rest \<noteq> [] then (p, rest) # pending' else pending', failed', next_wake2,
           map (\<lambda>pp. AddressesReply (pp_out pp) (Inl PeerTimedOut)) es @ replies))"

fun retain_failed :: "kad_config \<Rightarrow> nat \<Rightarrow> (peer_id, failed_peer) hash_map \<Rightarrow> nat \<Rightarrow> (peer_id, failed_peer) hash_map \<times> nat" where
  "retain_failed conf now [] next_wake = ([], next_wake)"
| "retain_failed conf now ((p, f) # failed) next_wake =
     (case (case fp_ban f of None \<Rightarrow> (False, next_wake) | Some ban \<Rightarrow> has_timed_out now ban (ban_cooldown conf) next_wake) of
        (True, next_wake1) \<Rightarrow> retain_failed conf now failed next_wake1
      | (False, next_wake1) \<Rightarrow>
          (case retain_failed conf now failed next_wake1 of (failed', next_wake2) \<Rightarrow>
             ((p, if fp_count f \<ge> peer_fail_threshold conf then f\<lparr>fp_ban := Some now\<rparr> else f) # failed', next_wake2)))"

text \<open>
  The poll of the node's part.  \<open>clock\<close> is the instant at which each command is executed, \<open>now\<close> the one read
  afterwards.  It always ends pending.
\<close>

fun execute_commands :: "'k kad_api \<Rightarrow> (nat \<Rightarrow> nat) \<Rightarrow> nat \<Rightarrow> kad_command list \<Rightarrow> 'k kademlia \<Rightarrow> 'k kademlia" where
  "execute_commands api clock i [] kd = kd"
| "execute_commands api clock i (cmd # cmds) kd = execute_commands api clock (i + 1) cmds (kad_execute api (clock i) cmd kd)"

definition check_timeouts :: "kad_config \<Rightarrow> nat \<Rightarrow> 'k kademlia \<Rightarrow> 'k kademlia" where
  "check_timeouts conf now kd =
     (if kd_pending kd = [] \<and> kd_failed kd = [] then kd
      else case retain_pending conf now (kd_pending kd) (kd_failed kd) (min (query_timeout conf) (ban_cooldown conf)) of
        (pending, failed, next_wake, replies) \<Rightarrow>
          (case retain_failed conf now failed next_wake of (failed', next_wake') \<Rightarrow>
             kd\<lparr>kd_pending := pending, kd_failed := failed', kd_timer := now + next_wake', kd_replies := kd_replies kd @ replies\<rparr>))"

definition kad_poll_commands :: "'k kad_api \<Rightarrow> kad_config \<Rightarrow> (nat \<Rightarrow> nat) \<Rightarrow> nat \<Rightarrow> 'k kademlia \<Rightarrow> 'k kademlia" where
  "kad_poll_commands api conf clock now kd =
     (let kd1 = execute_commands api clock 0 (kd_commands kd) (kd\<lparr>kd_waker := True, kd_woken := False, kd_commands := []\<rparr>)
      in check_timeouts conf now (if kd_commands kd \<noteq> [] then kd1\<lparr>kd_woken := True\<rparr> else kd1))"

datatype kad_event =
    ClosestPeersProgressed nat closest_result
  | BootstrapProgressed nat "nat option"
  | RoutingUpdated peer_id "multiaddr list"
  | RoutablePeer peer_id multiaddr
  | OtherKadEvent

fun inject_kad_event :: "'k kad_api \<Rightarrow> kad_event \<Rightarrow> 'k kademlia \<Rightarrow> 'k kademlia" where
  "inject_kad_event api (ClosestPeersProgressed q r) kd = closest_finished api q r kd"
| "inject_kad_event api (BootstrapProgressed q n) kd = bootstrap_finished q n kd"
| "inject_kad_event api (RoutingUpdated p addrs) kd = peer_discovered p addrs kd"
| "inject_kad_event api (RoutablePeer p addr) kd = peer_discovered p [addr] kd"
| "inject_kad_event api OtherKadEvent kd = kd"

text \<open>
  What the libp2p behaviour answers when it is polled, each time with its new state; \<open>KadToSwarm\<close> is
  anything that is passed on to the swarm.
\<close>

datatype 'a kad_answer = KadGenerated kad_event | KadToSwarm 'a | KadUnexpected

fun poll_kad :: "'k kad_api \<Rightarrow> ('k \<times> 'a kad_answer) list \<Rightarrow> 'k kademlia \<Rightarrow> 'a option \<times> 'k kademlia" where
  "poll_kad api [] kd = (None, kd)"
| "poll_kad api ((k, KadGenerated ev) # answers) kd = poll_kad api answers (inject_kad_event api ev (kd\<lparr>kd_kad := k\<rparr>))"
| "poll_kad api ((k, KadToSwarm x) # answers) kd = (Some x, kd\<lparr>kd_kad := k\<rparr>)"
| "poll_kad api ((k, KadUnexpected) # answers) kd = poll_kad api answers (kd\<lparr>kd_kad := k\<rparr>)"

definition kademlia_poll ::
    "'k kad_api \<Rightarrow> kad_config \<Rightarrow> (nat \<Rightarrow> nat) \<Rightarrow> nat \<Rightarrow> ('k \<times> 'a kad_answer) list \<Rightarrow> 'k kademlia \<Rightarrow> 'a option \<times> 'k kademlia" where
  "kademlia_poll api conf clock now answers kd = poll_kad api answers (kad_poll_commands api conf clock now kd)"

text \<open>The API puts a command into the queue, which wakes the task, unless the behaviour is gone.\<close>

definition kad_api_execute :: "bool \<Rightarrow> kad_command \<Rightarrow> 'k kademlia \<Rightarrow> (kademlia_error + unit) \<times> 'k kademlia" where
  "kad_api_execute alive cmd kd =
     (if alive then (Inr (), kad_wake (kd\<lparr>kd_commands := kd_commands kd @ [cmd]\<rparr>)) else (Inl KadCancelled, kd))"

text \<open>What the caller gets; \<open>None\<close> stands for a channel that was dropped.\<close>

definition kad_api_answer :: "(kademlia_error + 'r) option \<Rightarrow> kademlia_error + 'r" where
  "kad_api_answer r = (case r of None \<Rightarrow> Inl KadCancelled | Some x \<Rightarrow> x)"

section \<open>Channels\<close>

fun kad_command_channel :: "kad_command \<Rightarrow> nat option" where
  "kad_command_channel (KadAddContact _) = None"
| "kad_command_channel (KadLocalLookup _ out) = Some out"
| "kad_command_channel (KadBootstrap out) = Some out"
| "kad_command_channel (KadDiscoverPeer _ out) = Some out"
| "kad_command_channel (KadNeighborhood _ _ out) = Some out"

fun kad_reply_channel :: "kad_reply \<Rightarrow> nat" where
  "kad_reply_channel (AddressesReply out _) = out"
| "kad_reply_channel (LookupReply out _) = out"
| "kad_reply_channel (BootstrapReply out _) = out"
| "kad_reply_channel (PeersReply out _) = out"

fun query_channels :: "pending_query \<Rightarrow> nat multiset" where
  "query_channels (QueryPeer _) = {#}"
| "query_channels (QueryNeighborhood out) = {#out#}"
| "query_channels (QueryUnit out) = {#out#}"

definition pending_channels :: "pending_peer list \<Rightarrow> nat multiset" where
  "pending_channels ps = mset (map pp_out ps)"

definition kad_answered :: "'k kademlia \<Rightarrow> nat multiset" where
  "kad_answered kd = mset (map kad_reply_channel (kd_replies kd))"

definition kad_kept :: "'k kademlia \<Rightarrow> nat multiset" where
  "kad_kept kd = hm_msum query_channels (kd_queries kd) + hm_msum pending_channels (kd_pending kd)"

definition command_channels :: "kad_command list \<Rightarrow> nat list" where
  "command_channels cmds = List.map_filter kad_command_channel cmds"

text \<open>
  The libp2p behaviour numbers its queries: \<open>next k\<close> is above all numbers given so far, and only starting
  a query gives a number.
\<close>

definition kad_numbers_queries :: "'k kad_api \<Rightarrow> ('k \<Rightarrow> nat) \<Rightarrow> bool" where
  "kad_numbers_queries api nxt \<longleftrightarrow>
     (\<forall>p addr k. nxt (kad_add_address api p addr k) = nxt k)
   \<and> (\<forall>k. case kad_bootstrap api k of (Some q, k') \<Rightarrow> nxt k \<le> q \<and> q < nxt k' | (None, k') \<Rightarrow> nxt k' = nxt k)
   \<and> (\<forall>p k. nxt (snd (kad_pending_outbound api p k)) = nxt k)
   \<and> (\<forall>key k. case kad_get_closest_peers api key k of (q, k') \<Rightarrow> nxt k \<le> q \<and> q < nxt k')
   \<and> (\<forall>key k. nxt (snd (kad_get_closest_local_peers api key k)) = nxt k)"

definition kad_ok :: "('k \<Rightarrow> nat) \<Rightarrow> 'k kademlia \<Rightarrow> bool" where
  "kad_ok nxt kd \<longleftrightarrow> hm_ok (kd_queries kd) \<and> hm_ok (kd_pending kd) \<and> hm_ok (kd_failed kd)
     \<and> (\<forall>q out. hm_get (kd_queries kd) q \<noteq> Some (QueryNeighborhood out))
     \<and> (\<forall>q. hm_get (kd_queries kd) q \<noteq> None \<longrightarrow> q < nxt (kd_kad kd))"

text \<open>An operation takes the channels \<open>cs\<close> and keeps the state well formed; no channel is lost.\<close>

definition takes :: "('k \<Rightarrow> nat) \<Rightarrow> nat multiset \<Rightarrow> 'k kademlia \<Rightarrow> 'k kademlia \<Rightarrow> bool" where
  "takes nxt cs kd kd' \<longleftrightarrow> kad_ok nxt kd' \<and> kad_answered kd' + kad_kept kd' = kad_answered kd + kad_kept kd + cs
     \<and> nxt (kd_kad kd) \<le> nxt (kd_kad kd') \<and> kd_commands kd' = kd_commands kd"

lemmas kad_simps = takes_def kad_ok_def kad_answered_def kad_kept_def kad_send_def kad_wake_def

lemma takes_refl: "kad_ok nxt kd \<Longrightarrow> takes nxt {#} kd kd"
  by (simp add: takes_def)

lemma takes_trans: "takes nxt cs kd kd' \<Longrightarrow> takes nxt ds kd' kd'' \<Longrightarrow> takes nxt (cs + ds) kd kd''"
  by (auto simp: takes_def ac_simps)

lemma fold_add_address: "kad_numbers_queries api nxt \<Longrightarrow> nxt (fold (kad_add_address api p) addrs k) = nxt k"
  by (induction addrs arbitrary: k) (auto simp: kad_numbers_queries_def)

lemma addresses_of_peer_spec:
  assumes "kad_numbers_queries api nxt" "addresses_of_peer api p kd = (addrs, kd')"
  shows "\<exists>k. kd' = kd\<lparr>kd_kad := k\<rparr> \<and> nxt k = nxt (kd_kad kd)"
  using assms by (auto simp: addresses_of_peer_def kad_numbers_queries_def split: prod.splits) (metis snd_conv)

lemma new_query_takes:
  assumes "kad_ok nxt kd" "nxt (kd_kad kd) \<le> q" "q < nxt k" "\<forall>out. pq \<noteq> QueryNeighborhood out"
  shows "takes nxt (query_channels pq) kd (kad_wake (kd\<lparr>kd_kad := k, kd_queries := hm_insert q pq (kd_queries kd)\<rparr>))"
proof -
  have n: "hm_get (kd_queries kd) q = None" using assms by (auto simp: kad_ok_def)
  show ?thesis using assms hm_msum_insert_None [OF n, of query_channels pq]
    by (auto simp: kad_simps)
qed

lemma bootstrap_takes:
  assumes "kad_numbers_queries api nxt" "kad_ok nxt kd"
  shows "takes nxt {#out#} kd (bootstrap api out kd)"
proof -
  obtain r k where b: "kad_bootstrap api (kd_kad kd) = (r, k)" by (cases "kad_bootstrap api (kd_kad kd)")
  have l: "case r of Some q \<Rightarrow> nxt (kd_kad kd) \<le> q \<and> q < nxt k | None \<Rightarrow> nxt k = nxt (kd_kad kd)"
    using assms(1) b unfolding kad_numbers_queries_def by (metis (mono_tags, lifting) old.prod.case option.case_eq_if)
  show ?thesis
  proof (cases r)
    case None
    then show ?thesis using assms(2) b l by (auto simp: bootstrap_def kad_simps)
  next
    case (Some q)
    then show ?thesis using new_query_takes [OF assms(2), of q k "QueryUnit out"] b l by (simp add: bootstrap_def)
  qed
qed

lemma pending_takes:
  assumes "kad_ok nxt kd" "outlets = (case hm_get (kd_pending kd) p of None \<Rightarrow> [] | Some ps \<Rightarrow> ps)"
  shows "takes nxt {#out#} kd (kd\<lparr>kd_pending := hm_insert p (outlets @ [\<lparr>pp_out = out, pp_created = now\<rparr>]) (kd_pending kd)\<rparr>)"
  using assms hm_msum_insert [of pending_channels p "outlets @ [\<lparr>pp_out = out, pp_created = now\<rparr>]" "kd_pending kd"]
  by (auto simp: kad_simps pending_channels_def split: option.splits)

lemma discover_peer_takes:
  assumes law: "kad_numbers_queries api nxt" and ok: "kad_ok nxt kd"
  shows "takes nxt {#out#} kd (discover_peer api now p out kd)"
proof -
  obtain addrs kd1 where a: "addresses_of_peer api p kd = (addrs, kd1)" by (cases "addresses_of_peer api p kd")
  obtain k where k: "kd1 = kd\<lparr>kd_kad := k\<rparr>" "nxt k = nxt (kd_kad kd)" using addresses_of_peer_spec [OF law a] by blast
  have ok1: "kad_ok nxt kd1" and t1: "takes nxt {#} kd kd1" using ok k by (auto simp: kad_simps)
  have send: "takes nxt {#out#} kd1 (kad_send (AddressesReply out r) kd1)" for r using ok1 by (auto simp: kad_simps)
  define outlets where "outlets = (case hm_get (kd_pending kd1) p of None \<Rightarrow> [] | Some ps \<Rightarrow> ps)"
  define kd2 where "kd2 = kd1\<lparr>kd_pending := hm_insert p (outlets @ [\<lparr>pp_out = out, pp_created = now\<rparr>]) (kd_pending kd1)\<rparr>"
  have t2: "takes nxt {#out#} kd1 kd2" unfolding kd2_def using pending_takes [OF ok1 outlets_def] .
  obtain q k' where c: "kad_get_closest_peers api p (kd_kad kd2) = (q, k')" by (cases "kad_get_closest_peers api p (kd_kad kd2)")
  have "nxt (kd_kad kd2) \<le> q" "q < nxt k'" using law c unfolding kad_numbers_queries_def by (metis (mono_tags, lifting) old.prod.case)+
  then have t3: "takes nxt {#} kd2 (kad_wake (kd2\<lparr>kd_kad := k', kd_queries := hm_insert q (QueryPeer p) (kd_queries kd2)\<rparr>))"
    using new_query_takes [of nxt kd2 q k' "QueryPeer p"] t2 by (simp add: takes_def)
  have "discover_peer api now p out kd = (if addrs \<noteq> [] then kad_send (AddressesReply out (Inr addrs)) kd1
      else if is_banned p kd1 then kad_send (AddressesReply out (Inl PeerBanned)) kd1
      else if outlets \<noteq> [] then kd2 else kad_wake (kd2\<lparr>kd_kad := k', kd_queries := hm_insert q (QueryPeer p) (kd_queries kd2)\<rparr>))"
    by (simp only: discover_peer_def a prod.case Let_def outlets_def [symmetric] kd2_def [symmetric] c)
  then show ?thesis
    using takes_trans [OF t1 send] takes_trans [OF t1 t2] takes_trans [OF t1 takes_trans [OF t2 t3]] by simp
qed

lemma kad_execute_takes:
  assumes "kad_numbers_queries api nxt" "kad_ok nxt kd"
  shows "takes nxt (case kad_command_channel cmd of None \<Rightarrow> {#} | Some out \<Rightarrow> {#out#}) kd (kad_execute api now cmd kd)"
proof (cases cmd)
  case (KadAddContact c)
  then show ?thesis using assms fold_add_address [OF assms(1)] by (auto simp: add_contact_def kad_simps)
next
  case (KadLocalLookup p out)
  obtain addrs kd1 where a: "addresses_of_peer api p kd = (addrs, kd1)" by (cases "addresses_of_peer api p kd")
  then show ?thesis using KadLocalLookup assms addresses_of_peer_spec [OF assms(1) a] by (auto simp: local_lookup_def kad_simps)
next
  case (KadNeighborhood key n out)
  obtain ps k where c: "kad_get_closest_local_peers api key (kd_kad kd) = (ps, k)" by (cases "kad_get_closest_local_peers api key (kd_kad kd)")
  have "nxt k = nxt (kd_kad kd)" using assms(1) c unfolding kad_numbers_queries_def by (metis snd_conv)
  then show ?thesis using KadNeighborhood assms(2) c by (auto simp: neighborhood_def kad_simps)
qed (use assms bootstrap_takes discover_peer_takes in auto)

lemma execute_commands_takes:
  assumes "kad_numbers_queries api nxt"
  shows "kad_ok nxt kd \<Longrightarrow> takes nxt (mset (command_channels cmds)) kd (execute_commands api clock i cmds kd)"
proof (induction cmds arbitrary: i kd)
  case Nil
  then show ?case by (simp add: takes_refl command_channels_def map_filter_simps)
next
  case (Cons cmd cmds)
  note t = kad_execute_takes [OF assms Cons.prems, of cmd "clock i"]
  have "kad_ok nxt (kad_execute api (clock i) cmd kd)" using t by (simp add: takes_def)
  then show ?case using takes_trans [OF t Cons.IH [of _ "i + 1"]] by (cases "kad_command_channel cmd") (auto simp: command_channels_def map_filter_simps)
qed

lemma peer_discovered_takes: "kad_ok nxt kd \<Longrightarrow> takes nxt {#} kd (peer_discovered p addrs kd)"
  using hm_msum_remove_Some [of "kd_pending kd" p _ pending_channels]
  by (auto simp: peer_discovered_def kad_simps Let_def pending_channels_def multiset.map_comp comp_def ac_simps split: option.splits)

lemma closest_finished_takes:
  assumes "kad_numbers_queries api nxt" "kad_ok nxt kd"
  shows "takes nxt {#} kd (closest_finished api q r kd)"
proof (cases "hm_get (kd_queries kd) q")
  case None
  then show ?thesis using assms by (simp add: closest_finished_def takes_refl)
next
  case (Some pq)
  let ?kd1 = "kd\<lparr>kd_queries := hm_remove q (kd_queries kd)\<rparr>"
  have s: "hm_msum query_channels (hm_remove q (kd_queries kd)) + query_channels pq = hm_msum query_channels (kd_queries kd)"
    using hm_msum_remove_Some [OF _ Some, of query_channels] assms(2) by (simp add: kad_ok_def)
  show ?thesis
  proof (cases pq)
    case (QueryPeer p)
    obtain addrs kd2 where a: "addresses_of_peer api p ?kd1 = (addrs, kd2)" by (cases "addresses_of_peer api p ?kd1")
    have t: "takes nxt {#} kd kd2" using addresses_of_peer_spec [OF assms(1) a] assms(2) s QueryPeer by (auto simp: kad_simps split: if_splits)
    then have "takes nxt {#} kd2 (peer_discovered p addrs kd2)" by (intro peer_discovered_takes) (simp add: takes_def)
    then show ?thesis using t takes_trans [OF t] Some QueryPeer a by (fastforce simp: closest_finished_def Let_def)
  next
    case (QueryNeighborhood out)
    then show ?thesis using assms(2) Some by (simp add: kad_ok_def)
  next
    case (QueryUnit out)
    then show ?thesis using assms(2) Some s by (auto simp: closest_finished_def kad_simps Let_def split: if_splits)
  qed
qed

lemma bootstrap_finished_takes:
  assumes "kad_ok nxt kd"
  shows "takes nxt {#} kd (bootstrap_finished q n kd)"
proof (cases "hm_get (kd_queries kd) q")
  case None
  then show ?thesis using assms hm_remove_absent [OF None] by (auto simp: bootstrap_finished_def Let_def takes_refl)
next
  case (Some pq)
  have "hm_msum query_channels (hm_remove q (kd_queries kd)) + query_channels pq = hm_msum query_channels (kd_queries kd)"
    using hm_msum_remove_Some [OF _ Some, of query_channels] assms by (simp add: kad_ok_def)
  then show ?thesis using assms Some by (cases pq) (auto simp: bootstrap_finished_def kad_simps Let_def split: if_splits)
qed

lemma inject_kad_event_takes:
  "kad_numbers_queries api nxt \<Longrightarrow> kad_ok nxt kd \<Longrightarrow> takes nxt {#} kd (inject_kad_event api ev kd)"
  by (cases ev) (auto intro: closest_finished_takes bootstrap_finished_takes peer_discovered_takes takes_refl)

section \<open>Timeouts\<close>

lemma has_timed_out_spec:
  "has_timed_out now since timeout w = (expired, w') \<Longrightarrow> (expired \<longleftrightarrow> timeout \<le> now - since) \<and> w' \<le> w \<and> (\<not> expired \<longrightarrow> w' \<le> timeout - (now - since))"
  by (auto simp: has_timed_out_def Let_def split: if_splits)

lemma extract_expired_spec:
  "extract_expired now timeout ps w = (es, rest, w') \<Longrightarrow>
     es = filter (\<lambda>p. timeout \<le> now - pp_created p) ps \<and> rest = filter (\<lambda>p. \<not> timeout \<le> now - pp_created p) ps
   \<and> w' \<le> w \<and> (\<forall>p \<in> set rest. w' \<le> timeout - (now - pp_created p))"
proof (induction ps arbitrary: w es rest w')
  case (Cons p ps)
  obtain expired w1 where h: "has_timed_out now (pp_created p) timeout w = (expired, w1)" by (cases "has_timed_out now (pp_created p) timeout w")
  obtain es1 rest1 w2 where e: "extract_expired now timeout ps w1 = (es1, rest1, w2)" by (cases "extract_expired now timeout ps w1")
  have hs: "expired \<longleftrightarrow> timeout \<le> now - pp_created p" "w1 \<le> w" "\<not> expired \<longrightarrow> w1 \<le> timeout - (now - pp_created p)"
    using has_timed_out_spec [OF h] by blast+
  have es: "es1 = filter (\<lambda>p. timeout \<le> now - pp_created p) ps" "rest1 = filter (\<lambda>p. \<not> timeout \<le> now - pp_created p) ps"
    "w2 \<le> w1" "\<forall>p \<in> set rest1. w2 \<le> timeout - (now - pp_created p)"
    using Cons.IH [OF e] by blast+
  have res: "es = (if expired then p # es1 else es1)" "rest = (if expired then rest1 else p # rest1)" "w' = w2"
    using Cons.prems h e by (auto split: if_splits)
  have "w' \<le> w" using res(3) es(3) hs(2) by simp
  moreover have "\<forall>p \<in> set rest. w' \<le> timeout - (now - pp_created p)"
    using res(2,3) es(3,4) hs(3) by (cases expired) (simp, fastforce intro: order_trans)
  ultimately show ?case using res(1,2) hs(1) es(1,2) by simp
qed simp

text \<open>What the timeouts do to the requests for one peer.\<close>

definition is_timed_out :: "kad_config \<Rightarrow> nat \<Rightarrow> pending_peer \<Rightarrow> bool" where
  "is_timed_out conf now p \<longleftrightarrow> query_timeout conf * 2 \<le> now - pp_created p"

lemma retain_pending_spec:
  "retain_pending conf now pending failed w = (pending', failed', w', replies) \<Longrightarrow>
     pending' = filter (\<lambda>(p, ps). ps \<noteq> []) (map (\<lambda>(p, ps). (p, filter (\<lambda>pp. \<not> is_timed_out conf now pp) ps)) pending)
   \<and> replies = concat (map (\<lambda>(p, ps). map (\<lambda>pp. AddressesReply (pp_out pp) (Inl PeerTimedOut)) (filter (is_timed_out conf now) ps)) pending)
   \<and> w' \<le> w \<and> (\<forall>(p, ps) \<in> set pending'. \<forall>pp \<in> set ps. w' \<le> query_timeout conf * 2 - (now - pp_created pp))
   \<and> (hm_ok failed \<longrightarrow> hm_ok failed')
   \<and> (\<forall>p f. hm_get failed p = Some f \<longrightarrow> (\<exists>f'. hm_get failed' p = Some f' \<and> fp_ban f' = fp_ban f \<and> fp_count f \<le> fp_count f'))
   \<and> (failed \<noteq> [] \<longrightarrow> failed' \<noteq> [])"
proof (induction pending arbitrary: failed w pending' failed' w' replies)
  case (Cons x pending)
  obtain p ps where x: "x = (p, ps)" by (cases x)
  obtain es rest w1 where e: "extract_expired now (query_timeout conf * 2) ps w = (es, rest, w1)"
    by (cases "extract_expired now (query_timeout conf * 2) ps w")
  define failed1 where "failed1 = (if es \<noteq> []
      then hm_insert p (failed_peer_increment (case hm_get failed p of Some f \<Rightarrow> f | None \<Rightarrow> failed_peer_default)) failed else failed)"
  obtain pending1 failed2 w2 replies1 where r: "retain_pending conf now pending failed1 w1 = (pending1, failed2, w2, replies1)"
    by (cases "retain_pending conf now pending failed1 w1")
  note se = extract_expired_spec [OF e] and sr = Cons.IH [OF r]
  have eqs: "es = filter (is_timed_out conf now) ps" "rest = filter (\<lambda>pp. \<not> is_timed_out conf now pp) ps"
    using se by (auto simp: is_timed_out_def [abs_def])
  have res: "pending' = (if rest \<noteq> [] then (p, rest) # pending1 else pending1)" "failed' = failed2" "w' = w2"
    "replies = map (\<lambda>pp. AddressesReply (pp_out pp) (Inl PeerTimedOut)) es @ replies1"
    using Cons.prems x e r by (auto simp: failed1_def [symmetric] Let_def)
  have f: "hm_ok failed \<longrightarrow> hm_ok failed1" "failed \<noteq> [] \<longrightarrow> failed1 \<noteq> []"
    "hm_get failed q = Some f \<longrightarrow> (\<exists>f'. hm_get failed1 q = Some f' \<and> fp_ban f' = fp_ban f \<and> fp_count f \<le> fp_count f')" for q f
    by (auto simp: failed1_def failed_peer_increment_def) (metis hm_get_Nil hm_get_insert option.distinct(1))
  show ?case
  proof (intro conjI)
    show "\<forall>(p, ps) \<in> set pending'. \<forall>pp \<in> set ps. w' \<le> query_timeout conf * 2 - (now - pp_created pp)"
    proof -
      have "w2 \<le> w1" "\<forall>(p, ps) \<in> set pending1. \<forall>pp \<in> set ps. w2 \<le> query_timeout conf * 2 - (now - pp_created pp)" using sr by blast+
      moreover have "\<forall>pp \<in> set rest. w1 \<le> query_timeout conf * 2 - (now - pp_created pp)" using se by blast
      ultimately have "\<forall>(p, ps) \<in> set ((p, rest) # pending1). \<forall>pp \<in> set ps. w2 \<le> query_timeout conf * 2 - (now - pp_created pp)"
        by (auto simp: ball_Un dest!: bspec intro: order_trans [of w2 w1])
      then show ?thesis unfolding res(1,3) by (simp split: if_splits)
    qed
    show "\<forall>q f. hm_get failed q = Some f \<longrightarrow> (\<exists>f'. hm_get failed' q = Some f' \<and> fp_ban f' = fp_ban f \<and> fp_count f \<le> fp_count f')"
    proof (intro allI impI)
      fix q f
      assume "hm_get failed q = Some f"
      then obtain f1 where f1: "hm_get failed1 q = Some f1" "fp_ban f1 = fp_ban f" "fp_count f \<le> fp_count f1" using f(3) by blast
      have "\<forall>p f. hm_get failed1 p = Some f \<longrightarrow> (\<exists>f'. hm_get failed2 p = Some f' \<and> fp_ban f' = fp_ban f \<and> fp_count f \<le> fp_count f')" using sr by blast
      then obtain f2 where "hm_get failed2 q = Some f2" "fp_ban f2 = fp_ban f1" "fp_count f1 \<le> fp_count f2" using f1(1) by blast
      then show "\<exists>f'. hm_get failed' q = Some f' \<and> fp_ban f' = fp_ban f \<and> fp_count f \<le> fp_count f'" using f1 res(2) by auto
    qed
    show "pending' = filter (\<lambda>(p, ps). ps \<noteq> []) (map (\<lambda>(p, ps). (p, filter (\<lambda>pp. \<not> is_timed_out conf now pp) ps)) (x # pending))"
      using conjunct1 [OF sr] res(1) eqs(2) x by simp
    show "replies = concat (map (\<lambda>(p, ps). map (\<lambda>pp. AddressesReply (pp_out pp) (Inl PeerTimedOut)) (filter (is_timed_out conf now) ps)) (x # pending))"
      using conjunct1 [OF conjunct2 [OF sr]] res(4) eqs(1) x by simp
    have "w2 \<le> w1" "w1 \<le> w" using sr se by blast+
    then show "w' \<le> w" using res(3) by simp
    have "hm_ok failed1 \<longrightarrow> hm_ok failed2" "failed1 \<noteq> [] \<longrightarrow> failed2 \<noteq> []" using sr by blast+
    then show "hm_ok failed \<longrightarrow> hm_ok failed'" "failed \<noteq> [] \<longrightarrow> failed' \<noteq> []" using f(1,2) res(2) by simp_all
  qed
qed simp

lemma retain_failed_spec:
  assumes "retain_failed conf now failed w = (failed', w')"
  shows "w' \<le> w \<and> (\<forall>p. hm_ok failed \<longrightarrow> hm_get failed' p = (case hm_get failed p of
       None \<Rightarrow> None
     | Some f \<Rightarrow> if (\<exists>ban. fp_ban f = Some ban \<and> ban_cooldown conf \<le> now - ban) then None
         else Some (if peer_fail_threshold conf \<le> fp_count f then f\<lparr>fp_ban := Some now\<rparr> else f)))
     \<and> set (map fst failed') \<subseteq> set (map fst failed) \<and> (hm_ok failed \<longrightarrow> hm_ok failed')"
  using assms
proof (induction failed arbitrary: w failed' w')
  case (Cons x failed)
  obtain p f where x: "x = (p, f)" by (cases x)
  obtain expired w1 where h: "(case fp_ban f of None \<Rightarrow> (False, w) | Some ban \<Rightarrow> has_timed_out now ban (ban_cooldown conf) w) = (expired, w1)"
    by (cases "case fp_ban f of None \<Rightarrow> (False, w) | Some ban \<Rightarrow> has_timed_out now ban (ban_cooldown conf) w")
  have e: "expired \<longleftrightarrow> (\<exists>ban. fp_ban f = Some ban \<and> ban_cooldown conf \<le> now - ban)" "w1 \<le> w"
    using h has_timed_out_spec [of now _ "ban_cooldown conf" w expired w1] by (auto split: option.splits)
  obtain failed1 w2 where r: "retain_failed conf now failed w1 = (failed1, w2)" by (cases "retain_failed conf now failed w1")
  note IH = Cons.IH [OF r]
  have res: "failed' = (if expired then failed1 else (p, if fp_count f \<ge> peer_fail_threshold conf then f\<lparr>fp_ban := Some now\<rparr> else f) # failed1)" "w' = w2"
    using Cons.prems x h r by (cases expired; simp)+
  have sub: "set (map fst failed1) \<subseteq> set (map fst failed)" using IH by blast
  have n: "hm_ok (x # failed) \<longrightarrow> hm_get failed1 p = None"
    using sub x by (auto simp: hm_ok_def hm_get_def map_of_eq_None_iff)
  show ?case
  proof (intro conjI allI impI)
    fix q
    assume ok: "hm_ok (x # failed)"
    then have ok': "hm_ok failed" by (simp add: hm_ok_def)
    show "hm_get failed' q = (case hm_get (x # failed) q of None \<Rightarrow> None
     | Some f \<Rightarrow> if (\<exists>ban. fp_ban f = Some ban \<and> ban_cooldown conf \<le> now - ban) then None
         else Some (if peer_fail_threshold conf \<le> fp_count f then f\<lparr>fp_ban := Some now\<rparr> else f))"
    proof (cases "q = p")
      case True
      then show ?thesis using n ok res x e by (auto simp: hm_get_def)
    next
      case False
      then have "hm_get (x # failed) q = hm_get failed q" "hm_get failed' q = hm_get failed1 q" using res x by (auto simp: hm_get_def)
      then show ?thesis using IH ok' by simp
    qed
  qed (use IH res e x in \<open>auto simp: hm_ok_def\<close>)
qed simp

lemma filter_map_ok: "hm_ok m \<Longrightarrow> hm_ok (filter P (map (\<lambda>(k, v). (k, f v)) m))"
proof (induction m)
  case (Cons x m)
  have "fst ` set (filter P (map (\<lambda>(k, v). (k, f v)) m)) \<subseteq> fst ` set m" by force
  then show ?case using Cons by (cases x) (auto simp: hm_ok_def)
qed simp

lemma retain_channels:
  "hm_msum pending_channels pending =
     mset (map kad_reply_channel (concat (map (\<lambda>(p, ps). map (\<lambda>pp. AddressesReply (pp_out pp) (Inl PeerTimedOut)) (filter (is_timed_out conf now) ps)) pending)))
   + hm_msum pending_channels (filter (\<lambda>(p, ps). ps \<noteq> []) (map (\<lambda>(p, ps). (p, filter (\<lambda>pp. \<not> is_timed_out conf now pp) ps)) pending))"
proof (induction pending)
  case (Cons x pending)
  obtain p ps where x: "x = (p, ps)" by (cases x)
  have split: "pending_channels ps = mset (map pp_out (filter (is_timed_out conf now) ps)) + pending_channels (filter (\<lambda>pp. \<not> is_timed_out conf now pp) ps)"
    by (induction ps) (auto simp: pending_channels_def)
  have rc: "map kad_reply_channel (map (\<lambda>pp. AddressesReply (pp_out pp) (Inl PeerTimedOut)) es) = map pp_out es" for es by simp
  have h1: "hm_msum pending_channels (x # pending) = pending_channels ps + hm_msum pending_channels pending" using x by (simp add: hm_msum_def)
  have h2: "hm_msum pending_channels (filter (\<lambda>(p, ps). ps \<noteq> []) (map (\<lambda>(p, ps). (p, filter (\<lambda>pp. \<not> is_timed_out conf now pp) ps)) (x # pending)))
      = pending_channels (filter (\<lambda>pp. \<not> is_timed_out conf now pp) ps)
        + hm_msum pending_channels (filter (\<lambda>(p, ps). ps \<noteq> []) (map (\<lambda>(p, ps). (p, filter (\<lambda>pp. \<not> is_timed_out conf now pp) ps)) pending))"
    using x by (cases "filter (\<lambda>pp. \<not> is_timed_out conf now pp) ps = []") (simp_all add: hm_msum_def pending_channels_def)
  show ?case unfolding h1 h2 Cons.IH split using x by (simp add: multiset.map_comp comp_def)
qed (simp add: hm_msum_def)

lemma check_timeouts_takes:
  assumes "kad_ok nxt kd"
  shows "takes nxt {#} kd (check_timeouts conf now kd)"
proof (cases "kd_pending kd = [] \<and> kd_failed kd = []")
  case True
  then show ?thesis using assms by (simp add: check_timeouts_def takes_refl)
next
  case False
  obtain pending failed w replies where r: "retain_pending conf now (kd_pending kd) (kd_failed kd) (min (query_timeout conf) (ban_cooldown conf)) = (pending, failed, w, replies)"
    by (cases "retain_pending conf now (kd_pending kd) (kd_failed kd) (min (query_timeout conf) (ban_cooldown conf))")
  obtain failed' w' where f: "retain_failed conf now failed w = (failed', w')" by (cases "retain_failed conf now failed w")
  note sr = retain_pending_spec [OF r] and sf = retain_failed_spec [OF f]
  have eq: "check_timeouts conf now kd = kd\<lparr>kd_pending := pending, kd_failed := failed', kd_timer := now + w', kd_replies := kd_replies kd @ replies\<rparr>"
    using r f by (simp only: check_timeouts_def False if_False prod.case)
  have "hm_ok pending" "hm_ok failed'" using sr sf assms filter_map_ok by (auto simp: kad_ok_def)
  moreover have "hm_msum pending_channels (kd_pending kd) = mset (map kad_reply_channel replies) + hm_msum pending_channels pending"
    using sr retain_channels [of "kd_pending kd" conf now] by metis
  ultimately show ?thesis using assms unfolding eq by (auto simp: kad_simps)
qed

section \<open>The behaviour as a system\<close>

text \<open>
  Commands come in at any time.  A poll is given the answers of the libp2p behaviour, whose counter of
  queries never goes back.
\<close>

record 'k kad_system =
  ks_kademlia :: "'k kademlia"
  ks_issued :: "nat list"

datatype ('k, 'a) kad_label =
    KadCommand kad_command
  | KadPoll "nat \<Rightarrow> nat" nat "('k \<times> 'a kad_answer) list"

definition numbers_advance :: "('k \<Rightarrow> nat) \<Rightarrow> nat \<Rightarrow> ('k \<times> 'a kad_answer) list \<Rightarrow> bool" where
  "numbers_advance nxt n answers \<longleftrightarrow> sorted (n # map (nxt \<circ> fst) answers)"

fun kad_next :: "'k kad_api \<Rightarrow> kad_config \<Rightarrow> ('k \<Rightarrow> nat) \<Rightarrow> ('k, 'a) kad_label \<Rightarrow> 'k kad_system \<Rightarrow> 'k kad_system option" where
  "kad_next api conf nxt (KadCommand cmd) s =
     Some \<lparr>ks_kademlia = snd (kad_api_execute True cmd (ks_kademlia s)), ks_issued = ks_issued s @ command_channels [cmd]\<rparr>"
| "kad_next api conf nxt (KadPoll clock now answers) s =
     (if numbers_advance nxt (nxt (kd_kad (kad_poll_commands api conf clock now (ks_kademlia s)))) answers
      then Some (s\<lparr>ks_kademlia := snd (kademlia_poll api conf clock now answers (ks_kademlia s))\<rparr>) else None)"

definition kad_step :: "'k kad_api \<Rightarrow> kad_config \<Rightarrow> ('k \<Rightarrow> nat) \<Rightarrow> 'k kad_system \<Rightarrow> ('k, 'a) kad_label \<Rightarrow> 'k kad_system \<Rightarrow> bool" where
  "kad_step api conf nxt s l t \<longleftrightarrow> kad_numbers_queries api nxt \<and> kad_next api conf nxt l s = Some t"

definition kad_start :: "kad_config \<Rightarrow> 'k kad_system \<Rightarrow> bool" where
  "kad_start conf s \<longleftrightarrow> (\<exists>now k. s = \<lparr>ks_kademlia = kademlia_new conf now k, ks_issued = []\<rparr>)"

definition kad_inv :: "('k \<Rightarrow> nat) \<Rightarrow> 'k kad_system \<Rightarrow> bool" where
  "kad_inv nxt s \<longleftrightarrow> kad_ok nxt (ks_kademlia s)
     \<and> kad_answered (ks_kademlia s) + kad_kept (ks_kademlia s) + mset (command_channels (kd_commands (ks_kademlia s))) = mset (ks_issued s)
     \<and> (kd_waker (ks_kademlia s) \<and> kd_commands (ks_kademlia s) \<noteq> [] \<longrightarrow> kd_woken (ks_kademlia s))"

lemma command_channels_append [simp]: "command_channels (xs @ ys) = command_channels xs @ command_channels ys"
  by (induction xs) (auto simp: command_channels_def map_filter_simps split: option.splits)

lemma kad_poll_commands_takes:
  assumes "kad_numbers_queries api nxt" "kad_ok nxt kd"
  shows "takes nxt (mset (command_channels (kd_commands kd))) (kd\<lparr>kd_commands := []\<rparr>) (kad_poll_commands api conf clock now kd)"
proof -
  let ?kd0 = "kd\<lparr>kd_waker := True, kd_woken := False, kd_commands := []\<rparr>"
  let ?kd1 = "execute_commands api clock 0 (kd_commands kd) ?kd0"
  let ?kd2 = "if kd_commands kd \<noteq> [] then ?kd1\<lparr>kd_woken := True\<rparr> else ?kd1"
  have "takes nxt (mset (command_channels (kd_commands kd))) ?kd0 ?kd1"
    by (rule execute_commands_takes [OF assms(1)]) (use assms(2) in \<open>simp add: kad_ok_def\<close>)
  then have 2: "takes nxt (mset (command_channels (kd_commands kd))) (kd\<lparr>kd_commands := []\<rparr>) ?kd2"
    by (cases "kd_commands kd = []") (simp_all add: kad_simps)
  then have 3: "takes nxt {#} ?kd2 (check_timeouts conf now ?kd2)" by (intro check_timeouts_takes) (simp add: takes_def)
  show ?thesis using takes_trans [OF 2 3] unfolding kad_poll_commands_def Let_def by (simp only: add_0_right)
qed

lemma inject_kad_event_number:
  assumes "kad_numbers_queries api nxt"
  shows "nxt (kd_kad (inject_kad_event api ev kd)) = nxt (kd_kad kd)"
proof (cases ev)
  case (ClosestPeersProgressed q r)
  have a: "nxt (kd_kad (snd (addresses_of_peer api p kd'))) = nxt (kd_kad kd')" for p kd'
    using addresses_of_peer_spec [OF assms, of p kd'] by (cases "addresses_of_peer api p kd'") fastforce
  show ?thesis unfolding ClosestPeersProgressed using a
    by (auto simp: closest_finished_def peer_discovered_def kad_send_def Let_def split_beta split: option.split pending_query.split)
qed (auto simp: bootstrap_finished_def peer_discovered_def kad_send_def Let_def split: option.split pending_query.split)

lemma poll_kad_takes:
  assumes "kad_numbers_queries api nxt"
  shows "kad_ok nxt kd \<Longrightarrow> numbers_advance nxt (nxt (kd_kad kd)) answers \<Longrightarrow> takes nxt {#} kd (snd (poll_kad api answers kd))"
proof (induction answers arbitrary: kd)
  case (Cons x answers)
  obtain k a where x: "x = (k, a)" by (cases x)
  let ?kd1 = "kd\<lparr>kd_kad := k\<rparr>"
  have le: "nxt (kd_kad kd) \<le> nxt k" and adv: "numbers_advance nxt (nxt k) answers"
    using Cons.prems(2) x by (auto simp: numbers_advance_def)
  have t1: "takes nxt {#} kd ?kd1" using Cons.prems(1) le by (auto simp: kad_simps intro: less_le_trans)
  then have ok1: "kad_ok nxt ?kd1" by (simp add: takes_def)
  show ?case
  proof (cases a)
    case (KadGenerated ev)
    let ?kd2 = "inject_kad_event api ev ?kd1"
    have t2: "takes nxt {#} ?kd1 ?kd2" using inject_kad_event_takes [OF assms ok1] .
    have same: "nxt (kd_kad ?kd2) = nxt k" using inject_kad_event_number [OF assms, of ev ?kd1] by simp
    have "takes nxt {#} ?kd2 (snd (poll_kad api answers ?kd2))"
      by (rule Cons.IH) (use t2 adv same in \<open>simp_all add: takes_def\<close>)
    then show ?thesis using takes_trans [OF takes_trans [OF t1 t2]] KadGenerated x by fastforce
  next
    case (KadToSwarm y)
    then show ?thesis using t1 x by simp
  next
    case KadUnexpected
    have "takes nxt {#} ?kd1 (snd (poll_kad api answers ?kd1))" using Cons.IH [OF ok1] adv by simp
    then show ?thesis using takes_trans [OF t1] KadUnexpected x by fastforce
  qed
qed (simp add: takes_refl)

interpretation discovery: invariant_system "kad_start conf" "kad_step api conf nxt :: _ \<Rightarrow> ('k, 'a) kad_label \<Rightarrow> _ \<Rightarrow> _" "kad_inv nxt"
  for conf :: kad_config and api :: "'k kad_api" and nxt :: "'k \<Rightarrow> nat"
proof
  show "kad_inv nxt s" if "kad_start conf s" for s :: "'k kad_system"
    using that by (auto simp: kad_start_def kad_inv_def kademlia_new_def kad_simps command_channels_def map_filter_simps)
  show "kad_inv nxt t" if inv: "kad_inv nxt s" and st: "kad_step api conf nxt s l t" for s t :: "'k kad_system" and l :: "('k, 'a) kad_label"
  proof (cases l)
    case (KadCommand cmd)
    have t: "ks_kademlia t = kad_wake ((ks_kademlia s)\<lparr>kd_commands := kd_commands (ks_kademlia s) @ [cmd]\<rparr>)" "ks_issued t = ks_issued s @ command_channels [cmd]"
      using st KadCommand by (auto simp: kad_step_def kad_api_execute_def)
    have "kad_ok nxt (ks_kademlia t)" "kad_answered (ks_kademlia t) = kad_answered (ks_kademlia s)" "kad_kept (ks_kademlia t) = kad_kept (ks_kademlia s)"
      "kd_commands (ks_kademlia t) = kd_commands (ks_kademlia s) @ [cmd]" "kd_waker (ks_kademlia t) \<longrightarrow> kd_woken (ks_kademlia t)"
      using inv unfolding t by (simp_all add: kad_inv_def kad_simps)
    then show ?thesis using inv t(2) by (simp add: kad_inv_def) (metis add.assoc)
  next
    case (KadPoll clock now answers)
    let ?kd = "ks_kademlia s" and ?kd1 = "kad_poll_commands api conf clock now (ks_kademlia s)"
    have law: "kad_numbers_queries api nxt" and adv: "numbers_advance nxt (nxt (kd_kad ?kd1)) answers"
      and t: "ks_kademlia t = snd (kademlia_poll api conf clock now answers ?kd)" "ks_issued t = ks_issued s"
      using st KadPoll by (auto simp: kad_step_def split: if_splits)
    have t1: "takes nxt (mset (command_channels (kd_commands ?kd))) (?kd\<lparr>kd_commands := []\<rparr>) ?kd1"
      using kad_poll_commands_takes [OF law] inv by (simp add: kad_inv_def)
    then have "takes nxt {#} ?kd1 (ks_kademlia t)" unfolding t(1) kademlia_poll_def using poll_kad_takes [OF law _ adv] by (simp add: takes_def)
    from takes_trans [OF t1 this] show ?thesis using inv t(2) by (auto simp: kad_inv_def kad_simps command_channels_def map_filter_simps)
  qed
qed

section \<open>Waiting requests and bans\<close>

definition pending_of :: "peer_id \<Rightarrow> 'k kademlia \<Rightarrow> pending_peer list" where
  "pending_of p kd = (case hm_get (kd_pending kd) p of None \<Rightarrow> [] | Some ps \<Rightarrow> ps)"

lemma addresses_of_peer_same: "addresses_of_peer api p kd = (addrs, kd') \<Longrightarrow> \<exists>k. kd' = kd\<lparr>kd_kad := k\<rparr>"
  by (auto simp: addresses_of_peer_def split: prod.splits)

lemma kad_execute_keeps:
  "kd_failed (kad_execute api now cmd kd) = kd_failed kd \<and> set (pending_of p kd) \<subseteq> set (pending_of p (kad_execute api now cmd kd))
   \<and> (\<exists>rs. kd_replies (kad_execute api now cmd kd) = kd_replies kd @ rs)"
proof (cases cmd)
  case (KadDiscoverPeer q out)
  obtain addrs kd1 where a: "addresses_of_peer api q kd = (addrs, kd1)" by (cases "addresses_of_peer api q kd")
  obtain k where k: "kd1 = kd\<lparr>kd_kad := k\<rparr>" using addresses_of_peer_same [OF a] by blast
  show ?thesis unfolding KadDiscoverPeer using a k
    by (auto simp: discover_peer_def pending_of_def kad_send_def kad_wake_def Let_def is_banned_def split: prod.splits option.splits if_splits)
qed (auto simp: add_contact_def bootstrap_def local_lookup_def neighborhood_def pending_of_def kad_send_def kad_wake_def
      split: prod.splits option.splits dest!: addresses_of_peer_same)

lemma execute_commands_keeps:
  "kd_failed (execute_commands api clock i cmds kd) = kd_failed kd \<and> set (pending_of p kd) \<subseteq> set (pending_of p (execute_commands api clock i cmds kd))"
proof (induction cmds arbitrary: i kd)
  case (Cons cmd cmds)
  show ?case using Cons.IH [of "i + 1" "kad_execute api (clock i) cmd kd"] kad_execute_keeps [of api "clock i" cmd kd p] by (simp add: subset_trans) blast
qed simp

lemma hm_get_retained:
  "hm_ok m \<Longrightarrow> hm_get (filter (\<lambda>(p, ps). ps \<noteq> []) (map (\<lambda>(p, ps). (p, f ps)) m)) p =
     (case hm_get m p of None \<Rightarrow> None | Some ps \<Rightarrow> if f ps = [] then None else Some (f ps))"
proof (induction m)
  case (Cons x m)
  obtain q ps where x: "x = (q, ps)" by (cases x)
  have "hm_get m q = None" using Cons.prems x by (simp add: hm_ok_def hm_get_def map_of_eq_None_iff)
  then show ?case using Cons x by (auto simp: hm_ok_def hm_get_def)
qed simp

lemma check_timeouts_spec:
  assumes "hm_ok (kd_pending kd)" "hm_ok (kd_failed kd)"
    and kd'_def: "kd' = check_timeouts conf now kd"
  shows "pending_of p kd' = filter (\<lambda>pp. \<not> is_timed_out conf now pp) (pending_of p kd)
    \<and> (\<forall>pp \<in> set (pending_of p kd). is_timed_out conf now pp \<longrightarrow> AddressesReply (pp_out pp) (Inl PeerTimedOut) \<in> set (kd_replies kd'))
    \<and> (\<forall>pp \<in> set (pending_of p kd'). kd_timer kd' \<le> now + (query_timeout conf * 2 - (now - pp_created pp)))
    \<and> (\<forall>f. hm_get (kd_failed kd) p = Some f \<longrightarrow> (\<exists>f'. fp_ban f' = fp_ban f \<and> fp_count f \<le> fp_count f' \<and> hm_get (kd_failed kd') p =
        (if \<exists>ban. fp_ban f = Some ban \<and> ban_cooldown conf \<le> now - ban then None
         else Some (if peer_fail_threshold conf \<le> fp_count f' then f'\<lparr>fp_ban := Some now\<rparr> else f'))))"
proof (cases "kd_pending kd = [] \<and> kd_failed kd = []")
  case True
  then show ?thesis by (simp add: kd'_def check_timeouts_def pending_of_def)
next
  case False
  obtain pending failed w replies where r: "retain_pending conf now (kd_pending kd) (kd_failed kd) (min (query_timeout conf) (ban_cooldown conf)) = (pending, failed, w, replies)"
    by (cases "retain_pending conf now (kd_pending kd) (kd_failed kd) (min (query_timeout conf) (ban_cooldown conf))")
  obtain failed' w' where f: "retain_failed conf now failed w = (failed', w')" by (cases "retain_failed conf now failed w")
  note sr = retain_pending_spec [OF r] and sf = retain_failed_spec [OF f]
  have eq: "kd' = kd\<lparr>kd_pending := pending, kd_failed := failed', kd_timer := now + w', kd_replies := kd_replies kd @ replies\<rparr>"
    unfolding kd'_def using r f by (simp only: check_timeouts_def False if_False prod.case)
  have pend: "pending_of p kd' = filter (\<lambda>pp. \<not> is_timed_out conf now pp) (pending_of p kd)"
    using conjunct1 [OF sr] hm_get_retained [OF assms(1), of "filter (\<lambda>pp. \<not> is_timed_out conf now pp)" p] eq
    by (auto simp: pending_of_def split: option.splits)
  have replies: "replies = concat (map (\<lambda>(p, ps). map (\<lambda>pp. AddressesReply (pp_out pp) (Inl PeerTimedOut)) (filter (is_timed_out conf now) ps)) (kd_pending kd))"
    and timer: "\<forall>(p, ps) \<in> set pending. \<forall>pp \<in> set ps. w \<le> query_timeout conf * 2 - (now - pp_created pp)" and ok: "hm_ok failed"
    and keep: "\<forall>p f. hm_get (kd_failed kd) p = Some f \<longrightarrow> (\<exists>f'. hm_get failed p = Some f' \<and> fp_ban f' = fp_ban f \<and> fp_count f \<le> fp_count f')"
    using sr assms(2) by blast+
  show ?thesis
  proof (intro conjI ballI impI allI)
    fix pp
    assume pp: "pp \<in> set (pending_of p kd)" "is_timed_out conf now pp"
    then obtain ps where "hm_get (kd_pending kd) p = Some ps" "pp \<in> set ps" by (cases "hm_get (kd_pending kd) p") (auto simp: pending_of_def)
    then have "(p, ps) \<in> set (kd_pending kd)" "pp \<in> set ps" using hm_get_in_set [OF assms(1)] by blast+
    then show "AddressesReply (pp_out pp) (Inl PeerTimedOut) \<in> set (kd_replies kd')" using replies pp(2) eq by force
  next
    fix pp
    assume "pp \<in> set (pending_of p kd')"
    then obtain ps where "hm_get pending p = Some ps" "pp \<in> set ps" using eq by (cases "hm_get pending p") (auto simp: pending_of_def)
    then have "(p, ps) \<in> set pending" "pp \<in> set ps" by (auto simp: hm_get_def dest: map_of_SomeD)
    then have "w \<le> query_timeout conf * 2 - (now - pp_created pp)" using timer by blast
    then show "kd_timer kd' \<le> now + (query_timeout conf * 2 - (now - pp_created pp))" using sf eq by simp
  next
    fix f0
    assume "hm_get (kd_failed kd) p = Some f0"
    then obtain f' where "hm_get failed p = Some f'" "fp_ban f' = fp_ban f0" "fp_count f0 \<le> fp_count f'" using keep by blast
    then show "\<exists>f'. fp_ban f' = fp_ban f0 \<and> fp_count f0 \<le> fp_count f' \<and> hm_get (kd_failed kd') p =
        (if \<exists>ban. fp_ban f0 = Some ban \<and> ban_cooldown conf \<le> now - ban then None
         else Some (if peer_fail_threshold conf \<le> fp_count f' then f'\<lparr>fp_ban := Some now\<rparr> else f'))"
      using sf ok eq by (intro exI [of _ f']) simp
  qed (rule pend)
qed

text \<open>A banned peer: its ban, and that it has failed often enough to be banned.\<close>

definition banned_since :: "kad_config \<Rightarrow> peer_id \<Rightarrow> nat \<Rightarrow> 'k kademlia \<Rightarrow> bool" where
  "banned_since conf p t kd \<longleftrightarrow> (\<exists>f. hm_get (kd_failed kd) p = Some f \<and> fp_ban f = Some t \<and> peer_fail_threshold conf \<le> fp_count f)"

text \<open>The libp2p behaviour knows no address of the peer, and reports none.\<close>

definition unknown_peer :: "'k kad_api \<Rightarrow> peer_id \<Rightarrow> bool" where
  "unknown_peer api p \<longleftrightarrow> (\<forall>k. fst (kad_pending_outbound api p k) = Some [] \<or> fst (kad_pending_outbound api p k) = None)"

fun reports_peer :: "peer_id \<Rightarrow> 'k \<times> 'a kad_answer \<Rightarrow> bool" where
  "reports_peer p (_, KadGenerated (RoutingUpdated q _)) = (q = p)"
| "reports_peer p (_, KadGenerated (RoutablePeer q _)) = (q = p)"
| "reports_peer p _ = False"

lemma poll_commands_split:
  assumes "kad_numbers_queries api nxt" "kad_ok nxt kd"
  obtains kd1 where "kad_poll_commands api conf clock now kd = check_timeouts conf now kd1" "hm_ok (kd_pending kd1)" "hm_ok (kd_failed kd1)"
    "kd_failed kd1 = kd_failed kd" "\<And>p. set (pending_of p kd) \<subseteq> set (pending_of p kd1)"
proof -
  let ?kd0 = "kd\<lparr>kd_waker := True, kd_woken := False, kd_commands := []\<rparr>"
  let ?kd1 = "execute_commands api clock 0 (kd_commands kd) ?kd0"
  define kd1 where "kd1 = (if kd_commands kd \<noteq> [] then ?kd1\<lparr>kd_woken := True\<rparr> else ?kd1)"
  have "takes nxt (mset (command_channels (kd_commands kd))) ?kd0 ?kd1"
    by (rule execute_commands_takes [OF assms(1)]) (use assms(2) in \<open>simp add: kad_ok_def\<close>)
  then have ok: "hm_ok (kd_pending ?kd1)" "hm_ok (kd_failed ?kd1)" by (simp_all add: takes_def kad_ok_def)
  have pend: "pending_of p kd1 = pending_of p ?kd1" "pending_of p ?kd0 = pending_of p kd" for p by (simp_all add: kd1_def pending_of_def)
  have "kad_poll_commands api conf clock now kd = check_timeouts conf now kd1" by (simp only: kad_poll_commands_def Let_def kd1_def)
  moreover have "hm_ok (kd_pending kd1)" "hm_ok (kd_failed kd1)" using ok by (cases "kd_commands kd = []"; simp add: kd1_def)+
  moreover have "kd_failed kd1 = kd_failed kd" using execute_commands_keeps [of api clock 0 "kd_commands kd" ?kd0] by (simp add: kd1_def)
  moreover have "set (pending_of p kd) \<subseteq> set (pending_of p kd1)" for p
    using execute_commands_keeps [of api clock 0 "kd_commands kd" ?kd0 p] pend by simp
  ultimately show ?thesis using that by blast
qed

lemma poll_commands_ban:
  assumes "kad_numbers_queries api nxt" "kad_ok nxt kd" "banned_since conf p t kd"
  shows "if now - t < ban_cooldown conf then banned_since conf p now (kad_poll_commands api conf clock now kd)
    else \<not> is_banned p (kad_poll_commands api conf clock now kd)"
proof -
  obtain kd1 where 1: "kad_poll_commands api conf clock now kd = check_timeouts conf now kd1" "hm_ok (kd_pending kd1)" "hm_ok (kd_failed kd1)"
    "kd_failed kd1 = kd_failed kd" using poll_commands_split [OF assms(1,2)] by blast
  obtain f where f: "hm_get (kd_failed kd1) p = Some f" "fp_ban f = Some t" "peer_fail_threshold conf \<le> fp_count f"
    using assms(3) 1(4) by (auto simp: banned_since_def)
  obtain f' where f': "fp_ban f' = fp_ban f" "fp_count f \<le> fp_count f'" "hm_get (kd_failed (check_timeouts conf now kd1)) p =
        (if \<exists>ban. fp_ban f = Some ban \<and> ban_cooldown conf \<le> now - ban then None
         else Some (if peer_fail_threshold conf \<le> fp_count f' then f'\<lparr>fp_ban := Some now\<rparr> else f'))"
    using check_timeouts_spec [OF 1(2,3) refl, of p conf now] f(1) by blast
  show ?thesis using f f' 1(1) by (auto simp: banned_since_def is_banned_def)
qed

lemma peer_discovered_other: "q \<noteq> p \<Longrightarrow> hm_get (kd_failed (peer_discovered q addrs kd)) p = hm_get (kd_failed kd) p"
  by (auto simp: peer_discovered_def Let_def split: option.split)

lemma unknown_peer_addresses: "unknown_peer api p \<Longrightarrow> fst (addresses_of_peer api p kd) = []"
proof -
  assume "unknown_peer api p"
  then have "fst (kad_pending_outbound api p (kd_kad kd)) = Some [] \<or> fst (kad_pending_outbound api p (kd_kad kd)) = None" by (simp add: unknown_peer_def)
  then show ?thesis by (auto simp: addresses_of_peer_def split: prod.splits)
qed

lemma inject_other:
  assumes "unknown_peer api p" "\<not> reports_peer p (k, KadGenerated ev)"
  shows "hm_get (kd_failed (inject_kad_event api ev kd)) p = hm_get (kd_failed kd) p"
proof (cases ev)
  case (ClosestPeersProgressed q r)
  show ?thesis
  proof (cases "hm_get (kd_queries kd) q")
    case (Some pq)
    show ?thesis
    proof (cases pq)
      case (QueryPeer p')
      obtain addrs kd2 where a: "addresses_of_peer api p' (kd\<lparr>kd_queries := hm_remove q (kd_queries kd)\<rparr>) = (addrs, kd2)"
        by (cases "addresses_of_peer api p' (kd\<lparr>kd_queries := hm_remove q (kd_queries kd)\<rparr>)")
      have "p' = p \<longrightarrow> addrs = []" using unknown_peer_addresses [OF assms(1), of "kd\<lparr>kd_queries := hm_remove q (kd_queries kd)\<rparr>"] a by auto
      then show ?thesis using Some QueryPeer a ClosestPeersProgressed addresses_of_peer_same [OF a] peer_discovered_other [of p' p addrs kd2]
        by (auto simp: closest_finished_def Let_def)
    qed (use Some ClosestPeersProgressed in \<open>auto simp: closest_finished_def Let_def kad_send_def\<close>)
  qed (use ClosestPeersProgressed in \<open>simp add: closest_finished_def\<close>)
qed (use assms(2) in \<open>auto simp: bootstrap_finished_def Let_def kad_send_def peer_discovered_other split: option.split pending_query.split\<close>)

lemma poll_kad_other:
  fixes answers :: "('k \<times> 'a kad_answer) list"
  assumes "unknown_peer api p"
  shows "\<not> list_ex (reports_peer p) answers \<Longrightarrow> hm_get (kd_failed (snd (poll_kad api answers kd))) p = hm_get (kd_failed kd) p"
proof (induction answers arbitrary: kd)
  case (Cons x answers)
  obtain k a where x: "x = (k, a)" by (cases x)
  show ?case
  proof (cases a)
    case (KadGenerated ev)
    have "\<not> reports_peer p (k, KadGenerated ev :: 'a kad_answer)" using Cons.prems x KadGenerated by simp
    then show ?thesis using Cons x KadGenerated inject_other [OF assms, of k ev "kd\<lparr>kd_kad := k\<rparr>"] by simp
  qed (use Cons x in simp_all)
qed simp

text \<open>The polls of a run, each less than \<open>cooldown\<close> after the one before.\<close>

fun polled_often :: "nat \<Rightarrow> nat \<Rightarrow> ('k, 'a) kad_label list \<Rightarrow> bool" where
  "polled_often cooldown t [] = True"
| "polled_often cooldown t (KadCommand cmd # ls) = polled_often cooldown t ls"
| "polled_often cooldown t (KadPoll clock now answers # ls) = (now - t < cooldown \<and> polled_often cooldown now ls)"

fun last_poll :: "nat \<Rightarrow> ('k, 'a) kad_label list \<Rightarrow> nat" where
  "last_poll t [] = t"
| "last_poll t (KadCommand cmd # ls) = last_poll t ls"
| "last_poll t (KadPoll clock now answers # ls) = last_poll now ls"

fun quiet_about :: "peer_id \<Rightarrow> ('k, 'a) kad_label \<Rightarrow> bool" where
  "quiet_about p (KadCommand cmd) = True"
| "quiet_about p (KadPoll clock now answers) = (\<not> list_ex (reports_peer p) answers)"

lemma ban_step:
  assumes "kad_inv nxt s" "kad_step api conf nxt s l u" "unknown_peer api p" "quiet_about p l" "banned_since conf p t (ks_kademlia s)"
    "polled_often (ban_cooldown conf) t [l]"
  shows "banned_since conf p (last_poll t [l]) (ks_kademlia u)"
proof (cases l)
  case (KadCommand cmd)
  then show ?thesis using assms(2,5) by (auto simp: kad_step_def kad_api_execute_def banned_since_def kad_wake_def)
next
  case (KadPoll clock now answers)
  let ?kd1 = "kad_poll_commands api conf clock now (ks_kademlia s)"
  have law: "kad_numbers_queries api nxt" and u: "ks_kademlia u = snd (poll_kad api answers ?kd1)"
    using assms(2) KadPoll by (auto simp: kad_step_def kademlia_poll_def split: if_splits)
  have ok: "kad_ok nxt (ks_kademlia s)" using assms(1) by (simp add: kad_inv_def)
  have "banned_since conf p now ?kd1" using poll_commands_ban [OF law ok assms(5), of now clock] assms(6) KadPoll by simp
  then show ?thesis using poll_kad_other [OF assms(3), of answers ?kd1] assms(4) u KadPoll by (simp add: banned_since_def)
qed

lemma ban_trace:
  assumes "trace (kad_step api conf nxt) s ls u" "unknown_peer api p"
  shows "kad_inv nxt s \<Longrightarrow> list_all (quiet_about p) ls \<Longrightarrow> banned_since conf p t (ks_kademlia s) \<Longrightarrow> polled_often (ban_cooldown conf) t ls
    \<Longrightarrow> kad_inv nxt u \<and> banned_since conf p (last_poll t ls) (ks_kademlia u)"
  using assms(1)
proof (induction arbitrary: t rule: trace.induct)
  case (trace_Cons s l s1 ls u)
  have po: "polled_often (ban_cooldown conf) t [l]" "polled_often (ban_cooldown conf) (last_poll t [l]) ls" "last_poll t (l # ls) = last_poll (last_poll t [l]) ls"
    using trace_Cons.prems(4) by (cases l; simp)+
  have "banned_since conf p (last_poll t [l]) (ks_kademlia s1)"
    using ban_step [OF trace_Cons.prems(1) trace_Cons.hyps(1) assms(2) _ trace_Cons.prems(3) po(1)] trace_Cons.prems(2) by simp
  then show ?case using trace_Cons.IH [OF discovery.step_inv [OF trace_Cons.prems(1) trace_Cons.hyps(1)]] trace_Cons.prems(2) po by simp
qed simp

section \<open>Properties\<close>

text \<open>
  C21: nobody who asks is forgotten and nobody is answered twice.  Every one-shot channel that came with
  a command is at any time answered, or in a command that waits, or kept for a query or for the
  discovery of a peer, and it is in one place only.  Commands that wait have woken the task.  The libp2p
  behaviour is assumed to number its queries.
\<close>

theorem discovery_answers_once:
  assumes "reachable (kad_start conf) (kad_step api conf nxt) s"
  shows "kad_answered (ks_kademlia s) + kad_kept (ks_kademlia s) + mset (command_channels (kd_commands (ks_kademlia s))) = mset (ks_issued s)
    \<and> (distinct (ks_issued s) \<longrightarrow> distinct (map kad_reply_channel (kd_replies (ks_kademlia s))))
    \<and> (kd_waker (ks_kademlia s) \<and> kd_commands (ks_kademlia s) \<noteq> [] \<longrightarrow> kd_woken (ks_kademlia s))"
proof -
  have inv: "kad_inv nxt s" using discovery.reachable_inv assms .
  then have m: "kad_answered (ks_kademlia s) + kad_kept (ks_kademlia s) + mset (command_channels (kd_commands (ks_kademlia s))) = mset (ks_issued s)"
    by (simp add: kad_inv_def)
  have "distinct (map kad_reply_channel (kd_replies (ks_kademlia s)))" if d: "distinct (ks_issued s)"
  proof -
    have "mset (map kad_reply_channel (kd_replies (ks_kademlia s))) \<subseteq># mset (ks_issued s)"
      unfolding m [symmetric] kad_answered_def by (simp add: add.assoc)
    then show ?thesis using d by (rule distinct_submultiset)
  qed
  then show ?thesis using m inv by (simp add: kad_inv_def)
qed

text \<open>
  C23: a request to discover a peer does not wait for ever.  A request that is older than twice the query
  timeout is answered by the next poll, if not before; every request that still waits after a poll is
  younger, and the timer is set to wake the task when the request gets that old, or earlier.
\<close>

theorem discovery_times_out:
  assumes "reachable (kad_start conf) (kad_step api conf nxt) s" "kad_numbers_queries api nxt"
    and "kd' = kad_poll_commands api conf clock now (ks_kademlia s)"
  shows "(\<forall>pp \<in> set (pending_of p (ks_kademlia s)). query_timeout conf * 2 \<le> now - pp_created pp
           \<longrightarrow> AddressesReply (pp_out pp) (Inl PeerTimedOut) \<in> set (kd_replies kd'))
    \<and> (\<forall>pp \<in> set (pending_of p kd'). now - pp_created pp < query_timeout conf * 2
           \<and> kd_timer kd' \<le> max now (pp_created pp) + query_timeout conf * 2 - (now - pp_created pp))"
proof -
  have "kad_ok nxt (ks_kademlia s)" using discovery.reachable_inv [OF assms(1)] by (simp add: kad_inv_def)
  then obtain kd1 where 1: "kd' = check_timeouts conf now kd1" "hm_ok (kd_pending kd1)" "hm_ok (kd_failed kd1)"
    "\<And>p. set (pending_of p (ks_kademlia s)) \<subseteq> set (pending_of p kd1)"
    using poll_commands_split [OF assms(2)] assms(3) by metis
  note t = check_timeouts_spec [OF 1(2,3,1), of p]
  show ?thesis using t 1(4) by (fastforce simp: is_timed_out_def)
qed


section \<open>Examples\<close>

text \<open>
  A libp2p behaviour that knows nobody and counts its queries, with the configuration of the tests of
  \<^verbatim>\<open>behaviour.rs\<close>.  A peer is asked for, the request times out, the peer is banned, and it is still banned
  after a time longer than the cooldown.
\<close>

definition demo_kad :: "nat kad_api" where
  "demo_kad = \<lparr>kad_add_address = (\<lambda>p addr k. k), kad_bootstrap = (\<lambda>k. (None, k)), kad_pending_outbound = (\<lambda>p k. (Some [], k)),
     kad_get_closest_peers = (\<lambda>key k. (k, k + 1)), kad_get_closest_local_peers = (\<lambda>key k. ([], k))\<rparr>"

definition demo_conf :: kad_config where
  "demo_conf = \<lparr>query_timeout = 100, peer_fail_threshold = 1, ban_cooldown = 1000\<rparr>"

definition demo_ks :: "(nat, pending_query) hash_map \<Rightarrow> (peer_id, pending_peer list) hash_map \<Rightarrow> (peer_id, failed_peer) hash_map \<Rightarrow> bool \<Rightarrow> nat
    \<Rightarrow> kad_reply list \<Rightarrow> nat kad_system" where
  "demo_ks queries pending failed woken timer replies =
     \<lparr>ks_kademlia = \<lparr>kd_kad = 1, kd_commands = [], kd_queries = queries, kd_pending = pending, kd_failed = failed, kd_waker = True, kd_woken = woken,
        kd_timer = timer, kd_replies = replies\<rparr>, ks_issued = [7]\<rparr>"

definition demo_ks_asked :: "nat kad_system" where
  "demo_ks_asked = demo_ks [(0, QueryPeer ''x'')] [(''x'', [\<lparr>pp_out = 7, pp_created = 10\<rparr>])] [] True 110 []"

definition demo_ks_banned :: "nat \<Rightarrow> nat kad_system" where
  "demo_ks_banned t = demo_ks [(0, QueryPeer ''x'')] [] [(''x'', \<lparr>fp_ban = Some t, fp_count = 1\<rparr>)] False (t + 100) [AddressesReply 7 (Inl PeerTimedOut)]"

abbreviation demo_kad_step :: "nat kad_system \<Rightarrow> (nat, unit) kad_label \<Rightarrow> nat kad_system \<Rightarrow> bool" where
  "demo_kad_step \<equiv> kad_step demo_kad demo_conf (\<lambda>k. k)"

lemma demo_kad_numbers: "kad_numbers_queries demo_kad (\<lambda>k. k)"
  by (simp add: kad_numbers_queries_def demo_kad_def)

lemma demo_kad_asked: "reachable (kad_start demo_conf) demo_kad_step demo_ks_asked"
proof -
  let ?s0 = "\<lparr>ks_kademlia = kademlia_new demo_conf 0 0, ks_issued = []\<rparr> :: nat kad_system"
  let ?s1 = "\<lparr>ks_kademlia = (kademlia_new demo_conf 0 0)\<lparr>kd_commands := [KadDiscoverPeer ''x'' 7]\<rparr>, ks_issued = [7]\<rparr> :: nat kad_system"
  have 0: "kad_start demo_conf ?s0" by (auto simp: kad_start_def)
  have 1: "demo_kad_step ?s0 (KadCommand (KadDiscoverPeer ''x'' 7)) ?s1"
    using demo_kad_numbers by (simp add: kad_step_def kad_api_execute_def kademlia_new_def kad_wake_def command_channels_def map_filter_simps)
  have 2: "demo_kad_step ?s1 (KadPoll (\<lambda>_. 10) 10 []) demo_ks_asked"
    using demo_kad_numbers
    by (simp add: kad_step_def kademlia_new_def kad_wake_def demo_ks_asked_def demo_ks_def numbers_advance_def kademlia_poll_def kad_poll_commands_def
        discover_peer_def addresses_of_peer_def is_banned_def demo_kad_def check_timeouts_def has_timed_out_def demo_conf_def hm_insert_def Let_def)
  show ?thesis by (rule reach_step, rule reach_step, rule reach_start, rule 0, rule 1, rule 2)
qed

lemma demo_kad_banned: "reachable (kad_start demo_conf) demo_kad_step (demo_ks_banned 300)"
proof -
  have "demo_kad_step demo_ks_asked (KadPoll (\<lambda>_. 300) 300 []) (demo_ks_banned 300)"
    using demo_kad_numbers
    by (simp add: kad_step_def demo_ks_asked_def demo_ks_banned_def demo_ks_def numbers_advance_def kademlia_poll_def kad_poll_commands_def
        check_timeouts_def has_timed_out_def demo_conf_def hm_insert_def Let_def failed_peer_increment_def failed_peer_default_def)
  then show ?thesis using demo_kad_asked by (rule reach_step [rotated])
qed

lemma demo_kad_poll:
  "now - t < 1000 \<Longrightarrow> demo_kad_step (demo_ks_banned t) (KadPoll (\<lambda>_. now) now []) ((demo_ks_banned now)\<lparr>ks_kademlia := (ks_kademlia (demo_ks_banned now))\<lparr>kd_timer := now + min (1000 - (now - t)) 100\<rparr>\<rparr>)"
  using demo_kad_numbers
  by (simp add: kad_step_def demo_ks_banned_def demo_ks_def numbers_advance_def kademlia_poll_def kad_poll_commands_def
        check_timeouts_def has_timed_out_def demo_conf_def Let_def)

theorem discovery_answers_once_witness:
  "kad_answered (ks_kademlia demo_ks_asked) = {#} \<and> kad_kept (ks_kademlia demo_ks_asked) = {#7#}
   \<and> map kad_reply_channel (kd_replies (ks_kademlia (demo_ks_banned 300))) = [7] \<and> distinct (ks_issued (demo_ks_banned 300))"
  using discovery_answers_once [OF demo_kad_asked] discovery_answers_once [OF demo_kad_banned]
  by (simp add: demo_ks_asked_def demo_ks_banned_def demo_ks_def kad_answered_def kad_kept_def hm_msum_def pending_channels_def)

theorem discovery_times_out_witness:
  "AddressesReply 7 (Inl PeerTimedOut) \<in> set (kd_replies (kad_poll_commands demo_kad demo_conf (\<lambda>_. 210) 210 (ks_kademlia demo_ks_asked)))"
  using discovery_times_out [OF demo_kad_asked demo_kad_numbers refl, of "''x''" 210 "\<lambda>_. 210"]
  by (simp add: demo_ks_asked_def demo_ks_def pending_of_def hm_get_def demo_conf_def)

end
