(* ===== verification/Particle_Functions.thy ===== *)
theory Particle_Functions
  imports Particle_Protocol Deal_Id
begin

text \<open>
  The calls a particle makes to its host: the arguments (\<^verbatim>\<open>crates/particle-args/src\<close>), the outcomes and
  the parameters of \<^verbatim>\<open>particle-execution/src\<close>, and the set of running calls of one actor,
  \<^verbatim>\<open>aquamarine/src/particle_functions.rs\<close>.  JSON values are values of \<open>'j\<close>, host functions values of
  \<open>'f\<close>; what they answer is an argument.  Tracing spans and log output are left out.
\<close>

section \<open>Arguments\<close>

typedecl security_tetraplet

record 'j args =
  service_id :: string
  function_name :: string
  function_args :: "'j list"
  tetraplets :: "security_tetraplet list list"

record 'j call_request_params =
  crp_service_id :: string
  crp_function_name :: string
  crp_arguments :: "'j list"
  crp_tetraplets :: "security_tetraplet list list"

datatype 'j args_error =
    MissingField string
  | SerdeJson string string
  | InvalidFormat string string
  | NonUnaryOption string nat
  | DeserializeError string 'j string

definition args_deserialize :: "('j \<Rightarrow> 'v option) \<Rightarrow> string \<Rightarrow> string \<Rightarrow> 'j \<Rightarrow> 'j args_error + 'v" where
  "args_deserialize de expected field v =
     (case de v of Some x \<Rightarrow> Inr x | None \<Rightarrow> Inl (DeserializeError field v expected))"

text \<open>The iterator over the arguments is the list of those that are left.\<close>

fun args_next :: "('j \<Rightarrow> 'v option) \<Rightarrow> string \<Rightarrow> string \<Rightarrow> 'j list \<Rightarrow> ('j args_error + 'v) \<times> 'j list" where
  "args_next de expected field [] = (Inl (MissingField field), [])"
| "args_next de expected field (v # vs) = (args_deserialize de expected field v, vs)"

datatype 'v opt = OptArray "'v list" | OptScalar 'v | OptNone

fun opt_value :: "string \<Rightarrow> 'v opt \<Rightarrow> 'j args_error + 'v option" where
  "opt_value field (OptScalar v) = Inr (Some v)"
| "opt_value field (OptArray vs) =
     (if length vs > 1 then Inl (NonUnaryOption field (length vs))
      else Inr (case vs of [] \<Rightarrow> None | v # _ \<Rightarrow> Some v))"
| "opt_value field OptNone = Inr None"

fun args_next_opt ::
    "('j \<Rightarrow> 'v opt option) \<Rightarrow> string \<Rightarrow> string \<Rightarrow> 'j list \<Rightarrow> ('j args_error + 'v option) \<times> 'j list" where
  "args_next_opt de expected field [] = (Inr None, [])"
| "args_next_opt de expected field (v # vs) =
     ((case args_deserialize de expected field v of Inl e \<Rightarrow> Inl e | Inr x \<Rightarrow> opt_value field x), vs)"

definition args_try_from :: "'j call_request_params \<Rightarrow> 'j args_error + 'j args" where
  "args_try_from r = Inr \<lparr>service_id = crp_service_id r, function_name = crp_function_name r,
     function_args = crp_arguments r, tetraplets = crp_tetraplets r\<rparr>"

datatype 'j jerror = JError 'j

definition jerror_new :: "(string \<Rightarrow> 'j) \<Rightarrow> string \<Rightarrow> 'j jerror" where
  "jerror_new json msg = JError (json msg)"

fun jerror_into :: "'j jerror \<Rightarrow> 'j" where
  "jerror_into (JError v) = v"

section \<open>Parameters of a particle\<close>

record particle_params =
  pp_id :: string
  pp_init_peer_id :: peer_id
  pp_peer_scope :: peer_scope
  pp_timestamp :: u64
  pp_ttl :: u32
  pp_script :: string
  pp_signature :: "8 word list"
  pp_token :: string

definition clone_from :: "particle \<Rightarrow> peer_scope \<Rightarrow> string \<Rightarrow> particle_params" where
  "clone_from p sc token =
     \<lparr>pp_id = particle_id p, pp_init_peer_id = init_peer_id p, pp_peer_scope = sc, pp_timestamp = timestamp p,
      pp_ttl = ttl p, pp_script = script p, pp_signature = signature p, pp_token = token\<rparr>"

definition is_spell_particle :: "string \<Rightarrow> bool" where
  "is_spell_particle pid = (take 5 pid = ''spell'')"

text \<open>\<^verbatim>\<open>str::split\<close> by a character: a text with \<open>n\<close> separators has \<open>n + 1\<close> parts.\<close>

fun split_at_char :: "char \<Rightarrow> string \<Rightarrow> string list" where
  "split_at_char c [] = [[]]"
| "split_at_char c (x # xs) =
     (if x = c then [] # split_at_char c xs
      else case split_at_char c xs of [] \<Rightarrow> [[x]] | p # ps \<Rightarrow> (x # p) # ps)"

definition get_spell_id :: "string \<Rightarrow> string option" where
  "get_spell_id pid =
     (if is_spell_particle pid
      then case split_at_char (CHR ''_'') pid of _ # s # _ \<Rightarrow> Some s | _ \<Rightarrow> None
      else None)"

section \<open>Outcomes\<close>

datatype 'j function_outcome =
    NotDefined "'j args" particle_params
  | OutcomeEmpty
  | OutcomeOk 'j
  | OutcomeErr "'j jerror"

fun is_defined :: "'j function_outcome \<Rightarrow> bool" where
  "is_defined (NotDefined a p) = False"
| "is_defined _ = True"

fun not_err :: "'j function_outcome \<Rightarrow> bool" where
  "not_err (OutcomeErr e) = False"
| "not_err _ = True"

fun or_else :: "'j function_outcome \<Rightarrow> ('j args \<Rightarrow> particle_params \<Rightarrow> 'j function_outcome) \<Rightarrow> 'j function_outcome" where
  "or_else (NotDefined a p) f = f a p"
| "or_else outcome f = outcome"

section \<open>The calls of an actor\<close>

datatype function_kind = KindNotHappened | KindService | KindParticleFunction

record single_call_stat =
  call_time :: "nat option"
  wait_time :: "nat option"
  call_success :: bool
  call_kind :: function_kind

record 'j call_service_result =
  ret_code :: int
  call_result :: 'j

record 'j single_call_result =
  call_id :: u32
  scr_result :: "'j call_service_result"
  scr_stat :: single_call_stat

text \<open>
  A running call knows its number and either the error of its arguments or the arguments, and the
  particle function that was set when it was started.
\<close>

datatype ('j, 'f) function_call =
    BadCall u32 "'j args_error"
  | RunningCall u32 "'j args" particle_params "'f option"

fun function_call_id :: "('j, 'f) function_call \<Rightarrow> u32" where
  "function_call_id (BadCall i _) = i"
| "function_call_id (RunningCall i _ _ _) = i"

text \<open>How the host answers a call: the builtins, the particle function, and the times it took.\<close>

record ('j, 'f) call_answers =
  ca_builtins :: "'j args \<Rightarrow> particle_params \<Rightarrow> 'j function_outcome"
  ca_function :: "'f \<Rightarrow> 'j args \<Rightarrow> particle_params \<Rightarrow> 'j function_outcome"
  ca_call_time :: nat
  ca_wait_time :: nat
  ca_show_error :: "'j args_error \<Rightarrow> string"

definition call_outcome ::
    "('j, 'f) call_answers \<Rightarrow> 'j args \<Rightarrow> particle_params \<Rightarrow> 'f option \<Rightarrow> 'j function_outcome \<times> function_kind" where
  "call_outcome an a p f =
     (let outcome = ca_builtins an a p in
      case f of
        None \<Rightarrow> (outcome, KindService)
      | Some g \<Rightarrow> (case outcome of
          NotDefined a' p' \<Rightarrow> (ca_function an g a' p', KindParticleFunction)
        | _ \<Rightarrow> (outcome, KindService)))"

fun outcome_result :: "(string \<Rightarrow> 'j) \<Rightarrow> 'j function_outcome \<Rightarrow> 'j jerror + 'j" where
  "outcome_result json (NotDefined a _) = Inl (jerror_new json
     (''Service with id '' @ [CHR 39] @ service_id a @ [CHR 39] @ '' not found (function '' @ function_name a @ '')''))"
| "outcome_result json OutcomeEmpty = Inr (json [])"
| "outcome_result json (OutcomeOk v) = Inr v"
| "outcome_result json (OutcomeErr e) = Inl e"

text \<open>What the future of a call gives when it completes.\<close>

fun call_completed :: "(string \<Rightarrow> 'j) \<Rightarrow> ('j, 'f) call_answers \<Rightarrow> ('j, 'f) function_call \<Rightarrow> 'j single_call_result" where
  "call_completed json an (BadCall i err) =
     \<lparr>call_id = i,
      scr_result = \<lparr>ret_code = 1,
        call_result = json (''Failed to deserialize CallRequestParams to Args: '' @ ca_show_error an err)\<rparr>,
      scr_stat = \<lparr>call_time = None, wait_time = None, call_success = False, call_kind = KindNotHappened\<rparr>\<rparr>"
| "call_completed json an (RunningCall i a p f) =
     (case call_outcome an a p f of (outcome, kind) \<Rightarrow>
        let result = outcome_result json outcome in
        \<lparr>call_id = i,
         scr_result = (case result of
             Inr v \<Rightarrow> \<lparr>ret_code = 0, call_result = v\<rparr>
           | Inl e \<Rightarrow> \<lparr>ret_code = 1, call_result = jerror_into e\<rparr>),
         scr_stat = \<lparr>call_time = Some (ca_call_time an), wait_time = Some (ca_wait_time an),
           call_success = (case result of Inr _ \<Rightarrow> True | Inl _ \<Rightarrow> False), call_kind = kind\<rparr>\<rparr>)"

record ('j, 'f) actor_functions =
  fs_particle :: particle_params
  function_calls :: "('j, 'f) function_call list"
  call_results :: "(u32, 'j call_service_result) hash_map"
  call_stats :: "single_call_stat list"
  particle_function :: "'f option"

definition functions_new :: "particle_params \<Rightarrow> ('j, 'f) actor_functions" where
  "functions_new p = \<lparr>fs_particle = p, function_calls = [], call_results = [], call_stats = [], particle_function = None\<rparr>"

text \<open>
  Polling takes the calls that complete now, in their order: each is named by its position among those
  still running, with its answers.
\<close>

definition functions_take :: "(string \<Rightarrow> 'j) \<Rightarrow> nat \<Rightarrow> ('j, 'f) call_answers \<Rightarrow> ('j, 'f) actor_functions \<Rightarrow> ('j, 'f) actor_functions" where
  "functions_take json k an fs =
     (if k < length (function_calls fs)
      then let r = call_completed json an (function_calls fs ! k) in
        fs\<lparr>function_calls := take k (function_calls fs) @ drop (k + 1) (function_calls fs),
           call_results := hm_insert (call_id r) (scr_result r) (call_results fs),
           call_stats := call_stats fs @ [scr_stat r]\<rparr>
      else fs)"

fun functions_poll :: "(string \<Rightarrow> 'j) \<Rightarrow> (nat \<times> ('j, 'f) call_answers) list \<Rightarrow> ('j, 'f) actor_functions \<Rightarrow> ('j, 'f) actor_functions" where
  "functions_poll json [] fs = fs"
| "functions_poll json ((k, an) # ready) fs = functions_poll json ready (functions_take json k an fs)"

definition functions_call :: "('j, 'f) actor_functions \<Rightarrow> u32 \<Rightarrow> 'j call_request_params \<Rightarrow> ('j, 'f) function_call" where
  "functions_call fs i call =
     (case args_try_from call of
        Inl err \<Rightarrow> BadCall i err
      | Inr a \<Rightarrow> RunningCall i a (fs_particle fs) (particle_function fs))"

definition functions_execute ::
    "(u32, 'j call_request_params) hash_map \<Rightarrow> ('j, 'f) actor_functions \<Rightarrow> ('j, 'f) actor_functions" where
  "functions_execute requests fs =
     fs\<lparr>function_calls := function_calls fs @ map (\<lambda>(i, call). functions_call fs i call) requests\<rparr>"

definition functions_drain ::
    "('j, 'f) actor_functions \<Rightarrow> ((u32, 'j call_service_result) hash_map \<times> single_call_stat list) \<times> ('j, 'f) actor_functions" where
  "functions_drain fs = ((call_results fs, call_stats fs), fs\<lparr>call_results := [], call_stats := []\<rparr>)"

definition functions_set_function :: "'f \<Rightarrow> ('j, 'f) actor_functions \<Rightarrow> ('j, 'f) actor_functions" where
  "functions_set_function f fs = fs\<lparr>particle_function := Some f\<rparr>"

section \<open>Lemmas\<close>

lemma split_at_char_not_Nil [simp]: "split_at_char c s \<noteq> []"
  by (cases s) (auto split: list.splits)

lemma split_at_char_no_sep: "c \<notin> set s \<Longrightarrow> split_at_char c s = [s]"
  by (induction s) auto

lemma split_at_char_append: "c \<notin> set s \<Longrightarrow> split_at_char c (s @ c # t) = s # split_at_char c t"
  by (induction s) auto

text \<open>The spell's id is read back from the id of a particle that the spell sent.\<close>

lemma get_spell_id_of_spell:
  "CHR ''_'' \<notin> set s \<Longrightarrow> get_spell_id (''spell_'' @ s @ ''_'' @ t) = Some s"
proof -
  assume s: "CHR ''_'' \<notin> set s"
  have "''spell_'' @ s @ ''_'' @ t = ''spell'' @ CHR ''_'' # (s @ CHR ''_'' # t)" by simp
  then show ?thesis
    using split_at_char_append [of "CHR ''_''" "''spell''" "s @ CHR ''_'' # t"] split_at_char_append [OF s, of t]
    by (simp add: get_spell_id_def is_spell_particle_def)
qed

text \<open>
  The numbers of the calls that are running or whose results wait.  As long as the interpreter does not
  reuse a number before it has been given the result, no result is overwritten.
\<close>

definition outstanding :: "('j, 'f) actor_functions \<Rightarrow> u32 multiset" where
  "outstanding fs = mset (map function_call_id (function_calls fs)) + mset (map fst (call_results fs))"

definition functions_ok :: "('j, 'f) actor_functions \<Rightarrow> bool" where
  "functions_ok fs \<longleftrightarrow> (\<forall>i. count (outstanding fs) i \<le> 1) \<and> length (call_stats fs) = length (call_results fs)"

lemma call_completed_id [simp]: "call_id (call_completed json an c) = function_call_id c"
  by (cases c) (auto simp: Let_def split: prod.splits)

lemma function_call_id_functions_call [simp]: "function_call_id (functions_call fs i call) = i"
  by (simp add: functions_call_def args_try_from_def)

lemma update_new: "k \<notin> fst ` set m \<Longrightarrow> AList.update k v m = m @ [(k, v)]"
  by (induction m) auto

lemma mset_remove_nth: "k < length xs \<Longrightarrow> add_mset (xs ! k) (mset (take k xs @ drop (Suc k) xs)) = mset xs"
  by (metis append_take_drop_id Cons_nth_drop_Suc mset_append union_mset_add_mset_right mset.simps(2))

lemma functions_take_ok:
  assumes "functions_ok fs"
  shows "outstanding (functions_take json k an fs) = outstanding fs \<and> functions_ok (functions_take json k an fs)"
proof (cases "k < length (function_calls fs)")
  case True
  let ?c = "function_calls fs ! k" and ?cs = "take k (function_calls fs) @ drop (Suc k) (function_calls fs)"
  have m: "add_mset (function_call_id ?c) (mset (map function_call_id ?cs)) = mset (map function_call_id (function_calls fs))"
    using arg_cong [OF mset_remove_nth [OF True], of "image_mset function_call_id"] by simp
  have "count (mset (map function_call_id (function_calls fs))) (function_call_id ?c) \<ge> 1" unfolding m [symmetric] by simp
  then have "count (mset (map fst (call_results fs))) (function_call_id ?c) = 0"
    using spec [OF conjunct1 [OF assms [unfolded functions_ok_def outstanding_def]], of "function_call_id ?c"]
    unfolding count_union by linarith
  then have new: "function_call_id ?c \<notin> fst ` set (call_results fs)" by (simp add: count_eq_zero_iff)
  have ins: "hm_insert (function_call_id ?c) v (call_results fs) = call_results fs @ [(function_call_id ?c, v)]" for v
    using update_new [OF new] by (simp add: hm_insert_def)
  have o: "outstanding (functions_take json k an fs) = outstanding fs"
    unfolding outstanding_def m [symmetric] using True by (simp add: functions_take_def Let_def ins)
  moreover have "length (call_stats (functions_take json k an fs)) = length (call_results (functions_take json k an fs))"
    using True assms by (simp add: functions_take_def Let_def ins functions_ok_def)
  ultimately show ?thesis using assms by (simp add: functions_ok_def)
qed (simp add: functions_take_def assms)

lemma functions_poll_ok [nox_inv]:
  "functions_ok fs \<Longrightarrow> outstanding (functions_poll json ready fs) = outstanding fs \<and> functions_ok (functions_poll json ready fs)"
  by (induction json ready fs rule: functions_poll.induct) (simp_all add: functions_take_ok)

lemma functions_new_ok [simp]: "functions_ok (functions_new p)" "outstanding (functions_new p) = {#}"
  by (simp_all add: functions_ok_def functions_new_def outstanding_def)

lemma outstanding_execute: "outstanding (functions_execute requests fs) = outstanding fs + mset (map fst requests)"
  by (simp add: outstanding_def functions_execute_def case_prod_beta comp_def)

lemma functions_execute_ok [nox_inv]:
  assumes "functions_ok fs" "hm_ok requests" "\<forall>i \<in> fst ` set requests. i \<notin># outstanding fs"
  shows "functions_ok (functions_execute requests fs)"
proof -
  have "count (outstanding fs + mset (map fst requests)) i \<le> 1" for i
  proof (cases "i \<in> fst ` set requests")
    case True
    then have "count (outstanding fs) i = 0" using assms(3) by (auto simp: count_eq_zero_iff)
    moreover have "count (mset (map fst requests)) i \<le> 1" using assms(2) by (simp add: hm_ok_def distinct_count_atmost_1)
    ultimately show ?thesis by simp
  next
    case False
    then have "count (mset (map fst requests)) i = 0" by (simp add: count_eq_zero_iff)
    then show ?thesis using assms(1) by (simp add: functions_ok_def)
  qed
  then show ?thesis using assms(1) unfolding functions_ok_def outstanding_execute by (simp add: functions_execute_def)
qed

text \<open>Draining hands over all results; the calls that still run stay.\<close>

lemma functions_drain_ok [nox_inv]:
  assumes "functions_ok fs"
  shows "functions_drain fs = ((rs, stats), fs') \<Longrightarrow>
    functions_ok fs' \<and> outstanding fs = outstanding fs' + mset (map fst rs) \<and> (rs = [] \<longrightarrow> stats = [])"
  using assms by (auto simp: functions_drain_def functions_ok_def outstanding_def le_Suc_eq intro: order_trans)

lemma functions_set_function_ok [nox_inv]:
  "functions_ok (functions_set_function f fs) = functions_ok fs" "outstanding (functions_set_function f fs) = outstanding fs"
  by (simp_all add: functions_set_function_def functions_ok_def outstanding_def)

end
