(* ===== verification/Particle_Vault.thy ===== *)
theory Particle_Vault
  imports Particle_Functions Fs_Utils "HOL-Library.Sublist"
begin

text \<open>
  What particles keep on disk: the vault of files a particle shares between services,
  \<^verbatim>\<open>particle-execution/src/particle_vault.rs\<close>, and the store of particle data,
  \<^verbatim>\<open>aquamarine/src/particle_data_store.rs\<close>.  Paths are sequences of components.  The operating system
  is a parameter: it says which location a path denotes, and it may fail any operation.
\<close>

section \<open>Paths\<close>

text \<open>
  \<^verbatim>\<open>std::path\<close>: a path is rooted or not and has components; empty components and the component
  \<^verbatim>\<open>.\<close> are dropped, the component \<^verbatim>\<open>..\<close> is not interpreted.
\<close>

datatype path = Path (has_root: bool) (components: "string list")

definition path_of :: "string \<Rightarrow> path" where
  "path_of s = Path (take 1 s = ''/'') (filter (\<lambda>c. c \<noteq> [] \<and> c \<noteq> ''.'') (split_at_char (CHR ''/'') s))"

fun path_join :: "path \<Rightarrow> path \<Rightarrow> path" where
  "path_join p (Path True ds) = Path True ds"
| "path_join (Path r cs) (Path False ds) = Path r (cs @ ds)"

definition path_push :: "path \<Rightarrow> string \<Rightarrow> path" where
  "path_push p s = path_join p (path_of s)"

definition path_starts_with :: "path \<Rightarrow> path \<Rightarrow> bool" where
  "path_starts_with p q \<longleftrightarrow> has_root p = has_root q \<and> prefix (components q) (components p)"

definition strip_path :: "path \<Rightarrow> path \<Rightarrow> path option" where
  "strip_path q p =
     (if path_starts_with p q then Some (Path False (drop (length (components q)) (components p))) else None)"

definition path_parent :: "path \<Rightarrow> path option" where
  "path_parent p = (if components p = [] then None else Some (Path (has_root p) (butlast (components p))))"

text \<open>A text that is a single component.\<close>

definition plain_name :: "string \<Rightarrow> bool" where
  "plain_name s \<longleftrightarrow> s \<noteq> [] \<and> s \<noteq> ''.'' \<and> s \<noteq> ''..'' \<and> CHR ''/'' \<notin> set s"

section \<open>The vault\<close>

type_synonym files = "path \<rightharpoonup> 8 word list"

text \<open>
  The location a path denotes, with symbolic links and \<^verbatim>\<open>..\<close> resolved, and which locations are
  directories.
\<close>

record os =
  os_real :: "path \<Rightarrow> path"
  os_is_dir :: "path \<Rightarrow> bool"

datatype 'e vault_error =
    InitializeVault "'e io_error"
  | CreateVault "'e io_error"
  | CleanupVault "'e io_error"
  | WrongVault path path
  | VaultNotFound "'e io_error" path
  | ReadVault "'e io_error" path
  | WriteVault "'e io_error" string

datatype particle_vault = ParticleVault (vault_dir: path)

definition VIRTUAL_PARTICLE_VAULT_PREFIX :: string where
  "VIRTUAL_PARTICLE_VAULT_PREFIX = ''/tmp/vault''"

definition real_worker_particle_vault :: "particle_vault \<Rightarrow> peer_id \<Rightarrow> path" where
  "real_worker_particle_vault v peer = path_push (vault_dir v) peer"

definition format_particle_directory_name :: "string \<Rightarrow> string \<Rightarrow> string" where
  "format_particle_directory_name pid token = pid @ ''-'' @ token"

definition real_particle_vault :: "particle_vault \<Rightarrow> peer_id \<Rightarrow> string \<Rightarrow> string \<Rightarrow> path" where
  "real_particle_vault v peer pid token =
     path_push (real_worker_particle_vault v peer) (format_particle_directory_name pid token)"

definition virtual_particle_vault :: "string \<Rightarrow> string \<Rightarrow> path" where
  "virtual_particle_vault pid token =
     path_push (path_of VIRTUAL_PARTICLE_VAULT_PREFIX) (format_particle_directory_name pid token)"

text \<open>Creating a directory either works or gives the system's error.\<close>

definition vault_initialize :: "'e io_error option \<Rightarrow> 'e vault_error + unit" where
  "vault_initialize fail = (case fail of Some e \<Rightarrow> Inl (InitializeVault e) | None \<Rightarrow> Inr ())"

definition initialize_worker :: "'e io_error option \<Rightarrow> particle_vault \<Rightarrow> peer_id \<Rightarrow> 'e vault_error + path" where
  "initialize_worker fail v peer =
     (case fail of Some e \<Rightarrow> Inl (InitializeVault e) | None \<Rightarrow> Inr (real_worker_particle_vault v peer))"

definition vault_create :: "'e io_error option \<Rightarrow> particle_vault \<Rightarrow> peer_id \<Rightarrow> string \<Rightarrow> string \<Rightarrow> 'e vault_error + path" where
  "vault_create fail v peer pid token =
     (case fail of Some e \<Rightarrow> Inl (CreateVault e) | None \<Rightarrow> Inr (real_particle_vault v peer pid token))"

definition to_virtual_path :: "particle_vault \<Rightarrow> peer_id \<Rightarrow> particle_params \<Rightarrow> path \<Rightarrow> 'e vault_error + path" where
  "to_virtual_path v peer pp p =
     (let real_prefix = real_particle_vault v peer (pp_id pp) (pp_token pp) in
      case strip_path real_prefix p of
        None \<Rightarrow> Inl (WrongVault p real_prefix)
      | Some rest \<Rightarrow> Inr (path_join (virtual_particle_vault (pp_id pp) (pp_token pp)) rest))"

text \<open>\<^verbatim>\<open>canonicalize\<close> gives the location of something that exists.\<close>

definition canonicalize :: "os \<Rightarrow> 'e option \<Rightarrow> files \<Rightarrow> path \<Rightarrow> 'e io_error + path" where
  "canonicalize sys fail fs p =
     (case fail of
        Some e \<Rightarrow> Inl (OtherIo e)
      | None \<Rightarrow> (if fs (os_real sys p) \<noteq> None \<or> os_is_dir sys (os_real sys p) then Inr (os_real sys p) else Inl NotFound))"

definition to_real_path ::
    "os \<Rightarrow> 'e option \<Rightarrow> particle_vault \<Rightarrow> peer_id \<Rightarrow> particle_params \<Rightarrow> path \<Rightarrow> files \<Rightarrow> 'e vault_error + path" where
  "to_real_path sys fail v peer pp virtual_path fs =
     (let virtual_prefix = virtual_particle_vault (pp_id pp) (pp_token pp);
          real_prefix = real_particle_vault v peer (pp_id pp) (pp_token pp) in
      case (if has_root virtual_path then strip_path virtual_prefix virtual_path else Some virtual_path) of
        None \<Rightarrow> Inl (WrongVault virtual_path virtual_prefix)
      | Some rest \<Rightarrow> (case canonicalize sys fail fs (path_join real_prefix rest) of
          Inl e \<Rightarrow> Inl (VaultNotFound e virtual_path)
        | Inr resolved \<Rightarrow>
            (if path_starts_with resolved real_prefix then Inr resolved else Inl (WrongVault resolved real_prefix))))"

text \<open>A failed write may leave anything at the location.\<close>

datatype 'e file_write = FileWritten | FileNotWritten "'e io_error" "8 word list option"

definition vault_put ::
    "os \<Rightarrow> 'e io_error option \<Rightarrow> 'e file_write \<Rightarrow> particle_vault \<Rightarrow> peer_id \<Rightarrow> particle_params \<Rightarrow> string \<Rightarrow> string
      \<Rightarrow> files \<Rightarrow> ('e vault_error + path) \<times> files" where
  "vault_put sys mkdir wr v peer pp filename payload fs =
     (let real_path = path_push (real_particle_vault v peer (pp_id pp) (pp_token pp)) filename in
      case (if path_parent real_path \<noteq> None then mkdir else None) of
        Some e \<Rightarrow> (Inl (CreateVault e), fs)
      | None \<Rightarrow> (case wr of
          FileNotWritten e left \<Rightarrow> (Inl (WriteVault e filename), fs(os_real sys real_path := left))
        | FileWritten \<Rightarrow>
            (to_virtual_path v peer pp real_path, fs(os_real sys real_path \<mapsto> string_bytes payload))))"

text \<open>Reading fails for a directory, and when the system says so.\<close>

definition file_read :: "'e option \<Rightarrow> 'e \<Rightarrow> files \<Rightarrow> path \<Rightarrow> 'e io_error + 8 word list" where
  "file_read fail not_a_file fs p =
     (case fail of Some e \<Rightarrow> Inl (OtherIo e)
      | None \<Rightarrow> (case fs p of Some bytes \<Rightarrow> Inr bytes | None \<Rightarrow> Inl (OtherIo not_a_file)))"

definition cat_slice ::
    "os \<Rightarrow> 'e option \<Rightarrow> 'e option \<Rightarrow> 'e \<Rightarrow> particle_vault \<Rightarrow> peer_id \<Rightarrow> particle_params \<Rightarrow> path \<Rightarrow> files
      \<Rightarrow> 'e vault_error + 8 word list" where
  "cat_slice sys canon_fail read_fail not_a_file v peer pp virtual_path fs =
     (case to_real_path sys canon_fail v peer pp virtual_path fs of
        Inl e \<Rightarrow> Inl e
      | Inr real_path \<Rightarrow> (case file_read read_fail not_a_file fs real_path of
          Inl e \<Rightarrow> Inl (ReadVault e virtual_path)
        | Inr bytes \<Rightarrow> Inr bytes))"

text \<open>\<^verbatim>\<open>cat\<close> also fails on bytes that are not a text; \<open>utf8\<close> reads a text.\<close>

definition cat ::
    "os \<Rightarrow> (8 word list \<Rightarrow> 'e + string) \<Rightarrow> 'e option \<Rightarrow> 'e option \<Rightarrow> 'e \<Rightarrow> particle_vault \<Rightarrow> peer_id \<Rightarrow> particle_params
      \<Rightarrow> path \<Rightarrow> files \<Rightarrow> 'e vault_error + string" where
  "cat sys utf8 canon_fail read_fail not_a_file v peer pp virtual_path fs =
     (case to_real_path sys canon_fail v peer pp virtual_path fs of
        Inl e \<Rightarrow> Inl e
      | Inr real_path \<Rightarrow> (case file_read read_fail not_a_file fs real_path of
          Inl e \<Rightarrow> Inl (ReadVault e virtual_path)
        | Inr bytes \<Rightarrow> (case utf8 bytes of Inl e \<Rightarrow> Inl (ReadVault (OtherIo e) virtual_path) | Inr s \<Rightarrow> Inr s)))"

text \<open>
  \<^verbatim>\<open>remove_dir_all\<close>: on success everything below the location is gone; when it fails, some of it may be.
\<close>

definition below :: "path \<Rightarrow> path set" where
  "below p = {q. path_starts_with q p}"

datatype 'e dir_removal = DirRemoved | DirNotRemoved "'e io_error" "path set"

fun remove_dir_all :: "'e dir_removal \<Rightarrow> path \<Rightarrow> files \<Rightarrow> ('e io_error + unit) \<times> files" where
  "remove_dir_all DirRemoved p fs = (Inr (), fs |` (- below p))"
| "remove_dir_all (DirNotRemoved e gone) p fs = (Inl e, fs |` (- (below p \<inter> gone)))"

definition vault_cleanup ::
    "os \<Rightarrow> 'e dir_removal \<Rightarrow> particle_vault \<Rightarrow> peer_id \<Rightarrow> string \<Rightarrow> string \<Rightarrow> files \<Rightarrow> ('e vault_error + unit) \<times> files" where
  "vault_cleanup sys rm v peer pid token fs =
     (case remove_dir_all rm (os_real sys (real_particle_vault v peer pid token)) fs of
        (Inr _, fs') \<Rightarrow> (Inr (), fs')
      | (Inl NotFound, fs') \<Rightarrow> (Inr (), fs')
      | (Inl e, fs') \<Rightarrow> (Inl (CleanupVault e), fs'))"

text \<open>
  A service sees the directories that its module maps: the vault of the peer it runs for, at the virtual
  prefix.  \<open>None\<close> is a module without a WASI configuration.
\<close>

definition inject_vault :: "particle_vault \<Rightarrow> peer_id \<Rightarrow> (string \<rightharpoonup> path) option \<Rightarrow> (string \<rightharpoonup> path) option option" where
  "inject_vault v peer wasi =
     (case wasi of
        None \<Rightarrow> None
      | Some mapped_dirs \<Rightarrow> Some (Some (mapped_dirs(VIRTUAL_PARTICLE_VAULT_PREFIX \<mapsto> real_worker_particle_vault v peer))))"

section \<open>Lemmas on paths\<close>

lemma path_of_plain [simp]: "plain_name s \<Longrightarrow> path_of s = Path False [s]"
  by (cases s) (auto simp: path_of_def plain_name_def split_at_char_no_sep)

lemma path_push_plain: "plain_name s \<Longrightarrow> path_push (Path r cs) s = Path r (cs @ [s])"
  by (simp add: path_push_def)

lemma path_starts_with_refl [simp]: "path_starts_with p p"
  by (simp add: path_starts_with_def)

lemma strip_path_join: "strip_path (Path r cs) (path_join (Path r cs) (Path False ds)) = Some (Path False ds)"
  by (simp add: strip_path_def path_starts_with_def)

lemma virtual_prefix: "path_of VIRTUAL_PARTICLE_VAULT_PREFIX = Path True [''tmp'', ''vault'']"
  by (simp add: path_of_def VIRTUAL_PARTICLE_VAULT_PREFIX_def)

text \<open>
  The directory's name tells the id and the token apart at its last dash: tokens, being base58 texts,
  have none.
\<close>

lemma last_sep_unique:
  assumes "a @ c # b = a' @ c # b'" "c \<notin> set b" "c \<notin> set b'"
  shows "a = a' \<and> b = b'"
proof -
  have "takeWhile (\<lambda>x. x \<noteq> c) (rev (a @ c # b)) = rev b" using assms(2) by (auto simp: takeWhile_tail)
  moreover have "takeWhile (\<lambda>x. x \<noteq> c) (rev (a' @ c # b')) = rev b'" using assms(3) by (auto simp: takeWhile_tail)
  ultimately have "b = b'" using assms(1) by (metis rev_rev_ident)
  then show ?thesis using assms(1) by simp
qed

lemma format_particle_directory_name_inject:
  assumes "CHR ''-'' \<notin> set t" "CHR ''-'' \<notin> set t'" "format_particle_directory_name i t = format_particle_directory_name i' t'"
  shows "i = i' \<and> t = t'"
  using last_sep_unique [of i "CHR ''-''" t i' t'] assms by (simp add: format_particle_directory_name_def)

lemma real_particle_vault_plain:
  "plain_name peer \<Longrightarrow> plain_name (format_particle_directory_name pid token) \<Longrightarrow>
     real_particle_vault (ParticleVault (Path r cs)) peer pid token = Path r (cs @ [peer, format_particle_directory_name pid token])"
  by (simp add: real_particle_vault_def real_worker_particle_vault_def path_push_plain)

lemma virtual_particle_vault_plain:
  "plain_name (format_particle_directory_name pid token) \<Longrightarrow>
     virtual_particle_vault pid token = Path True [''tmp'', ''vault'', format_particle_directory_name pid token]"
  by (simp add: virtual_particle_vault_def virtual_prefix path_push_plain)

section \<open>What a particle can read\<close>

lemma to_real_path_inside:
  assumes "to_real_path sys canon_fail v peer pp p fs = Inr loc"
  shows "path_starts_with loc (real_particle_vault v peer (pp_id pp) (pp_token pp))"
    "loc = os_real sys (path_join (real_particle_vault v peer (pp_id pp) (pp_token pp))
       (if has_root p then the (strip_path (virtual_particle_vault (pp_id pp) (pp_token pp)) p) else p))"
  using assms by (auto simp: to_real_path_def canonicalize_def Let_def split: option.splits sum.splits if_splits)

lemma cat_Inr_iff:
  "cat sys utf8 canon_fail read_fail naf v peer pp p fs = Inr s \<longleftrightarrow>
     (\<exists>loc bytes. to_real_path sys canon_fail v peer pp p fs = Inr loc \<and> read_fail = None \<and> fs loc = Some bytes \<and> utf8 bytes = Inr s)"
  by (auto simp: cat_def file_read_def split: sum.splits option.splits)

text \<open>A path that leads to a file is resolved in the same way after another file was written.\<close>

lemma to_real_path_update:
  assumes "to_real_path sys canon_fail v peer pp p fs = Inr loc" "fs' loc \<noteq> None"
  shows "to_real_path sys canon_fail v peer pp p fs' = Inr loc"
  using assms by (auto simp: to_real_path_def canonicalize_def Let_def split: option.splits sum.splits if_splits)

lemma vaults_apart:
  assumes "plain_name peer" "plain_name peer'"
    "plain_name (format_particle_directory_name i t)" "plain_name (format_particle_directory_name i' t')"
    "CHR ''-'' \<notin> set t" "CHR ''-'' \<notin> set t'" "(peer, i, t) \<noteq> (peer', i', t')"
  shows "\<not> (path_starts_with p (real_particle_vault (ParticleVault (Path r cs)) peer i t)
    \<and> path_starts_with p (real_particle_vault (ParticleVault (Path r cs)) peer' i' t'))"
proof
  let ?n = "format_particle_directory_name i t" and ?n' = "format_particle_directory_name i' t'"
  assume "path_starts_with p (real_particle_vault (ParticleVault (Path r cs)) peer i t)
    \<and> path_starts_with p (real_particle_vault (ParticleVault (Path r cs)) peer' i' t')"
  then have "prefix (cs @ [peer, ?n]) (components p)" "prefix (cs @ [peer', ?n']) (components p)"
    using assms(1-4) by (simp_all add: path_starts_with_def real_particle_vault_plain)
  then have "cs @ [peer, ?n] = cs @ [peer', ?n']" by (auto simp: prefix_def)
  then show False using format_particle_directory_name_inject [OF assms(5,6), of i i'] assms(7) by simp
qed

lemma string_bytes_inverse: "map (\<lambda>b. char_of (unat b)) (string_bytes s) = s"
  by (induction s) (simp_all add: string_bytes_def unat_of_nat)

section \<open>Properties\<close>


text \<open>
  A file put into the vault is read back.  When \<^verbatim>\<open>put\<close> succeeds, the virtual path it returns
  lies below \<^verbatim>\<open>/tmp/vault/<id>-<token>\<close>, and \<^verbatim>\<open>cat\<close> of that path, or of the bare file name, for
  the same particle and peer returns the payload.
\<close>

theorem vault_put_cat:
  fixes naf :: 'e
  assumes v: "v = ParticleVault (Path r cs)"
    and plain: "plain_name peer" "plain_name filename" "plain_name (format_particle_directory_name (pp_id pp) (pp_token pp))"
    and no_link: "os_real sys (path_push (real_particle_vault v peer (pp_id pp) (pp_token pp)) filename)
      = path_push (real_particle_vault v peer (pp_id pp) (pp_token pp)) filename"
    and utf8: "\<And>t. utf8 (string_bytes t) = Inr t"
    and put: "vault_put sys mkdir wr v peer pp filename payload fs = (Inr vpath, fs')"
  shows "vpath = Path True [''tmp'', ''vault'', format_particle_directory_name (pp_id pp) (pp_token pp), filename]
    \<and> cat sys utf8 None None naf v peer pp vpath fs' = Inr payload
    \<and> cat sys utf8 None None naf v peer pp (path_of filename) fs' = Inr payload"
proof -
  let ?d = "format_particle_directory_name (pp_id pp) (pp_token pp)"
  let ?p = "Path r (cs @ [peer, ?d, filename])"
  have rp: "real_particle_vault v peer (pp_id pp) (pp_token pp) = Path r (cs @ [peer, ?d])"
    using plain by (simp add: v real_particle_vault_plain)
  have pp: "path_push (real_particle_vault v peer (pp_id pp) (pp_token pp)) filename = ?p"
    using plain by (simp add: rp path_push_plain)
  have vv: "virtual_particle_vault (pp_id pp) (pp_token pp) = Path True [''tmp'', ''vault'', ?d]"
    using plain by (simp add: virtual_particle_vault_plain)
  have sp: "strip_path (Path r (cs @ [peer, ?d])) ?p = Some (Path False [filename])"
    using strip_path_join [of r "cs @ [peer, ?d]" "[filename]"] by simp
  have nl: "os_real sys ?p = ?p" using no_link pp by simp
  have pq: "path_push (Path r (cs @ [peer, ?d])) filename = ?p" using pp rp by simp
  have res: "vpath = Path True [''tmp'', ''vault'', ?d, filename]" "fs' = fs(?p \<mapsto> string_bytes payload)"
    using put by (auto simp: vault_put_def to_virtual_path_def pq nl rp vv sp Let_def split: option.splits file_write.splits)
  have svp: "strip_path (Path True [''tmp'', ''vault'', ?d]) vpath = Some (Path False [filename])"
    unfolding res by (simp add: strip_path_def path_starts_with_def)
  have "to_real_path sys (None :: 'e option) v peer pp vpath fs' = Inr ?p"
    using svp by (simp add: to_real_path_def vv rp canonicalize_def nl res path_starts_with_def Let_def)
  moreover have "to_real_path sys (None :: 'e option) v peer pp (path_of filename) fs' = Inr ?p"
    using plain by (simp add: to_real_path_def vv rp canonicalize_def nl res path_starts_with_def Let_def)
  ultimately show ?thesis using res utf8 by (simp add: cat_def file_read_def)
qed

text \<open>How a system without links resolves \<^verbatim>\<open>..\<close>: it drops the component before it.\<close>

fun dots :: "string list \<Rightarrow> string list \<Rightarrow> string list" where
  "dots acc [] = acc"
| "dots acc (c # cs) = (if c = ''..'' then dots (butlast acc) cs else dots (acc @ [c]) cs)"

fun resolve_dots :: "path \<Rightarrow> path" where
  "resolve_dots (Path r cs) = Path r (dots [] cs)"

lemma dots_plain: "''..'' \<notin> set cs \<Longrightarrow> dots acc (cs @ ds) = dots (acc @ cs) ds"
  by (induction cs arbitrary: acc) auto

text \<open>
  A particle whose id begins with \<^verbatim>\<open>../\<close> has its vault outside the vault directory of the peer it
  runs for, directly in the directory of all vaults, and it is the same directory for all workers.
\<close>

theorem vault_of_dotted_particle:
  assumes v: "v = ParticleVault (Path r cs)" and dir: "''..'' \<notin> set cs"
    and plain: "plain_name peer" "plain_name (format_particle_directory_name pid token)"
    and resolved: "os_real sys (real_particle_vault v peer (''../'' @ pid) token)
      = resolve_dots (real_particle_vault v peer (''../'' @ pid) token)"
    and other: "format_particle_directory_name pid token \<noteq> peer"
  shows "os_real sys (real_particle_vault v peer (''../'' @ pid) token) = Path r (cs @ [format_particle_directory_name pid token])
    \<and> \<not> path_starts_with (os_real sys (real_particle_vault v peer (''../'' @ pid) token)) (real_worker_particle_vault v peer)"
proof -
  let ?d = "format_particle_directory_name pid token"
  have "split_at_char (CHR ''/'') (''../'' @ ?d) = [''..'', ?d]"
    using split_at_char_append [of "CHR ''/''" "''..''" ?d] plain(2) by (simp add: plain_name_def split_at_char_no_sep)
  then have po: "path_of (''../'' @ ?d) = Path False [''..'', ?d]" using plain(2) by (simp add: path_of_def plain_name_def)
  have "format_particle_directory_name (''../'' @ pid) token = ''../'' @ ?d" by (simp add: format_particle_directory_name_def)
  then have rp: "real_particle_vault v peer (''../'' @ pid) token = Path r (cs @ [peer, ''..'', ?d])"
    using po plain(1) by (simp add: v real_particle_vault_def real_worker_particle_vault_def path_push_def)
  have nd: "peer \<noteq> ''..''" "?d \<noteq> ''..''" using plain by (simp_all add: plain_name_def)
  have res: "os_real sys (real_particle_vault v peer (''../'' @ pid) token) = Path r (cs @ [?d])"
    using nd unfolding rp resolved [unfolded rp] by (simp add: dots_plain [OF dir])
  moreover have "\<not> prefix (cs @ [peer]) (cs @ [?d])" using other by auto
  ultimately show ?thesis using plain(1) by (simp add: path_starts_with_def v real_worker_particle_vault_def path_push_plain)
qed

section \<open>Examples\<close>

definition demo_os :: os where
  "demo_os = \<lparr>os_real = resolve_dots, os_is_dir = (\<lambda>_. False)\<rparr>"

definition demo_vault :: particle_vault where
  "demo_vault = ParticleVault (Path True [''vault''])"

definition demo_pp :: "string \<Rightarrow> particle_params" where
  "demo_pp i = \<lparr>pp_id = i, pp_init_peer_id = ''me'', pp_peer_scope = ScopeHost, pp_timestamp = 0, pp_ttl = 0,
     pp_script = [], pp_signature = [], pp_token = ''tok''\<rparr>"

definition demo_utf8 :: "8 word list \<Rightarrow> unit + string" where
  "demo_utf8 bs = Inr (map (\<lambda>b. char_of (unat b)) bs)"

lemma demo_utf8_bytes: "demo_utf8 (string_bytes t) = Inr t"
  by (simp only: demo_utf8_def string_bytes_inverse)

lemmas demo_vault_simps = demo_os_def demo_vault_def demo_pp_def plain_name_def format_particle_directory_name_def
  real_particle_vault_plain path_push_plain

lemma demo_no_link:
  "os_real demo_os (path_push (real_particle_vault demo_vault ''host'' (pp_id (demo_pp ''a'')) (pp_token (demo_pp ''a''))) ''f'')
     = path_push (real_particle_vault demo_vault ''host'' (pp_id (demo_pp ''a'')) (pp_token (demo_pp ''a''))) ''f''"
  by (simp add: demo_vault_simps)

lemma demo_put:
  "vault_put demo_os None (FileWritten :: unit file_write) demo_vault ''host'' (demo_pp ''a'') ''f'' ''hi'' Map.empty
     = (Inr (Path True [''tmp'', ''vault'', ''a-tok'', ''f'']), [Path True [''vault'', ''host'', ''a-tok'', ''f''] \<mapsto> string_bytes ''hi''])"
  by (simp add: vault_put_def to_virtual_path_def demo_vault_simps virtual_particle_vault_plain strip_path_def path_starts_with_def)


theorem vault_put_cat_witness:
  "cat demo_os demo_utf8 None None () demo_vault ''host'' (demo_pp ''a'') (Path True [''tmp'', ''vault'', ''a-tok'', ''f''])
     [Path True [''vault'', ''host'', ''a-tok'', ''f''] \<mapsto> string_bytes ''hi''] = Inr ''hi''"
proof -
  have "plain_name ''host''" "plain_name ''f''" "plain_name (format_particle_directory_name (pp_id (demo_pp ''a'')) (pp_token (demo_pp ''a'')))"
    by (simp_all add: demo_vault_simps)
  from vault_put_cat [OF demo_vault_def this demo_no_link demo_utf8_bytes demo_put, of "()"] show ?thesis by blast
qed

theorem vault_of_dotted_particle_witness:
  "os_real demo_os (real_particle_vault demo_vault ''worker1'' ''../x'' ''tok'') = Path True [''vault'', ''x-tok'']
   \<and> \<not> path_starts_with (os_real demo_os (real_particle_vault demo_vault ''worker1'' ''../x'' ''tok'')) (real_worker_particle_vault demo_vault ''worker1'')"
proof -
  have "''..'' \<notin> set [''vault'']" "plain_name ''worker1''" "plain_name (format_particle_directory_name ''x'' ''tok'')"
    "os_real demo_os (real_particle_vault demo_vault ''worker1'' (''../'' @ ''x'') ''tok'')
      = resolve_dots (real_particle_vault demo_vault ''worker1'' (''../'' @ ''x'') ''tok'')"
    "format_particle_directory_name ''x'' ''tok'' \<noteq> ''worker1''"
    by (simp_all add: demo_vault_simps)
  from vault_of_dotted_particle [OF demo_vault_def this] show ?thesis
    unfolding format_particle_directory_name_def append.simps by blast
qed

end
