(* ===== verification/Particle_Data_Store.thy ===== *)
theory Particle_Data_Store
  imports Particle_Vault
begin

text \<open>
  The store of particle data, \<^verbatim>\<open>aquamarine/src/particle_data_store.rs\<close>: the file of a particle at a
  peer, its clean-up together with the particle's vault, and the record of anomalous executions.
\<close>

section \<open>Results of the interpreter\<close>

text \<open>
  The parts of \<^verbatim>\<open>RawAVMOutcome\<close> and \<^verbatim>\<open>ParticleParameters\<close> of the interpreter crate that the node reads
  or writes.  Durations are in nanoseconds, sizes are 64-bit.
\<close>

record 'j raw_avm_outcome =
  avm_ret_code :: int
  avm_data :: "8 word list"
  avm_call_requests :: "(u32, 'j call_request_params) hash_map"
  avm_next_peer_pks :: "string list"
  avm_limits_exceeded :: bool

record particle_parameters =
  prm_current_peer_id :: string
  prm_init_peer_id :: string
  prm_particle_id :: string
  prm_timestamp :: u64
  prm_ttl :: u32

section \<open>The store\<close>

record particle_data_store =
  data_store_dir :: path
  ds_vault :: particle_vault
  anomaly_data_store :: path

definition data_store_new :: "path \<Rightarrow> path \<Rightarrow> path \<Rightarrow> particle_data_store" where
  "data_store_new data_dir vault anomaly =
     \<lparr>data_store_dir = data_dir, ds_vault = ParticleVault vault, anomaly_data_store = anomaly\<rparr>"

definition EXECUTION_TIME_THRESHOLD :: nat where
  "EXECUTION_TIME_THRESHOLD = 500 * 1000000"

definition MEMORY_DELTA_BYTES_THRESHOLD :: u64 where
  "MEMORY_DELTA_BYTES_THRESHOLD = 10 * 1000000"

datatype 'e data_store_error =
    CreateDataStore "'e io_error"
  | DataVaultError "'e vault_error"
  | StoreData "'e io_error" path
  | CleanupData "'e io_error"
  | CreateAnomalyDir "'e io_error"
  | WriteAnomaly "'e io_error" path
  | SerializeAnomaly 'e
  | ReadData "'e io_error" path

text \<open>\<open>bs58\<close> encodes bytes in base58.\<close>

definition store_key_from_components :: "(8 word list \<Rightarrow> string) \<Rightarrow> string \<Rightarrow> string \<Rightarrow> 8 word list \<Rightarrow> string" where
  "store_key_from_components bs58 pid peer sig =
     ''particle_'' @ pid @ ''-peer_'' @ peer @ ''-sig_'' @ bs58 sig"

definition data_file :: "(8 word list \<Rightarrow> string) \<Rightarrow> particle_data_store \<Rightarrow> string \<Rightarrow> string \<Rightarrow> 8 word list \<Rightarrow> path" where
  "data_file bs58 ds pid peer sig = path_push (data_store_dir ds) (store_key_from_components bs58 pid peer sig)"

text \<open>\<open>now\<close> is the text of the current time in milliseconds.\<close>

definition anomaly_dir ::
    "(8 word list \<Rightarrow> string) \<Rightarrow> string \<Rightarrow> particle_data_store \<Rightarrow> string \<Rightarrow> string \<Rightarrow> 8 word list \<Rightarrow> path" where
  "anomaly_dir bs58 now ds pid peer sig =
     path_push (path_push (anomaly_data_store ds) (store_key_from_components bs58 pid peer sig)) now"

definition data_store_initialize :: "'e io_error option \<Rightarrow> 'e io_error option \<Rightarrow> 'e data_store_error + unit" where
  "data_store_initialize mkdir vault_mkdir =
     (case mkdir of
        Some e \<Rightarrow> Inl (CreateDataStore e)
      | None \<Rightarrow> (case vault_initialize vault_mkdir of Inl e \<Rightarrow> Inl (DataVaultError e) | Inr _ \<Rightarrow> Inr ()))"

definition store_data ::
    "(8 word list \<Rightarrow> string) \<Rightarrow> os \<Rightarrow> 'e file_write \<Rightarrow> particle_data_store \<Rightarrow> 8 word list \<Rightarrow> string \<Rightarrow> string \<Rightarrow> 8 word list
      \<Rightarrow> files \<Rightarrow> ('e data_store_error + unit) \<times> files" where
  "store_data bs58 sys wr ds bytes pid peer sig fs =
     (let p = data_file bs58 ds pid peer sig in
      case wr of
        FileWritten \<Rightarrow> (Inr (), fs(os_real sys p \<mapsto> bytes))
      | FileNotWritten e left \<Rightarrow> (Inl (StoreData e p), fs(os_real sys p := left)))"

text \<open>A file that cannot be read is taken for an empty one.\<close>

definition read_data ::
    "(8 word list \<Rightarrow> string) \<Rightarrow> os \<Rightarrow> 'e option \<Rightarrow> particle_data_store \<Rightarrow> string \<Rightarrow> string \<Rightarrow> 8 word list \<Rightarrow> files
      \<Rightarrow> 'e data_store_error + 8 word list" where
  "read_data bs58 sys fail ds pid peer sig fs =
     Inr (case fail of Some _ \<Rightarrow> []
          | None \<Rightarrow> (case fs (os_real sys (data_file bs58 ds pid peer sig)) of Some bytes \<Rightarrow> bytes | None \<Rightarrow> []))"

definition cleanup_data ::
    "(8 word list \<Rightarrow> string) \<Rightarrow> os \<Rightarrow> 'e option \<Rightarrow> 'e dir_removal \<Rightarrow> particle_data_store \<Rightarrow> string \<Rightarrow> peer_id \<Rightarrow> 8 word list \<Rightarrow> string
      \<Rightarrow> files \<Rightarrow> ('e data_store_error + unit) \<times> files" where
  "cleanup_data bs58 sys rm_file rm_dir ds pid peer sig token fs =
     (let p = os_real sys (data_file bs58 ds pid peer sig) in
      case (if fs p = None then Inl NotFound else case rm_file of Some e \<Rightarrow> Inl (OtherIo e) | None \<Rightarrow> Inr ()) of
        Inl (OtherIo e) \<Rightarrow> (Inl (CleanupData (OtherIo e)), fs)
      | _ \<Rightarrow> (case vault_cleanup sys rm_dir (ds_vault ds) peer pid token (fs(p := None)) of
          (Inl e, fs') \<Rightarrow> (Inl (DataVaultError e), fs')
        | (Inr _, fs') \<Rightarrow> (Inr (), fs')))"

text \<open>The key of an actor to clean up: particle id, peer, signature and token.\<close>

type_synonym cleanup_key = "string \<times> peer_id \<times> 8 word list \<times> string"

text \<open>The clean-ups run at once; they are listed in the order in which they complete.  Errors are logged.\<close>

fun batch_cleanup_data ::
    "(8 word list \<Rightarrow> string) \<Rightarrow> os \<Rightarrow> (cleanup_key \<Rightarrow> 'e option \<times> 'e dir_removal) \<Rightarrow> particle_data_store \<Rightarrow> cleanup_key list
      \<Rightarrow> files \<Rightarrow> files" where
  "batch_cleanup_data bs58 sys answer ds [] fs = fs"
| "batch_cleanup_data bs58 sys answer ds ((pid, peer, sig, token) # keys) fs =
     (case answer (pid, peer, sig, token) of (rm_file, rm_dir) \<Rightarrow>
        batch_cleanup_data bs58 sys answer ds keys (snd (cleanup_data bs58 sys rm_file rm_dir ds pid peer sig token fs)))"

section \<open>Anomalies\<close>

definition detect_mem_limits_anomaly :: "u64 \<Rightarrow> 'j raw_avm_outcome \<Rightarrow> bool" where
  "detect_mem_limits_anomaly memory_delta outcome \<longleftrightarrow>
     memory_delta > MEMORY_DELTA_BYTES_THRESHOLD \<or> avm_limits_exceeded outcome"

definition detect_anomaly :: "nat \<Rightarrow> u64 \<Rightarrow> 'j raw_avm_outcome \<Rightarrow> bool" where
  "detect_anomaly execution_time memory_delta outcome \<longleftrightarrow>
     execution_time > EXECUTION_TIME_THRESHOLD \<or> avm_ret_code outcome \<noteq> 0 \<or> detect_mem_limits_anomaly memory_delta outcome"

record anomaly_data =
  an_air_script :: string
  an_particle :: "8 word list"
  an_prev_data :: "8 word list"
  an_current_data :: "8 word list"
  an_call_results :: "8 word list"
  an_avm_outcome :: "8 word list"
  an_execution_time :: nat
  an_memory_delta :: u64

text \<open>The JSON writer for the four kinds of values that are written.\<close>

record ('j, 'e) anomaly_json =
  aj_params :: "particle_parameters \<Rightarrow> 'e + 8 word list"
  aj_results :: "(u32, 'j call_service_result) hash_map \<Rightarrow> 'e + 8 word list"
  aj_outcome :: "'j raw_avm_outcome \<Rightarrow> 'e + 8 word list"
  aj_anomaly :: "anomaly_data \<Rightarrow> 'e + 8 word list"

definition collect_anomaly_data ::
    "(8 word list \<Rightarrow> string) \<Rightarrow> os \<Rightarrow> ('j, 'e) anomaly_json \<Rightarrow> string \<Rightarrow> 'e io_error option \<Rightarrow> 'e file_write \<Rightarrow> particle_data_store
      \<Rightarrow> string \<Rightarrow> string \<Rightarrow> 8 word list \<Rightarrow> anomaly_data \<Rightarrow> files \<Rightarrow> ('e data_store_error + unit) \<times> files" where
  "collect_anomaly_data bs58 sys json now mkdir wr ds pid peer sig an fs =
     (case mkdir of
        Some e \<Rightarrow> (Inl (CreateAnomalyDir e), fs)
      | None \<Rightarrow>
          (let file = path_push (anomaly_dir bs58 now ds pid peer sig) ''data'' in
           case aj_anomaly json an of
             Inl e \<Rightarrow> (Inl (SerializeAnomaly e), fs)
           | Inr bytes \<Rightarrow> (case wr of
               FileWritten \<Rightarrow> (Inr (), fs(os_real sys file \<mapsto> bytes))
             | FileNotWritten e left \<Rightarrow> (Inl (WriteAnomaly e file), fs(os_real sys file := left)))))"

definition save_anomaly_data ::
    "(8 word list \<Rightarrow> string) \<Rightarrow> os \<Rightarrow> ('j, 'e) anomaly_json \<Rightarrow> string \<Rightarrow> 'e option \<Rightarrow> 'e io_error option \<Rightarrow> 'e file_write
      \<Rightarrow> particle_data_store \<Rightarrow> string \<Rightarrow> 8 word list \<Rightarrow> (u32, 'j call_service_result) hash_map \<Rightarrow> particle_parameters
      \<Rightarrow> 8 word list \<Rightarrow> 'j raw_avm_outcome \<Rightarrow> nat \<Rightarrow> u64 \<Rightarrow> files \<Rightarrow> ('e data_store_error + unit) \<times> files" where
  "save_anomaly_data bs58 sys json now read_fail mkdir wr ds air current_data results prm sig outcome time delta fs =
     (case read_data bs58 sys read_fail ds (prm_particle_id prm) (prm_current_peer_id prm) sig fs of
        Inl e \<Rightarrow> (Inl e, fs)
      | Inr prev_data \<Rightarrow> (case aj_params json prm of Inl e \<Rightarrow> (Inl (SerializeAnomaly e), fs)
      | Inr ser_particle \<Rightarrow> (case aj_results json results of Inl e \<Rightarrow> (Inl (SerializeAnomaly e), fs)
      | Inr ser_results \<Rightarrow> (case aj_outcome json outcome of Inl e \<Rightarrow> (Inl (SerializeAnomaly e), fs)
      | Inr ser_outcome \<Rightarrow>
          collect_anomaly_data bs58 sys json now mkdir wr ds (prm_particle_id prm) (prm_current_peer_id prm) sig
            \<lparr>an_air_script = air, an_particle = ser_particle, an_prev_data = prev_data, an_current_data = current_data,
             an_call_results = ser_results, an_avm_outcome = ser_outcome, an_execution_time = time, an_memory_delta = delta\<rparr> fs))))"

section \<open>Keys\<close>

lemma store_key_inject:
  assumes "store_key_from_components bs58 pid peer sig = store_key_from_components bs58 pid' peer' sig'"
    and "CHR ''-'' \<notin> set peer" "CHR ''-'' \<notin> set peer'"
    and "\<And>b. CHR ''-'' \<notin> set (bs58 b)" "inj bs58"
  shows "pid = pid' \<and> peer = peer' \<and> sig = sig'"
proof -
  let ?l = "\<lambda>pid peer. ''particle_'' @ pid @ CHR ''-'' # (''peer_'' @ peer)"
  have "store_key_from_components bs58 i p s = ?l i p @ CHR ''-'' # (''sig_'' @ bs58 s)" for i p s
    by (simp add: store_key_from_components_def)
  then have "?l pid peer @ CHR ''-'' # (''sig_'' @ bs58 sig) = ?l pid' peer' @ CHR ''-'' # (''sig_'' @ bs58 sig')" using assms(1) by simp
  then have a: "?l pid peer = ?l pid' peer' \<and> ''sig_'' @ bs58 sig = ''sig_'' @ bs58 sig'"
    using assms(4) by (intro last_sep_unique) auto
  then have "(''particle_'' @ pid) @ CHR ''-'' # (''peer_'' @ peer) = (''particle_'' @ pid') @ CHR ''-'' # (''peer_'' @ peer')" by simp
  then have "''particle_'' @ pid = ''particle_'' @ pid' \<and> ''peer_'' @ peer = ''peer_'' @ peer'"
    using assms(2,3) by (intro last_sep_unique) auto
  then show ?thesis using a assms(5) by (simp add: inj_eq)
qed

lemma data_file_plain:
  "plain_name (store_key_from_components bs58 pid peer sig) \<Longrightarrow> data_store_dir ds = Path r cs \<Longrightarrow>
     data_file bs58 ds pid peer sig = Path r (cs @ [store_key_from_components bs58 pid peer sig])"
  by (simp add: data_file_def path_push_plain)

lemma vault_cleanup_below: "snd (vault_cleanup sys rm v peer pid token fs) p = None \<or> snd (vault_cleanup sys rm v peer pid token fs) p = fs p"
  by (cases rm) (auto simp: vault_cleanup_def restrict_map_def split: io_error.splits)

section \<open>Properties\<close>

text \<open>
  The data of a particle at a peer is kept apart.  After its data has been stored, reading it for
  the same particle, peer and signature gives exactly those bytes, reading it for any other particle,
  peer or signature gives what it gave before, and once it has been cleaned up, reading it gives
  nothing.  Base58 texts have no dash, and the files are reached without links.
\<close>

theorem data_store_roundtrip:
  fixes fail :: "'e option"
  assumes dir: "data_store_dir ds = Path r cs"
    and plain: "plain_name (store_key_from_components bs58 pid peer sig)" "plain_name (store_key_from_components bs58 pid' peer' sig')"
    and no_link: "\<And>s. plain_name s \<Longrightarrow> os_real sys (Path r (cs @ [s])) = Path r (cs @ [s])"
    and base58: "\<And>b. CHR ''-'' \<notin> set (bs58 b)" "inj bs58" "CHR ''-'' \<notin> set peer" "CHR ''-'' \<notin> set peer'"
    and stored: "store_data bs58 sys FileWritten ds bytes pid peer sig fs = (res, fs1)"
    and cleaned: "cleanup_data bs58 sys rm_file rm_dir ds pid peer sig token fs1 = (Inr (), fs2)"
  shows "read_data bs58 sys (None :: 'e option) ds pid peer sig fs1 = Inr bytes
    \<and> ((pid', peer', sig') \<noteq> (pid, peer, sig) \<longrightarrow>
         read_data bs58 sys fail ds pid' peer' sig' fs1 = read_data bs58 sys fail ds pid' peer' sig' fs)
    \<and> read_data bs58 sys fail ds pid peer sig fs2 = Inr []"
proof -
  let ?p = "Path r (cs @ [store_key_from_components bs58 pid peer sig])"
    and ?q = "Path r (cs @ [store_key_from_components bs58 pid' peer' sig'])"
  have f: "data_file bs58 ds pid peer sig = ?p" "data_file bs58 ds pid' peer' sig' = ?q"
    using plain dir by (simp_all add: data_file_plain)
  have nl: "os_real sys ?p = ?p" "os_real sys ?q = ?q" using plain no_link by simp_all
  have fs1: "fs1 = fs(?p \<mapsto> bytes)" using stored by (auto simp: store_data_def f nl)
  have ne: "?q \<noteq> ?p" if "(pid', peer', sig') \<noteq> (pid, peer, sig)"
    using store_key_inject [of bs58 pid' peer' sig' pid peer sig] that base58 by auto
  have "fs2 ?p = None"
    using cleaned vault_cleanup_below [of sys rm_dir "ds_vault ds" peer pid token "fs1(?p := None)" ?p]
    by (auto simp: cleanup_data_def f nl fs1 split: prod.splits sum.splits option.splits if_splits io_error.splits)
  then show ?thesis using ne by (auto simp: read_data_def f nl fs1 split: option.splits)
qed

definition demo_store :: particle_data_store where
  "demo_store = data_store_new (Path True [''data'']) (Path True [''vault'']) (Path True [''anomaly''])"

text \<open>An encoding without dashes and slashes: a letter for every bit.\<close>

definition demo_base58 :: "8 word list \<Rightarrow> string" where
  "demo_base58 bs = concat (map (\<lambda>b. map (\<lambda>i. if bit b i then CHR ''1'' else CHR ''2'') [0..<8]) bs)"

lemma demo_base58_chars: "set (demo_base58 b) \<subseteq> {CHR ''1'', CHR ''2''}"
  by (auto simp: demo_base58_def)

lemma demo_base58_inj: "inj demo_base58"
proof (rule injI)
  fix x y assume "demo_base58 x = demo_base58 y"
  then show "x = y"
  proof (induction x arbitrary: y)
    case Nil
    then show ?case by (cases y) (auto simp: demo_base58_def upt_rec)
  next
    case (Cons a x)
    let ?e = "\<lambda>b :: 8 word. map (\<lambda>i. if bit b i then CHR ''1'' else CHR ''2'') [0..<8]"
    obtain b y' where y: "y = b # y'" using Cons.prems by (cases y) (auto simp: demo_base58_def upt_rec)
    have "?e a @ demo_base58 x = ?e b @ demo_base58 y'" using Cons.prems y by (simp add: demo_base58_def)
    then have e: "?e a = ?e b" "demo_base58 x = demo_base58 y'" by (simp_all add: append_eq_append_conv)
    have "bit a i = bit b i" if "i < 8" for i using e(1) that by (auto simp: list_eq_iff_nth_eq split: if_splits)
    then have "a = b" by (intro bit_word_eqI) simp
    then show ?case using Cons.IH [OF e(2)] y by simp
  qed
qed

theorem data_store_roundtrip_witness:
  "read_data demo_base58 demo_os (None :: unit option) demo_store ''p'' ''host'' [7] [Path True [''data'', ''particle_p-peer_host-sig_11122222''] \<mapsto> [1, 2]] = Inr [1, 2]"
proof -
  have k: "store_key_from_components demo_base58 ''p'' ''host'' [7] = ''particle_p-peer_host-sig_11122222''"
    by (simp add: store_key_from_components_def demo_base58_def upt_rec)
  have pl: "plain_name (store_key_from_components demo_base58 ''p'' ''host'' [7])" by (simp add: k plain_name_def)
  have dir: "data_store_dir demo_store = Path True [''data'']" by (simp add: demo_store_def data_store_new_def)
  have nl: "os_real demo_os (Path True ([''data''] @ [s])) = Path True ([''data''] @ [s])" if "plain_name s" for s
    using that by (simp add: demo_os_def plain_name_def)
  have b: "CHR ''-'' \<notin> set (demo_base58 x)" for x using demo_base58_chars [of x] by auto
  have h: "CHR ''-'' \<notin> set ''host''" by simp
  have st: "store_data demo_base58 demo_os (FileWritten :: unit file_write) demo_store [1, 2] ''p'' ''host'' [7] Map.empty
      = (Inr (), [Path True [''data'', ''particle_p-peer_host-sig_11122222''] \<mapsto> [1, 2]])"
    using pl nl [OF pl] by (simp add: store_data_def data_file_plain [OF pl dir] k)
  have cl: "\<exists>fs2. cleanup_data demo_base58 demo_os (None :: unit option) DirRemoved demo_store ''p'' ''host'' [7] ''t'' fs1 = (Inr (), fs2)" for fs1
    by (auto simp: cleanup_data_def vault_cleanup_def Let_def)
  then obtain fs2 where cl': "cleanup_data demo_base58 demo_os (None :: unit option) DirRemoved demo_store ''p'' ''host'' [7] ''t''
      [Path True [''data'', ''particle_p-peer_host-sig_11122222''] \<mapsto> [1, 2]] = (Inr (), fs2)" by blast
  from data_store_roundtrip [OF dir pl pl nl b demo_base58_inj h h st cl', of "None :: unit option"] show ?thesis by blast
qed

end
