(* ===== verification/Aqua_Actor.thy ===== *)
theory Aqua_Actor
  imports Particle_Data_Store Key_Storage
begin

text \<open>
  The execution of one particle: effects and results of the interpreter
  (\<^verbatim>\<open>aquamarine/src/particle_effects.rs\<close>, \<^verbatim>\<open>aqua_runtime.rs\<close>), one execution with its reads and writes
  of the data store (\<^verbatim>\<open>particle_executor.rs\<close>), and the actor that queues the particles with one
  signature (\<^verbatim>\<open>deadline.rs\<close>, \<^verbatim>\<open>actor.rs\<close>).  Virtual machines are values of \<open>'vm\<close>, key pairs of \<open>'kp\<close>.  What an
  execution reads and writes happens when it completes.
\<close>

section \<open>Deadlines\<close>

record particle_deadline =
  dl_timestamp :: u64
  dl_ttl :: u32

definition deadline_from :: "particle \<Rightarrow> particle_deadline" where
  "deadline_from p = \<lparr>dl_timestamp = timestamp p, dl_ttl = ttl p\<rparr>"

definition deadline_is_expired :: "u64 \<Rightarrow> particle_deadline \<Rightarrow> bool" where
  "deadline_is_expired now_ms d =
     (case map_option (\<lambda>ts. ts < now_ms) (checked_add (dl_timestamp d) (ucast (dl_ttl d))) of
        Some b \<Rightarrow> b | None \<Rightarrow> True)"

section \<open>Effects\<close>

record 'j particle_effects =
  new_data :: "8 word list"
  next_peers :: "peer_id list"
  call_requests :: "(u32, 'j call_request_params) hash_map"

definition effects_empty :: "'j particle_effects" where
  "effects_empty = \<lparr>new_data = [], next_peers = [], call_requests = []\<rparr>"

record interpretation_stats =
  interpretation_time :: nat
  memory_delta :: u64
  new_data_len :: "nat option"
  stats_success :: bool

definition stats_failed :: interpretation_stats where
  "stats_failed = \<lparr>interpretation_time = 0, memory_delta = 0, new_data_len = None, stats_success = False\<rparr>"

record raw_routing_effects =
  re_particle :: particle
  re_next_peers :: "peer_id list"

record remote_routing_effects =
  remote_particle :: particle
  remote_next_peers :: "peer_id list"

record local_routing_effects =
  local_particle :: particle
  local_next_peers :: "peer_scope list"

section \<open>Reading the interpreter's outcome\<close>

datatype 'e field_error = InvalidPeerId string 'e

datatype 'e execution_error = InvalidResultField string "'e field_error" | AquamarineError 'e

definition parse_peer_id :: "(string \<Rightarrow> 'e + peer_id) \<Rightarrow> string \<Rightarrow> 'e field_error + peer_id" where
  "parse_peer_id from_str s = (case from_str s of Inl e \<Rightarrow> Inl (InvalidPeerId s e) | Inr p \<Rightarrow> Inr p)"

text \<open>Collecting into a \<^verbatim>\<open>Result\<close> stops at the first error.\<close>

fun parse_peer_ids :: "(string \<Rightarrow> 'e + peer_id) \<Rightarrow> string list \<Rightarrow> 'e execution_error + peer_id list" where
  "parse_peer_ids from_str [] = Inr []"
| "parse_peer_ids from_str (s # ss) =
     (case parse_peer_id from_str s of
        Inl e \<Rightarrow> Inl (InvalidResultField ''next_peer_pks[..]'' e)
      | Inr p \<Rightarrow> (case parse_peer_ids from_str ss of Inl e \<Rightarrow> Inl e | Inr ps \<Rightarrow> Inr (p # ps)))"

definition parse_outcome ::
    "(string \<Rightarrow> 'e + peer_id) \<Rightarrow> 'e + 'j raw_avm_outcome
      \<Rightarrow> 'e execution_error + (8 word list \<times> peer_id list \<times> (u32, 'j call_request_params) hash_map)" where
  "parse_outcome from_str outcome =
     (case outcome of
        Inl e \<Rightarrow> Inl (AquamarineError e)
      | Inr out \<Rightarrow> (case parse_peer_ids from_str (avm_next_peer_pks out) of
          Inl e \<Rightarrow> Inl e
        | Inr peers \<Rightarrow> Inr (avm_data out, peers, avm_call_requests out)))"

definition into_effects :: "(string \<Rightarrow> 'e + peer_id) \<Rightarrow> 'e + 'j raw_avm_outcome \<Rightarrow> 'j particle_effects" where
  "into_effects from_str outcome =
     (case parse_outcome from_str outcome of
        Inr (d, peers, calls) \<Rightarrow>
          (if peers \<noteq> [] \<or> calls \<noteq> [] then \<lparr>new_data = d, next_peers = peers, call_requests = calls\<rparr> else effects_empty)
      | Inl _ \<Rightarrow> effects_empty)"

section \<open>One execution\<close>

text \<open>
  The interpreter: a call may change the machine, and its memory can be measured.  The other parameters
  are the crates and the system an execution uses.
\<close>

record ('vm, 'j, 'kp, 'e) aqua_api =
  vm_call :: "'vm \<Rightarrow> string \<Rightarrow> 8 word list \<Rightarrow> 8 word list \<Rightarrow> particle_parameters \<Rightarrow> (u32, 'j call_service_result) hash_map \<Rightarrow> 'kp
    \<Rightarrow> ('e + 'j raw_avm_outcome) \<times> 'vm"
  vm_memory_size :: "'vm \<Rightarrow> u64"
  peer_from_str :: "string \<Rightarrow> 'e + peer_id"
  api_bs58 :: "8 word list \<Rightarrow> string"
  api_os :: os
  api_json :: "('j, 'e) anomaly_json"
  api_text :: "string \<Rightarrow> 'j"

text \<open>What happens around one execution: whether its task runs to its end, how long it takes, what fails.\<close>

record 'e execution_answers =
  ea_joined :: bool
  ea_time :: nat
  ea_read_fail :: "'e option"
  ea_anomaly_now :: string
  ea_anomaly_read_fail :: "'e option"
  ea_anomaly_mkdir :: "'e io_error option"
  ea_anomaly_write :: "'e file_write"
  ea_store_write :: "'e file_write"

record ('vm, 'j) fut_result =
  fr_runtime :: "'vm option"
  fr_effects :: "'j particle_effects"
  fr_stats :: interpretation_stats

record ('vm, 'j, 'e) avm_call_result =
  acr_particle :: particle
  acr_call_results :: "(u32, 'j call_service_result) hash_map"
  acr_params :: particle_parameters
  acr_outcome :: "'e + 'j raw_avm_outcome"
  acr_stats :: interpretation_stats
  acr_vm :: 'vm

text \<open>\<open>None\<close> is a task that was cancelled or panicked.\<close>

definition avm_call ::
    "('vm, 'j, 'kp, 'e) aqua_api \<Rightarrow> 'e execution_answers \<Rightarrow> 'vm \<Rightarrow> peer_id \<Rightarrow> 'kp \<Rightarrow> particle
      \<Rightarrow> (u32, 'j call_service_result) hash_map \<Rightarrow> 8 word list \<Rightarrow> ('vm, 'j, 'e) avm_call_result option" where
  "avm_call api ans vm peer kp p results prev_data =
     (if ea_joined ans
      then let prm = \<lparr>prm_current_peer_id = peer, prm_init_peer_id = init_peer_id p, prm_particle_id = particle_id p,
                 prm_timestamp = timestamp p, prm_ttl = ttl p\<rparr> in
        case vm_call api vm (script p) prev_data (data p) prm results kp of (outcome, vm') \<Rightarrow>
          Some \<lparr>acr_particle = p, acr_call_results = results, acr_params = prm, acr_outcome = outcome,
            acr_stats = \<lparr>interpretation_time = ea_time ans, memory_delta = vm_memory_size api vm' - vm_memory_size api vm,
              new_data_len = (case outcome of Inr out \<Rightarrow> Some (length (avm_data out)) | Inl _ \<Rightarrow> None),
              stats_success = (case outcome of Inr _ \<Rightarrow> True | Inl _ \<Rightarrow> False)\<rparr>,
            acr_vm = vm'\<rparr>
      else None)"

definition process_avm_result ::
    "('vm, 'j, 'kp, 'e) aqua_api \<Rightarrow> 'e execution_answers \<Rightarrow> particle_data_store \<Rightarrow> peer_id \<Rightarrow> ('vm, 'j, 'e) avm_call_result
      \<Rightarrow> files \<Rightarrow> ('vm, 'j) fut_result \<times> files" where
  "process_avm_result api ans ds peer r fs =
     (let p = acr_particle r; ok = \<lparr>fr_runtime = Some (acr_vm r),
            fr_effects = into_effects (peer_from_str api) (acr_outcome r), fr_stats = acr_stats r\<rparr> in
      case acr_outcome r of
        Inl _ \<Rightarrow> (ok, fs)
      | Inr outcome \<Rightarrow>
          (let fs1 = (if detect_anomaly (interpretation_time (acr_stats r)) (memory_delta (acr_stats r)) outcome
                then snd (save_anomaly_data (api_bs58 api) (api_os api) (api_json api) (ea_anomaly_now ans) (ea_anomaly_read_fail ans)
                       (ea_anomaly_mkdir ans) (ea_anomaly_write ans) ds (script p) (data p) (acr_call_results r) (acr_params r)
                       (signature p) outcome (interpretation_time (acr_stats r)) (memory_delta (acr_stats r)) fs)
                else fs) in
           case store_data (api_bs58 api) (api_os api) (ea_store_write ans) ds (avm_data outcome) (particle_id p) peer (signature p) fs1 of
             (Inl _, fs2) \<Rightarrow> (\<lparr>fr_runtime = Some (acr_vm r), fr_effects = effects_empty, fr_stats = stats_failed\<rparr>, fs2)
           | (Inr _, fs2) \<Rightarrow> (ok, fs2)))"

definition execute_with_prev_data ::
    "('vm, 'j, 'kp, 'e) aqua_api \<Rightarrow> 'e execution_answers \<Rightarrow> particle_data_store \<Rightarrow> 'vm \<Rightarrow> peer_id \<Rightarrow> 'kp \<Rightarrow> particle
      \<Rightarrow> (u32, 'j call_service_result) hash_map \<Rightarrow> 8 word list \<Rightarrow> files \<Rightarrow> ('vm, 'j) fut_result \<times> files" where
  "execute_with_prev_data api ans ds vm peer kp p results prev_data fs =
     (case avm_call api ans vm peer kp p results prev_data of
        Some r \<Rightarrow> process_avm_result api ans ds peer r fs
      | None \<Rightarrow> (\<lparr>fr_runtime = None, fr_effects = effects_empty, fr_stats = stats_failed\<rparr>, fs))"

definition execute ::
    "('vm, 'j, 'kp, 'e) aqua_api \<Rightarrow> 'e execution_answers \<Rightarrow> particle_data_store \<Rightarrow> 'vm \<Rightarrow> peer_id \<Rightarrow> 'kp \<Rightarrow> particle
      \<Rightarrow> (u32, 'j call_service_result) hash_map \<Rightarrow> files \<Rightarrow> ('vm, 'j) fut_result \<times> files" where
  "execute api ans ds vm peer kp p results fs =
     (case read_data (api_bs58 api) (api_os api) (ea_read_fail ans) ds (particle_id p) peer (signature p) fs of
        Inr prev_data \<Rightarrow> execute_with_prev_data api ans ds vm peer kp p results prev_data fs
      | Inl _ \<Rightarrow> (\<lparr>fr_runtime = Some vm, fr_effects = effects_empty, fr_stats = stats_failed\<rparr>, fs))"

section \<open>The actor\<close>

text \<open>An execution in progress: the machine it took from the pool, the particle, and the call results.\<close>

record ('vm, 'j) avm_task =
  task_vm_id :: nat
  task_vm :: 'vm
  task_particle :: particle
  task_calls :: "(u32, 'j call_service_result) hash_map"

record ('vm, 'j, 'f, 'kp) actor =
  ac_deadline :: particle_deadline
  ac_future :: "('vm, 'j) avm_task option"
  ac_mailbox :: "particle list"
  ac_waker :: bool
  ac_functions :: "('j, 'f) actor_functions"
  ac_particle :: particle
  ac_current_peer_id :: peer_id
  ac_particle_token :: string
  ac_key_pair :: 'kp
  ac_deal_id :: "deal_id option"

definition actor_new ::
    "particle \<Rightarrow> ('j, 'f) actor_functions \<Rightarrow> peer_id \<Rightarrow> string \<Rightarrow> 'kp \<Rightarrow> deal_id option \<Rightarrow> ('vm, 'j, 'f, 'kp) actor" where
  "actor_new p fs peer token kp deal =
     \<lparr>ac_deadline = deadline_from p, ac_future = None, ac_mailbox = [], ac_waker = False, ac_functions = fs,
      ac_particle = p\<lparr>data := []\<rparr>, ac_current_peer_id = peer, ac_particle_token = token, ac_key_pair = kp, ac_deal_id = deal\<rparr>"

definition actor_is_expired :: "u64 \<Rightarrow> ('vm, 'j, 'f, 'kp) actor \<Rightarrow> bool" where
  "actor_is_expired now_ms a = deadline_is_expired now_ms (ac_deadline a)"

definition is_executing :: "('vm, 'j, 'f, 'kp) actor \<Rightarrow> bool" where
  "is_executing a = (ac_future a \<noteq> None)"

definition actor_cleanup_key :: "('vm, 'j, 'f, 'kp) actor \<Rightarrow> cleanup_key" where
  "actor_cleanup_key a =
     (particle_id (ac_particle a), ac_current_peer_id a, signature (ac_particle a), ac_particle_token a)"

definition mailbox_size :: "('vm, 'j, 'f, 'kp) actor \<Rightarrow> nat" where
  "mailbox_size a = length (ac_mailbox a)"

definition actor_set_function :: "'f \<Rightarrow> ('vm, 'j, 'f, 'kp) actor \<Rightarrow> ('vm, 'j, 'f, 'kp) actor" where
  "actor_set_function f a = a\<lparr>ac_functions := functions_set_function f (ac_functions a)\<rparr>"

text \<open>The second component says whether the task that polls the actor is woken.\<close>

definition actor_ingest :: "particle \<Rightarrow> ('vm, 'j, 'f, 'kp) actor \<Rightarrow> ('vm, 'j, 'f, 'kp) actor \<times> bool" where
  "actor_ingest p a = (a\<lparr>ac_mailbox := ac_mailbox a @ [p]\<rparr>, ac_waker a)"

text \<open>
  Polling for a completed execution: \<open>done\<close> is \<open>None\<close> while the future is pending; when it completes it
  has woken the task before it returned.
\<close>

definition poll_avm_future ::
    "('vm, 'j, 'kp, 'e) aqua_api \<Rightarrow> particle_data_store \<Rightarrow> 'e execution_answers option \<Rightarrow> ('vm, 'j, 'f, 'kp) actor \<Rightarrow> files
      \<Rightarrow> ((nat \<times> 'vm option) \<times> raw_routing_effects \<times> interpretation_stats) option \<times> ('vm, 'j, 'f, 'kp) actor \<times> files" where
  "poll_avm_future api ds ready a fs =
     (case (ac_future a, ready) of
        (Some task, Some ans) \<Rightarrow>
          (case execute api ans ds (task_vm task) (ac_current_peer_id a) (ac_key_pair a) (task_particle task) (task_calls task) fs of
             (r, fs') \<Rightarrow>
               (Some ((task_vm_id task, fr_runtime r),
                      \<lparr>re_particle = (ac_particle a)\<lparr>data := new_data (fr_effects r)\<rparr>, re_next_peers = next_peers (fr_effects r)\<rparr>,
                      fr_stats r),
                a\<lparr>ac_future := None, ac_functions := functions_execute (call_requests (fr_effects r)) (ac_functions a)\<rparr>, fs'))
      | _ \<Rightarrow> (None, a, fs))"

definition poll_completed ::
    "('vm, 'j, 'kp, 'e) aqua_api \<Rightarrow> particle_data_store \<Rightarrow> (nat \<times> ('j, 'f) call_answers) list \<Rightarrow> 'e execution_answers option
      \<Rightarrow> ('vm, 'j, 'f, 'kp) actor \<Rightarrow> files
      \<Rightarrow> ((nat \<times> 'vm option) \<times> raw_routing_effects \<times> interpretation_stats) option \<times> ('vm, 'j, 'f, 'kp) actor \<times> files" where
  "poll_completed api ds calls ready a fs =
     poll_avm_future api ds ready
       (a\<lparr>ac_waker := True, ac_functions := functions_poll (api_text api) calls (ac_functions a)\<rparr>) fs"

datatype 'vm actor_poll = ActorExecuting "single_call_stat list" | ActorVm nat 'vm

definition poll_next ::
    "('vm, 'j, 'kp, 'e) aqua_api \<Rightarrow> (nat \<times> ('j, 'f) call_answers) list \<Rightarrow> nat \<Rightarrow> 'vm \<Rightarrow> ('vm, 'j, 'f, 'kp) actor
      \<Rightarrow> 'vm actor_poll \<times> ('vm, 'j, 'f, 'kp) actor" where
  "poll_next api calls vm_id vm a0 =
     (let a = a0\<lparr>ac_waker := True, ac_functions := functions_poll (api_text api) calls (ac_functions a0)\<rparr> in
      if is_executing a then (ActorVm vm_id vm, a)
      else case functions_drain (ac_functions a) of ((results, stats), fns) \<Rightarrow>
        (case ac_mailbox a of
           [] \<Rightarrow> (if results = [] then (ActorVm vm_id vm, a\<lparr>ac_functions := fns\<rparr>)
             else (ActorExecuting stats, a\<lparr>ac_functions := fns,
                     ac_future := Some \<lparr>task_vm_id = vm_id, task_vm = vm, task_particle = ac_particle a, task_calls = results\<rparr>\<rparr>))
         | p # ps \<Rightarrow> (ActorExecuting stats, a\<lparr>ac_functions := fns, ac_mailbox := ps,
             ac_future := Some \<lparr>task_vm_id = vm_id, task_vm = vm, task_particle = p, task_calls = results\<rparr>\<rparr>)))"

section \<open>Deadlines agree\<close>

text \<open>The actor's deadline is the particle's: both say the same at every time that fits 64 bits.\<close>

lemma deadline_is_expired_iff: "deadline_is_expired now (deadline_from p) \<longleftrightarrow> is_expired (ucast now) p"
proof (cases "checked_add (timestamp p) (ucast (ttl p) :: u64)")
  case (Some d)
  have "(ucast d :: 128 word) < ucast now \<longleftrightarrow> d < now"
    by (simp add: word_less_nat_alt unat_ucast_up)
  then show ?thesis using Some by (simp add: deadline_is_expired_def is_expired_def deadline_def deadline_from_def)
qed (simp add: deadline_is_expired_def is_expired_def deadline_def deadline_from_def)

section \<open>What an execution gives back\<close>

lemma parse_peer_ids_map:
  "parse_peer_ids from_str ss = Inr ps \<longleftrightarrow> map from_str ss = map Inr ps"
proof (induction ss arbitrary: ps)
  case Nil
  then show ?case by auto
next
  case (Cons s ss)
  show ?case using Cons.IH [of "tl ps"] by (cases ps) (auto simp: parse_peer_id_def split: sum.splits)
qed

lemma execute_runtime: "fr_runtime (fst (execute api ans ds vm peer kp p results fs)) = None \<longleftrightarrow> \<not> ea_joined ans"
  by (auto simp: execute_def execute_with_prev_data_def avm_call_def process_avm_result_def read_data_def Let_def split: prod.splits sum.splits)

text \<open>
  The interpreter is given what the store holds for this particle at this peer; what it returns is
  stored there before its effects are used, and a failed store discards the effects.
\<close>

definition prev_data_of :: "('vm, 'j, 'kp, 'e) aqua_api \<Rightarrow> particle_data_store \<Rightarrow> peer_id \<Rightarrow> particle \<Rightarrow> files \<Rightarrow> 8 word list" where
  "prev_data_of api ds peer p fs =
     (case fs (os_real (api_os api) (data_file (api_bs58 api) ds (particle_id p) peer (signature p))) of Some b \<Rightarrow> b | None \<Rightarrow> [])"

definition params_of :: "peer_id \<Rightarrow> particle \<Rightarrow> particle_parameters" where
  "params_of peer p = \<lparr>prm_current_peer_id = peer, prm_init_peer_id = init_peer_id p, prm_particle_id = particle_id p,
     prm_timestamp = timestamp p, prm_ttl = ttl p\<rparr>"

lemma execute_stores:
  assumes "ea_joined ans" "ea_read_fail ans = None" "ea_store_write ans = FileWritten"
    and "vm_call api vm (script p) (prev_data_of api ds peer p fs) (data p) (params_of peer p) results kp = (Inr out, vm')"
  shows "\<exists>fs'. execute api ans ds vm peer kp p results fs
      = (\<lparr>fr_runtime = Some vm', fr_effects = into_effects (peer_from_str api) (Inr out),
          fr_stats = \<lparr>interpretation_time = ea_time ans, memory_delta = vm_memory_size api vm' - vm_memory_size api vm,
            new_data_len = Some (length (avm_data out)), stats_success = True\<rparr>\<rparr>, fs')
    \<and> prev_data_of api ds peer p fs' = avm_data out"
  using assms by (auto simp: execute_def execute_with_prev_data_def avm_call_def process_avm_result_def read_data_def
      prev_data_of_def params_of_def store_data_def Let_def)

lemma execute_store_failed:
  assumes "ea_joined ans" "ea_read_fail ans = None" "ea_store_write ans = FileNotWritten e left"
    and "vm_call api vm (script p) (prev_data_of api ds peer p fs) (data p) (params_of peer p) results kp = (Inr out, vm')"
  shows "fst (execute api ans ds vm peer kp p results fs) = \<lparr>fr_runtime = Some vm', fr_effects = effects_empty, fr_stats = stats_failed\<rparr>"
  using assms by (auto simp: execute_def execute_with_prev_data_def avm_call_def process_avm_result_def read_data_def
      prev_data_of_def params_of_def store_data_def Let_def)

section \<open>The life of an actor\<close>

datatype ('vm, 'j, 'f, 'e) actor_event =
    EvIngest particle
  | EvSetFunction 'f
  | EvPollCompleted "(nat \<times> ('j, 'f) call_answers) list" "'e execution_answers option"
  | EvPollNext "(nat \<times> ('j, 'f) call_answers) list" nat 'vm

text \<open>
  What the actor did: it started an execution with a particle of the mailbox, or with the memoized one,
  handing over the results of the calls with these numbers; or an execution ended and requested calls
  with these numbers.
\<close>

datatype actor_log = LogStarted "particle option" "u32 list" | LogCompleted "u32 list"

fun actor_step ::
    "('vm, 'j, 'kp, 'e) aqua_api \<Rightarrow> particle_data_store \<Rightarrow> ('vm, 'j, 'f, 'e) actor_event
      \<Rightarrow> ('vm, 'j, 'f, 'kp) actor \<times> files \<times> actor_log list \<Rightarrow> ('vm, 'j, 'f, 'kp) actor \<times> files \<times> actor_log list" where
  "actor_step api ds (EvIngest p) (a, fs, log) = (fst (actor_ingest p a), fs, log)"
| "actor_step api ds (EvSetFunction f) (a, fs, log) = (actor_set_function f a, fs, log)"
| "actor_step api ds (EvPollCompleted calls ready) (a, fs, log) =
     (case poll_completed api ds calls ready a fs of
        (None, a', fs') \<Rightarrow> (a', fs', log)
      | (Some _, a', fs') \<Rightarrow> (a', fs', log @ [LogCompleted (map function_call_id
            (drop (length (function_calls (functions_poll (api_text api) calls (ac_functions a)))) (function_calls (ac_functions a'))))]))"
| "actor_step api ds (EvPollNext calls vm_id vm) (a, fs, log) =
     (case poll_next api calls vm_id vm a of
        (ActorVm _ _, a') \<Rightarrow> (a', fs, log)
      | (ActorExecuting _, a') \<Rightarrow>
          (a', fs, log @ [LogStarted (case ac_mailbox a of [] \<Rightarrow> None | p # _ \<Rightarrow> Some p)
             (case ac_future a' of Some task \<Rightarrow> map fst (task_calls task) | None \<Rightarrow> [])]))"

definition actor_run ::
    "('vm, 'j, 'kp, 'e) aqua_api \<Rightarrow> particle_data_store \<Rightarrow> ('vm, 'j, 'f, 'e) actor_event list \<Rightarrow> ('vm, 'j, 'f, 'kp) actor \<Rightarrow> files
      \<Rightarrow> ('vm, 'j, 'f, 'kp) actor \<times> files \<times> actor_log list" where
  "actor_run api ds es a fs = fold (actor_step api ds) es (a, fs, [])"

fun ingested :: "('vm, 'j, 'f, 'e) actor_event list \<Rightarrow> particle list" where
  "ingested [] = []"
| "ingested (EvIngest p # es) = p # ingested es"
| "ingested (_ # es) = ingested es"

fun taken :: "actor_log list \<Rightarrow> particle list" where
  "taken [] = []"
| "taken (LogStarted (Some p) _ # l) = p # taken l"
| "taken (_ # l) = taken l"

fun requested :: "actor_log list \<Rightarrow> u32 list" where
  "requested [] = []"
| "requested (LogCompleted ids # l) = ids @ requested l"
| "requested (_ # l) = requested l"

fun delivered :: "actor_log list \<Rightarrow> u32 list" where
  "delivered [] = []"
| "delivered (LogStarted _ ids # l) = ids @ delivered l"
| "delivered (_ # l) = delivered l"

text \<open>Starts and ends alternate; the result says whether an execution is under way.\<close>

fun busy_after :: "bool \<Rightarrow> actor_log list \<Rightarrow> bool option" where
  "busy_after b [] = Some b"
| "busy_after b (LogStarted _ _ # l) = (if b then None else busy_after True l)"
| "busy_after b (LogCompleted _ # l) = (if b then busy_after False l else None)"

lemma ingested_append [simp]: "ingested (es @ es') = ingested es @ ingested es'"
  by (induction es rule: ingested.induct) auto

lemma taken_append [simp]: "taken (l @ l') = taken l @ taken l'"
  by (induction l rule: taken.induct) auto

lemma requested_append [simp]: "requested (l @ l') = requested l @ requested l'"
  by (induction l rule: requested.induct) auto

lemma delivered_append [simp]: "delivered (l @ l') = delivered l @ delivered l'"
  by (induction l rule: delivered.induct) auto

lemma busy_after_append: "busy_after b (l @ l') = Option.bind (busy_after b l) (\<lambda>b'. busy_after b' l')"
  by (induction b l rule: busy_after.induct) auto

text \<open>What holds of the state of a run, given what has been put into the mailbox.\<close>

definition actor_run_inv :: "particle list \<Rightarrow> ('vm, 'j, 'f, 'kp) actor \<Rightarrow> actor_log list \<Rightarrow> bool" where
  "actor_run_inv ps a log \<longleftrightarrow> ps = taken log @ ac_mailbox a \<and> busy_after False log = Some (is_executing a)
     \<and> (distinct (requested log) \<longrightarrow> functions_ok (ac_functions a)
          \<and> mset (requested log) = mset (delivered log) + outstanding (ac_functions a))"

lemma poll_completed_pending:
  "poll_completed api ds calls ready a fs = (None, a', fs') \<Longrightarrow>
     a' = a\<lparr>ac_waker := True, ac_functions := functions_poll (api_text api) calls (ac_functions a)\<rparr>"
  by (auto simp: poll_completed_def poll_avm_future_def split: option.splits prod.splits)

lemma poll_completed_ready:
  assumes "poll_completed api ds calls ready a fs = (Some r, a', fs')"
  obtains reqs task where "ac_future a = Some task" "a' = a\<lparr>ac_waker := True, ac_future := None,
      ac_functions := functions_execute reqs (functions_poll (api_text api) calls (ac_functions a))\<rparr>"
  using assms by (auto simp: poll_completed_def poll_avm_future_def split: option.splits prod.splits)

lemma actor_run_inv_completed:
  assumes inv: "actor_run_inv ps a log" and r: "poll_completed api ds calls ready a fs = (Some r, a', fs')"
    and e: "actor_step api ds (EvPollCompleted calls ready) (a, fs, log) = (a', fs', log')"
  shows "actor_run_inv ps a' log'"
proof -
  let ?f = "functions_poll (api_text api) calls (ac_functions a)"
  obtain reqs task where t: "ac_future a = Some task" "a' = a\<lparr>ac_waker := True, ac_future := None, ac_functions := functions_execute reqs ?f\<rparr>"
    using poll_completed_ready [OF r] .
  have l: "log' = log @ [LogCompleted (map fst reqs)]"
    using e r by (simp add: t(2) functions_execute_def comp_def case_prod_beta)
  have "functions_ok (functions_execute reqs ?f)
      \<and> mset (requested log') = mset (delivered log') + outstanding (functions_execute reqs ?f)" if d: "distinct (requested log')"
  proof -
    have "distinct (requested log)" "hm_ok reqs" and ap: "fst ` set reqs \<inter> set (requested log) = {}"
      using d by (auto simp: l hm_ok_def)
    then have i: "functions_ok (ac_functions a)" "mset (requested log) = mset (delivered log) + outstanding (ac_functions a)"
      using inv by (simp_all add: actor_run_inv_def)
    have p: "outstanding ?f = outstanding (ac_functions a)" "functions_ok ?f" using functions_poll_ok [OF i(1)] by simp_all
    have "set_mset (outstanding ?f) \<subseteq> set (requested log)" unfolding p(1) using i(2) by (metis mset_subset_eq_add_right set_mset_mono set_mset_mset)
    then have "\<forall>x \<in> fst ` set reqs. x \<notin># outstanding ?f" using ap by blast
    then show ?thesis using functions_execute_ok [OF p(2) \<open>hm_ok reqs\<close>] i(2) p(1) by (simp add: outstanding_execute l)
  qed
  then show ?thesis using inv t by (simp add: actor_run_inv_def l busy_after_append is_executing_def)
qed

lemma poll_next_idle:
  "poll_next api calls vm_id vm a = (ActorVm i w, a') \<Longrightarrow> i = vm_id \<and> w = vm \<and> ac_mailbox a' = ac_mailbox a \<and> ac_future a' = ac_future a
     \<and> (functions_ok (ac_functions a) \<longrightarrow> functions_ok (ac_functions a') \<and> outstanding (ac_functions a') = outstanding (ac_functions a))"
  using functions_drain_ok [OF conjunct2 [OF functions_poll_ok], of "ac_functions a" "api_text api" calls]
  by (auto simp: poll_next_def is_executing_def Let_def functions_poll_ok split: if_splits prod.splits list.splits)

lemma poll_next_started:
  assumes "poll_next api calls vm_id vm a = (ActorExecuting st, a')"
  shows "ac_future a = None"
    and "\<exists>task. ac_future a' = Some task \<and> task_vm_id task = vm_id \<and> task_vm task = vm
      \<and> (functions_ok (ac_functions a) \<longrightarrow> functions_ok (ac_functions a')
           \<and> outstanding (ac_functions a) = outstanding (ac_functions a') + mset (map fst (task_calls task)))
      \<and> (case ac_mailbox a of [] \<Rightarrow> ac_mailbox a' = [] \<and> task_particle task = ac_particle a
          | p # ps \<Rightarrow> ac_mailbox a' = ps \<and> task_particle task = p)"
  using assms functions_drain_ok [OF conjunct2 [OF functions_poll_ok], of "ac_functions a" "api_text api" calls]
  by (auto simp: poll_next_def is_executing_def Let_def functions_poll_ok split: if_splits prod.splits list.splits)

lemma actor_step_inv:
  assumes inv: "actor_run_inv ps a log" and e: "actor_step api ds ev (a, fs, log) = (a', fs', log')"
  shows "actor_run_inv (ps @ ingested [ev]) a' log'"
proof (cases ev)
  case (EvIngest p)
  then show ?thesis using inv e by (auto simp: actor_ingest_def actor_run_inv_def is_executing_def)
next
  case (EvSetFunction f)
  then show ?thesis using inv e by (auto simp: actor_set_function_def actor_run_inv_def is_executing_def functions_set_function_ok)
next
  case (EvPollCompleted calls ready)
  obtain r a2 fs2 where r: "poll_completed api ds calls ready a fs = (r, a2, fs2)" by (cases "poll_completed api ds calls ready a fs") auto
  show ?thesis
  proof (cases r)
    case None
    then have "a' = a\<lparr>ac_waker := True, ac_functions := functions_poll (api_text api) calls (ac_functions a)\<rparr>" "log' = log"
      using poll_completed_pending r e EvPollCompleted by auto
    then show ?thesis using inv functions_poll_ok EvPollCompleted by (fastforce simp: actor_run_inv_def is_executing_def)
  next
    case (Some x)
    then show ?thesis using actor_run_inv_completed [OF inv r [unfolded Some], of log'] r e EvPollCompleted by auto
  qed
next
  case (EvPollNext calls vm_id vm)
  obtain r a2 where r: "poll_next api calls vm_id vm a = (r, a2)" by (cases "poll_next api calls vm_id vm a")
  show ?thesis
  proof (cases r)
    case (ActorVm i w)
    then show ?thesis using inv e EvPollNext r poll_next_idle [OF r [unfolded ActorVm]] by (auto simp: actor_run_inv_def is_executing_def)
  next
    case (ActorExecuting st)
    note s = poll_next_started [OF r [unfolded ActorExecuting]]
    obtain task where t: "ac_future a2 = Some task"
      "functions_ok (ac_functions a) \<longrightarrow> functions_ok (ac_functions a2)
         \<and> outstanding (ac_functions a) = outstanding (ac_functions a2) + mset (map fst (task_calls task))"
      "case ac_mailbox a of [] \<Rightarrow> ac_mailbox a2 = [] \<and> task_particle task = ac_particle a | p # ps \<Rightarrow> ac_mailbox a2 = ps \<and> task_particle task = p"
      using s(2) by blast
    then show ?thesis using inv e EvPollNext r ActorExecuting s(1)
      by (auto simp: actor_run_inv_def is_executing_def busy_after_append split: list.splits)
  qed
qed

section \<open>Properties\<close>



section \<open>Examples\<close>

definition demo_request :: "string call_request_params" where
  "demo_request = \<lparr>crp_service_id = ''op'', crp_function_name = ''noop'', crp_arguments = [], crp_tetraplets = []\<rparr>"

definition demo_outcome :: "string raw_avm_outcome" where
  "demo_outcome = \<lparr>avm_ret_code = 0, avm_data = [9], avm_call_requests = [(1, demo_request)], avm_next_peer_pks = [''other''],
     avm_limits_exceeded = False\<rparr>"

text \<open>An interpreter that always requests one call and a machine whose memory never grows.\<close>

definition demo_api :: "(nat, string, string, unit) aqua_api" where
  "demo_api = \<lparr>vm_call = (\<lambda>vm _ _ _ _ _ _. (Inr demo_outcome, vm + 1)), vm_memory_size = (\<lambda>_. 0), peer_from_str = Inr,
     api_bs58 = demo_base58, api_os = demo_os,
     api_json = \<lparr>aj_params = (\<lambda>_. Inr []), aj_results = (\<lambda>_. Inr []), aj_outcome = (\<lambda>_. Inr []), aj_anomaly = (\<lambda>_. Inr [])\<rparr>,
     api_text = id\<rparr>"

definition demo_execution :: "unit execution_answers" where
  "demo_execution = \<lparr>ea_joined = True, ea_time = 5, ea_read_fail = None, ea_anomaly_now = ''0'', ea_anomaly_read_fail = None,
     ea_anomaly_mkdir = None, ea_anomaly_write = FileWritten, ea_store_write = FileWritten\<rparr>"

definition demo_call :: "(string, unit) call_answers" where
  "demo_call = \<lparr>ca_builtins = (\<lambda>_ _. OutcomeOk ''done''), ca_function = (\<lambda>_ _ _. OutcomeEmpty), ca_call_time = 1, ca_wait_time = 1,
     ca_show_error = (\<lambda>_. '''')\<rparr>"

lemma demo_no_anomaly: "detect_anomaly 5 0 demo_outcome = False"
  by (simp add: detect_anomaly_def detect_mem_limits_anomaly_def demo_outcome_def EXECUTION_TIME_THRESHOLD_def MEMORY_DELTA_BYTES_THRESHOLD_def)

lemma demo_execute:
  "fst (execute demo_api demo_execution ds vm peer kp p results fs) =
     \<lparr>fr_runtime = Some (vm + 1), fr_effects = \<lparr>new_data = [9], next_peers = [''other''], call_requests = [(1, demo_request)]\<rparr>,
      fr_stats = \<lparr>interpretation_time = 5, memory_delta = 0, new_data_len = Some 1, stats_success = True\<rparr>\<rparr>"
  by (simp add: execute_def read_data_def execute_with_prev_data_def avm_call_def process_avm_result_def demo_api_def demo_execution_def
      store_data_def demo_no_anomaly into_effects_def parse_outcome_def parse_peer_id_def Let_def)
     (simp add: demo_outcome_def parse_peer_id_def)

definition demo_events :: "particle \<Rightarrow> (nat, string, unit, unit) actor_event list" where
  "demo_events p = [EvIngest p, EvIngest (p\<lparr>data := [1]\<rparr>), EvPollNext [] 0 7, EvPollCompleted [] (Some demo_execution),
     EvPollNext [(0, demo_call)] 0 8]"

lemma demo_run:
  "\<exists>a fs'. actor_run demo_api demo_store (demo_events p) (actor_new p (functions_new (clone_from p ScopeHost ''t'')) ''host'' ''t'' ''kp'' None) Map.empty
      = (a, fs', [LogStarted (Some p) [], LogCompleted [1], LogStarted (Some (p\<lparr>data := [1]\<rparr>)) [1]])
    \<and> ac_mailbox a = [] \<and> is_executing a"
proof -
  have t: "api_text demo_api = id" by (simp add: demo_api_def)
  show ?thesis
    by (simp add: actor_run_def demo_events_def actor_ingest_def poll_next_def actor_new_def is_executing_def functions_drain_def functions_new_def
        poll_completed_def poll_avm_future_def t Let_def split_beta demo_execute functions_execute_def functions_call_def args_try_from_def
        functions_take_def hm_insert_def demo_call_def call_outcome_def)
qed



end
