(* ===== verification/Vm_Pool.thy ===== *)
theory Vm_Pool
  imports Nox_Prelude
begin

text \<open>
  The pool of interpreter instances, \<^verbatim>\<open>aquamarine/src/vm_pool.rs\<close>.  A virtual machine is a value of
  \<open>'rt\<close>; a future that creates one is known by the slot it is for, and what it answers when it is
  polled is an argument.  Metrics and health reports are left out.
\<close>

section \<open>The pool\<close>

datatype ('rt, 'e) avm_result = AvmReady 'rt | AvmFailed 'e | AvmPending

record 'rt vm_pool =
  vp_runtimes :: "'rt option list"
  vp_creating :: "nat list option"
  vp_pool_size :: nat

definition vm_pool_new :: "nat \<Rightarrow> 'rt vm_pool" where
  "vm_pool_new n = \<lparr>vp_runtimes = replicate n None, vp_creating = None, vp_pool_size = n\<rparr>"

definition free_vms :: "'rt vm_pool \<Rightarrow> nat" where
  "free_vms vp = length (vp_runtimes vp)"

text \<open>The first slot that holds a machine is emptied.\<close>

fun take_first :: "nat \<Rightarrow> 'rt option list \<Rightarrow> (nat \<times> 'rt) option \<times> 'rt option list" where
  "take_first i [] = (None, [])"
| "take_first i (Some vm # vms) = (Some (i, vm), None # vms)"
| "take_first i (None # vms) = (case take_first (i + 1) vms of (r, vms') \<Rightarrow> (r, None # vms'))"

definition get_vm :: "'rt vm_pool \<Rightarrow> (nat \<times> 'rt) option \<times> 'rt vm_pool" where
  "get_vm vp = (case take_first 0 (vp_runtimes vp) of (r, vms) \<Rightarrow> (r, vp\<lparr>vp_runtimes := vms\<rparr>))"

text \<open>
  \<^verbatim>\<open>put_vm\<close> panics when the slot does not exist, and in builds with debug assertions also when it is not
  empty; \<open>None\<close> is either panic.
\<close>

definition put_vm :: "nat \<Rightarrow> 'rt \<Rightarrow> 'rt vm_pool \<Rightarrow> 'rt vm_pool option" where
  "put_vm i vm vp =
     (if i < length (vp_runtimes vp) \<and> vp_runtimes vp ! i = None
      then Some (vp\<lparr>vp_runtimes := (vp_runtimes vp)[i := Some vm]\<rparr>) else None)"

definition recreate_avm :: "nat \<Rightarrow> 'rt vm_pool \<Rightarrow> 'rt vm_pool" where
  "recreate_avm i vp =
     (case vp_creating vp of None \<Rightarrow> vp | Some fs \<Rightarrow> vp\<lparr>vp_creating := Some (fs @ [i])\<rparr>)"

text \<open>
  The loop over the futures: one that is ready is removed, and the index moves on all the same, so
  the future after it is not polled in this round.  \<open>None\<close> is the panic for a slot that does not exist.
  The last component says whether the task wakes itself.
\<close>

function vm_pool_loop ::
    "(nat \<Rightarrow> ('rt, 'e) avm_result) \<Rightarrow> nat \<Rightarrow> nat list \<Rightarrow> 'rt option list \<Rightarrow> bool
      \<Rightarrow> (nat list \<times> 'rt option list \<times> bool) option" where
  "vm_pool_loop answer k fs vms awake =
     (if k < length fs
      then (case answer (fs ! k) of
              AvmPending \<Rightarrow> vm_pool_loop answer (k + 1) fs vms awake
            | AvmReady vm \<Rightarrow>
                (if fs ! k < length vms
                 then vm_pool_loop answer (k + 1) (take k fs @ drop (k + 1) fs) (vms[fs ! k := Some vm]) True
                 else None)
            | AvmFailed e \<Rightarrow> vm_pool_loop answer (k + 1) (take k fs @ drop (k + 1) fs) vms True)
      else Some (fs, vms, awake))"
  by pat_completeness auto

termination
  by (relation "measure (\<lambda>(answer, k, fs, vms, awake). length fs - k)") auto

declare vm_pool_loop.simps [simp del]

definition vm_pool_poll ::
    "(nat \<Rightarrow> ('rt, 'e) avm_result) \<Rightarrow> 'rt vm_pool \<Rightarrow> ('rt vm_pool \<times> bool) option" where
  "vm_pool_poll answer vp =
     (let fs = (case vp_creating vp of None \<Rightarrow> [0..<vp_pool_size vp] | Some fs \<Rightarrow> fs)
      in map_option (\<lambda>(fs', vms, awake). (vp\<lparr>vp_creating := Some fs', vp_runtimes := vms\<rparr>, awake))
           (vm_pool_loop answer 0 fs (vp_runtimes vp) False))"

section \<open>Where the slots are\<close>

text \<open>The slots that hold a machine, and those for which one is being created.\<close>

definition free_slots :: "'rt vm_pool \<Rightarrow> nat set" where
  "free_slots vp = {i. i < length (vp_runtimes vp) \<and> vp_runtimes vp ! i \<noteq> None}"

definition creating_slots :: "'rt vm_pool \<Rightarrow> nat list" where
  "creating_slots vp = (case vp_creating vp of None \<Rightarrow> [0..<vp_pool_size vp] | Some fs \<Rightarrow> fs)"

text \<open>Well-formed: a slot is not both filled and being filled, and no slot is being filled twice.\<close>

definition vm_pool_ok :: "'rt vm_pool \<Rightarrow> bool" where
  "vm_pool_ok vp \<longleftrightarrow> length (vp_runtimes vp) = vp_pool_size vp \<and> distinct (creating_slots vp)
     \<and> set (creating_slots vp) \<subseteq> {..<vp_pool_size vp} \<and> set (creating_slots vp) \<inter> free_slots vp = {}"

lemma vm_pool_new_ok: "vm_pool_ok (vm_pool_new n) \<and> free_slots (vm_pool_new n) = {}"
  by (auto simp: vm_pool_ok_def vm_pool_new_def creating_slots_def free_slots_def)

lemma take_first_None: "take_first i vms = (None, vms') \<Longrightarrow> vms' = vms \<and> (\<forall>k < length vms. vms ! k = None)"
  by (induction i vms arbitrary: vms' rule: take_first.induct) (auto simp: less_Suc_eq_0_disj split: prod.splits)

lemma take_first_Some:
  "take_first i vms = (Some (j, vm), vms') \<Longrightarrow>
     i \<le> j \<and> j - i < length vms \<and> vms ! (j - i) = Some vm \<and> vms' = vms[j - i := None] \<and> (\<forall>k < j - i. vms ! k = None)"
proof (induction i vms arbitrary: j vms' rule: take_first.induct)
  case (3 i vms)
  obtain r vms2 where t: "take_first (i + 1) vms = (r, vms2)" by (cases "take_first (i + 1) vms")
  then have e: "r = Some (j, vm)" "vms' = None # vms2" using "3.prems" by auto
  have h: "i + 1 \<le> j \<and> j - (i + 1) < length vms \<and> vms ! (j - (i + 1)) = Some vm \<and> vms2 = vms[j - (i + 1) := None]
      \<and> (\<forall>k < j - (i + 1). vms ! k = None)" using "3.IH" [of j vms2] t e by simp
  then have "j - i = Suc (j - (i + 1))" by arith
  then show ?case using h e by (auto simp: less_Suc_eq_0_disj)
qed auto

lemma get_vm_Some:
  assumes "get_vm vp = (Some (i, vm), vp')"
  shows "i < length (vp_runtimes vp)" "vp_runtimes vp ! i = Some vm" "vp' = vp\<lparr>vp_runtimes := (vp_runtimes vp)[i := None]\<rparr>"
    "\<forall>k < i. k \<notin> free_slots vp"
  using take_first_Some [of 0 "vp_runtimes vp" i vm] assms by (auto simp: get_vm_def free_slots_def split: prod.splits)

lemma get_vm_None: "get_vm vp = (None, vp') \<Longrightarrow> vp' = vp \<and> free_slots vp = {}"
  using take_first_None [of 0 "vp_runtimes vp"] by (auto simp: get_vm_def free_slots_def split: prod.splits)

lemma remove_nth:
  assumes "distinct xs" "k < length xs"
  shows "distinct (take k xs @ drop (k + 1) xs)" "set (take k xs @ drop (k + 1) xs) = set xs - {xs ! k}"
    "length (take k xs @ drop (k + 1) xs) = length xs - 1"
proof -
  have xs: "xs = take k xs @ xs ! k # drop (k + 1) xs" using assms(2) by (simp add: id_take_nth_drop)
  have d: "distinct (take k xs @ xs ! k # drop (k + 1) xs)" using assms(1) xs by simp
  show "distinct (take k xs @ drop (k + 1) xs)" using d by simp
  have "set xs = set (take k xs @ xs ! k # drop (k + 1) xs)" using xs by simp
  then show "set (take k xs @ drop (k + 1) xs) = set xs - {xs ! k}" using d by auto
  show "length (take k xs @ drop (k + 1) xs) = length xs - 1" using assms(2) by simp
qed

text \<open>
  A round removes only futures that completed, fills their slots, wakes the task exactly when it
  removed one, and removes at least one when one from the index on is complete.
\<close>

definition loop_post ::
    "(nat \<Rightarrow> ('rt, 'e) avm_result) \<Rightarrow> nat \<Rightarrow> nat list \<Rightarrow> 'rt option list \<Rightarrow> bool
      \<Rightarrow> nat list \<Rightarrow> 'rt option list \<Rightarrow> bool \<Rightarrow> bool" where
  "loop_post answer k fs vms awake fs' vms' awake' \<longleftrightarrow>
     length vms' = length vms \<and> distinct fs' \<and> set fs' \<subseteq> set fs
   \<and> (\<forall>i \<in> set fs. answer i = AvmPending \<longrightarrow> i \<in> set fs')
   \<and> (\<forall>i. vms' ! i = (if i \<in> set fs - set fs' then (case answer i of AvmReady vm \<Rightarrow> Some vm | _ \<Rightarrow> vms ! i) else vms ! i))
   \<and> (awake' \<longleftrightarrow> awake \<or> length fs' < length fs) \<and> length fs' \<le> length fs
   \<and> ((\<exists>j. k \<le> j \<and> j < length fs \<and> answer (fs ! j) \<noteq> AvmPending) \<longrightarrow> length fs' < length fs)"

lemma loop_post_removed:
  assumes "distinct fs" "k < length fs" "fs ! k < length vms" "answer (fs ! k) \<noteq> AvmPending"
    and vms2: "vms2 = (case answer (fs ! k) of AvmReady vm \<Rightarrow> vms[fs ! k := Some vm] | _ \<Rightarrow> vms)"
    and fs2: "fs2 = take k fs @ drop (k + 1) fs"
    and post: "loop_post answer (k + 1) fs2 vms2 True fs' vms' awake'"
  shows "loop_post answer k fs vms awake fs' vms' awake'"
proof -
  note r = remove_nth [OF assms(1,2), folded fs2]
  have lv: "length vms2 = length vms" by (simp add: vms2 split: avm_result.split)
  have sub: "set fs' \<subseteq> set fs" "fs ! k \<notin> set fs'" "length fs' < length fs"
    using post r assms(2) by (auto simp: loop_post_def)
  have "vms' ! i = (if i \<in> set fs - set fs' then (case answer i of AvmReady vm \<Rightarrow> Some vm | _ \<Rightarrow> vms ! i) else vms ! i)" for i
  proof (cases "i = fs ! k")
    case True
    have i: "i \<in> set fs - set fs'" "i \<notin> set fs2 - set fs'" using True assms(2) r(2) sub(2) by simp_all
    have "vms' ! i = vms2 ! i" using post i(2) unfolding loop_post_def by metis
    also have "\<dots> = (case answer i of AvmReady vm \<Rightarrow> Some vm | _ \<Rightarrow> vms ! i)"
      using True assms(3) by (simp add: vms2 split: avm_result.split)
    finally show ?thesis using i(1) by simp
  next
    case False
    have e: "vms2 ! i = vms ! i" using False by (simp add: vms2 split: avm_result.split)
    have m: "i \<in> set fs2 \<longleftrightarrow> i \<in> set fs" using False r(2) by simp
    have "vms' ! i = (if i \<in> set fs2 - set fs' then (case answer i of AvmReady vm \<Rightarrow> Some vm | _ \<Rightarrow> vms2 ! i) else vms2 ! i)"
      using post by (simp add: loop_post_def)
    then show ?thesis unfolding e Diff_iff m .
  qed
  moreover have "\<forall>i \<in> set fs. answer i = AvmPending \<longrightarrow> i \<in> set fs'"
    using post r(2) assms(4) unfolding loop_post_def by blast
  ultimately show ?thesis using post sub lv by (simp add: loop_post_def)
qed

lemma loop_post_pending:
  assumes "k < length fs" "answer (fs ! k) = AvmPending" "loop_post answer (k + 1) fs vms awake fs' vms' awake'"
  shows "loop_post answer k fs vms awake fs' vms' awake'"
proof -
  have "(\<exists>j. k \<le> j \<and> j < length fs \<and> answer (fs ! j) \<noteq> AvmPending) \<longrightarrow> (\<exists>j. k + 1 \<le> j \<and> j < length fs \<and> answer (fs ! j) \<noteq> AvmPending)"
    using assms(2) by (metis Suc_eq_plus1 Suc_leI le_neq_implies_less)
  then show ?thesis using assms(3) unfolding loop_post_def by blast
qed

lemma vm_pool_loop_post:
  "distinct fs \<Longrightarrow> set fs \<subseteq> {..<length vms} \<Longrightarrow>
     \<exists>fs' vms' awake'. vm_pool_loop answer k fs vms awake = Some (fs', vms', awake') \<and> loop_post answer k fs vms awake fs' vms' awake'"
proof (induction answer k fs vms awake rule: vm_pool_loop.induct)
  case (1 answer k fs vms awake)
  show ?case
  proof (cases "k < length fs")
    case False
    then show ?thesis using "1.prems" by (auto simp: loop_post_def vm_pool_loop.simps)
  next
    case True
    let ?fs = "take k fs @ drop (k + 1) fs"
    have lt: "fs ! k < length vms" using "1.prems" True nth_mem by blast
    note r = remove_nth [OF "1.prems"(1) True]
    have sub: "set ?fs \<subseteq> {..<length vms}" using r(2) "1.prems"(2) by blast
    show ?thesis
    proof (cases "answer (fs ! k)")
      case AvmPending
      obtain fs' vms' awake' where p: "vm_pool_loop answer (k + 1) fs vms awake = Some (fs', vms', awake')"
        "loop_post answer (k + 1) fs vms awake fs' vms' awake'" using "1.IH"(3) [OF True AvmPending "1.prems"] by blast
      have "loop_post answer k fs vms awake fs' vms' awake'" using True AvmPending p(2) by (rule loop_post_pending)
      then show ?thesis using p(1) True AvmPending by (subst vm_pool_loop.simps) auto
    next
      case (AvmReady vm)
      have s2: "set ?fs \<subseteq> {..<length (vms[fs ! k := Some vm])}" using sub by simp
      obtain fs' vms' awake' where p: "vm_pool_loop answer (k + 1) ?fs (vms[fs ! k := Some vm]) True = Some (fs', vms', awake')"
        "loop_post answer (k + 1) ?fs (vms[fs ! k := Some vm]) True fs' vms' awake'"
        using "1.IH"(1) [OF True AvmReady lt r(1) s2] by blast
      have "loop_post answer k fs vms awake fs' vms' awake'"
        by (rule loop_post_removed [OF "1.prems"(1) True lt _ _ refl]) (use AvmReady p(2) in simp_all)
      then show ?thesis using p(1) True lt AvmReady by (subst vm_pool_loop.simps) auto
    next
      case (AvmFailed e)
      obtain fs' vms' awake' where p: "vm_pool_loop answer (k + 1) ?fs vms True = Some (fs', vms', awake')"
        "loop_post answer (k + 1) ?fs vms True fs' vms' awake'"
        using "1.IH"(2) [OF True AvmFailed r(1) sub] by blast
      have "loop_post answer k fs vms awake fs' vms' awake'"
        by (rule loop_post_removed [OF "1.prems"(1) True lt _ _ refl]) (use AvmFailed p(2) in simp_all)
      then show ?thesis using p(1) True lt AvmFailed by (subst vm_pool_loop.simps) auto
    qed
  qed
qed

section \<open>The pool as slots\<close>

text \<open>
  What the pool promises, on the numbers of its slots: a slot is free (it holds a machine), a machine is
  being created for it, or neither, because its machine was taken or could not be created.
\<close>

record slots =
  sl_free :: "nat set"
  sl_creating :: "nat set"

definition slots_of :: "'rt vm_pool \<Rightarrow> slots" where
  "slots_of vp = \<lparr>sl_free = free_slots vp, sl_creating = set (creating_slots vp)\<rparr>"

definition spec_get :: "slots \<Rightarrow> nat option \<times> slots" where
  "spec_get s = (if sl_free s = {} then (None, s)
     else (Some (Min (sl_free s)), s\<lparr>sl_free := sl_free s - {Min (sl_free s)}\<rparr>))"

definition spec_put :: "nat \<Rightarrow> slots \<Rightarrow> slots" where
  "spec_put i s = s\<lparr>sl_free := insert i (sl_free s)\<rparr>"

definition spec_recreate :: "nat \<Rightarrow> slots \<Rightarrow> slots" where
  "spec_recreate i s = s\<lparr>sl_creating := insert i (sl_creating s)\<rparr>"

text \<open>A poll fills some slots whose machine is complete and gives up some whose creation failed.\<close>

definition spec_poll :: "(nat \<Rightarrow> ('rt, 'e) avm_result) \<Rightarrow> nat set \<Rightarrow> slots \<Rightarrow> slots" where
  "spec_poll answer fin s = s\<lparr>sl_creating := sl_creating s - fin,
     sl_free := sl_free s \<union> {i \<in> fin. \<exists>vm. answer i = AvmReady vm}\<rparr>"

lemma finite_free [simp]: "finite (free_slots vp)"
  by (rule finite_subset [of _ "{..<length (vp_runtimes vp)}"]) (auto simp: free_slots_def)

lemma free_slots_update:
  "i < length (vp_runtimes vp) \<Longrightarrow> free_slots (vp\<lparr>vp_runtimes := (vp_runtimes vp)[i := r]\<rparr>)
     = (if r = None then free_slots vp - {i} else insert i (free_slots vp))"
  by (auto simp: free_slots_def nth_list_update)

lemma creating_slots_update [simp]: "creating_slots (vp\<lparr>vp_runtimes := vms\<rparr>) = creating_slots vp"
  by (simp add: creating_slots_def split: option.split)

lemma get_vm_refines: "(map_option fst (fst (get_vm vp)), slots_of (snd (get_vm vp))) = spec_get (slots_of vp)"
proof (cases "get_vm vp")
  case (Pair r vp')
  show ?thesis
  proof (cases r)
    case None
    then show ?thesis using get_vm_None [of vp vp'] Pair by (simp add: spec_get_def slots_of_def)
  next
    case (Some p)
    then obtain i vm where r: "r = Some (i, vm)" by (cases p) auto
    note g = get_vm_Some [OF Pair [unfolded r]]
    have i: "i \<in> free_slots vp" using g(1,2) by (simp add: free_slots_def)
    have "Min (free_slots vp) = i" using g(4) i by (intro Min_eqI) (auto simp: not_le [symmetric])
    then show ?thesis using Pair r i free_slots_update [OF g(1), of None]
      by (auto simp: spec_get_def slots_of_def g(3))
  qed
qed

lemma put_vm_refines: "put_vm i vm vp = Some vp' \<Longrightarrow> slots_of vp' = spec_put i (slots_of vp)"
  using free_slots_update [of i vp "Some vm"] by (auto simp: put_vm_def spec_put_def slots_of_def split: if_splits)

lemma recreate_avm_refines:
  "vm_pool_ok vp \<Longrightarrow> i < vp_pool_size vp \<Longrightarrow> slots_of (recreate_avm i vp) = spec_recreate i (slots_of vp)"
  by (auto simp: recreate_avm_def spec_recreate_def slots_of_def creating_slots_def free_slots_def vm_pool_ok_def split: option.splits)

lemma vm_pool_poll_refines:
  assumes "vm_pool_ok vp"
  obtains vp' awake fin where "vm_pool_poll answer vp = Some (vp', awake)" "vm_pool_ok vp'" "vp_pool_size vp' = vp_pool_size vp"
    "slots_of vp' = spec_poll answer fin (slots_of vp)" "fin = set (creating_slots vp) - set (creating_slots vp')"
    "\<forall>i \<in> fin. answer i \<noteq> AvmPending" "awake \<longleftrightarrow> fin \<noteq> {}"
    "(\<exists>i \<in> set (creating_slots vp). answer i \<noteq> AvmPending) \<longrightarrow> fin \<noteq> {}"
proof -
  let ?fs = "creating_slots vp" and ?vms = "vp_runtimes vp"
  have pre: "distinct ?fs" "set ?fs \<subseteq> {..<length ?vms}" "set ?fs \<inter> free_slots vp = {}" "length ?vms = vp_pool_size vp"
    using assms by (simp_all add: vm_pool_ok_def)
  obtain fs' vms' awake' where l: "vm_pool_loop answer 0 ?fs ?vms False = Some (fs', vms', awake')"
    and post: "loop_post answer 0 ?fs ?vms False fs' vms' awake'" using vm_pool_loop_post [OF pre(1,2)] by blast
  define vp' where "vp' = vp\<lparr>vp_creating := Some fs', vp_runtimes := vms'\<rparr>"
  define fin where "fin = set ?fs - set fs'"
  have c: "creating_slots vp' = fs'" by (simp add: vp'_def creating_slots_def)
  have p: "vm_pool_poll answer vp = Some (vp', awake')"
    using l by (simp add: vm_pool_poll_def vp'_def creating_slots_def split: option.splits)
  have lens: "length vms' = length ?vms" "distinct fs'" "set fs' \<subseteq> set ?fs" "length fs' \<le> length ?fs"
    using post by (simp_all add: loop_post_def)
  have nth: "vms' ! i = (if i \<in> fin then (case answer i of AvmReady vm \<Rightarrow> Some vm | _ \<Rightarrow> ?vms ! i) else ?vms ! i)" for i
    using post by (simp add: loop_post_def fin_def)
  have nonfree: "?vms ! i = None" if "i \<in> fin" for i using that pre by (auto simp: fin_def free_slots_def)
  have dl: "i < length ?vms" if "i \<in> fin" for i using that pre(2) by (auto simp: fin_def)
  have free: "free_slots vp' = free_slots vp \<union> {i \<in> fin. \<exists>vm. answer i = AvmReady vm}"
  proof (intro set_eqI)
    fix i
    show "i \<in> free_slots vp' \<longleftrightarrow> i \<in> free_slots vp \<union> {i \<in> fin. \<exists>vm. answer i = AvmReady vm}"
      using nth [of i] nonfree [of i] dl [of i] by (cases "i \<in> fin"; cases "answer i") (auto simp: free_slots_def vp'_def lens(1))
  qed
  have len: "length fs' < length ?fs \<longleftrightarrow> fin \<noteq> {}"
  proof -
    have "length fs' = card (set fs')" "length ?fs = card (set ?fs)" using lens(2) pre(1) by (simp_all add: distinct_card)
    moreover have "card (set fs') < card (set ?fs) \<longleftrightarrow> set ?fs - set fs' \<noteq> {}"
      using lens(3) by (metis Diff_eq_empty_iff List.finite_set card_mono leD psubset_card_mono psubsetI subset_antisym)
    ultimately show ?thesis by (simp add: fin_def)
  qed
  have 1: "slots_of vp' = spec_poll answer fin (slots_of vp)"
    using lens(3) by (auto simp: slots_of_def spec_poll_def free c fin_def)
  have 2: "\<forall>i \<in> fin. answer i \<noteq> AvmPending" using post by (auto simp: loop_post_def fin_def)
  have 3: "awake' \<longleftrightarrow> fin \<noteq> {}" using post len by (simp add: loop_post_def)
  have 4: "(\<exists>i \<in> set ?fs. answer i \<noteq> AvmPending) \<longrightarrow> fin \<noteq> {}"
    using post len unfolding loop_post_def by (metis in_set_conv_nth le0)
  have 5: "vm_pool_ok vp'"
  proof -
    have "set fs' \<inter> free_slots vp' = {}" using free pre(3) lens(3) by (auto simp: fin_def)
    moreover have "length (vp_runtimes vp') = length vms'" "vp_pool_size vp' = vp_pool_size vp" by (simp_all add: vp'_def)
    ultimately show ?thesis using lens pre by (auto simp: vm_pool_ok_def c)
  qed
  show thesis by (rule that [OF p 5 _ 1 _ 2 3 4]) (simp_all add: vp'_def [symmetric] c fin_def, simp add: vp'_def)
qed

section \<open>A pool and those who hold its machines\<close>

text \<open>
  What a client relies on: machines that were taken can be put back, into slots nobody else holds.  The
  client's lemmas say that the pool and the set of slots whose machines are out never overlap.
\<close>

locale slot_pool =
  fixes inv :: "'p \<Rightarrow> bool" and size_of :: "'p \<Rightarrow> nat" and free creating :: "'p \<Rightarrow> nat set"
    and get :: "'p \<Rightarrow> (nat \<times> 'rt) option \<times> 'p" and put :: "nat \<Rightarrow> 'rt \<Rightarrow> 'p \<Rightarrow> 'p option"
    and recreate :: "nat \<Rightarrow> 'p \<Rightarrow> 'p"
  assumes apart: "inv p \<Longrightarrow> free p \<inter> creating p = {}"
    and get_None: "get p = (None, p') \<Longrightarrow> p' = p"
    and get_Some: "inv p \<Longrightarrow> get p = (Some (i, vm), p') \<Longrightarrow>
      inv p' \<and> size_of p' = size_of p \<and> i < size_of p \<and> i \<in> free p \<and> free p' = free p - {i} \<and> creating p' = creating p"
    and put_free: "inv p \<Longrightarrow> i < size_of p \<Longrightarrow> i \<notin> free p \<Longrightarrow> i \<notin> creating p \<Longrightarrow>
      \<exists>p'. put i vm p = Some p' \<and> inv p' \<and> size_of p' = size_of p \<and> free p' = insert i (free p) \<and> creating p' = creating p"
    and recreate_creating: "inv p \<Longrightarrow> i < size_of p \<Longrightarrow> i \<notin> free p \<Longrightarrow> i \<notin> creating p \<Longrightarrow>
      inv (recreate i p) \<and> size_of (recreate i p) = size_of p \<and> free (recreate i p) = free p
        \<and> creating (recreate i p) = insert i (creating p)"
begin

definition holds :: "'p \<Rightarrow> nat set \<Rightarrow> bool" where
  "holds p B \<longleftrightarrow> inv p \<and> B \<subseteq> {..<size_of p} \<and> B \<inter> free p = {} \<and> B \<inter> creating p = {}"

lemma holds_get:
  assumes "holds p B" "get p = (Some (i, vm), p')"
  shows "i \<notin> B \<and> holds p' (insert i B)"
proof -
  have "inv p" using assms(1) by (simp add: holds_def)
  note g = get_Some [OF this assms(2)] apart [OF this]
  then show ?thesis using assms(1) by (auto simp: holds_def)
qed

lemma holds_put:
  assumes "holds p B" "i \<in> B"
  shows "\<exists>p'. put i vm p = Some p' \<and> holds p' (B - {i})"
proof -
  have "inv p" "i < size_of p" "i \<notin> free p" "i \<notin> creating p" using assms by (auto simp: holds_def)
  from put_free [OF this, of vm] show ?thesis using assms by (auto simp: holds_def)
qed

lemma holds_recreate:
  assumes "holds p B" "i \<in> B"
  shows "holds (recreate i p) (B - {i})"
proof -
  have "inv p" "i < size_of p" "i \<notin> free p" "i \<notin> creating p" using assms by (auto simp: holds_def)
  from recreate_creating [OF this] show ?thesis using assms by (auto simp: holds_def)
qed

text \<open>Taking a machine and giving it back at once changes who holds what not at all.\<close>

lemma holds_get_put:
  assumes "holds p B" "get p = (Some (i, vm), p')"
  shows "\<exists>p''. put i vm' p' = Some p'' \<and> holds p'' B"
  using holds_put [OF conjunct2 [OF holds_get [OF assms]], of i vm'] holds_get [OF assms] by simp

end

lemma vm_pool_get_ok:
  assumes "vm_pool_ok vp" "get_vm vp = (Some (i, vm), vp')"
  shows "vm_pool_ok vp' \<and> vp_pool_size vp' = vp_pool_size vp \<and> i < vp_pool_size vp \<and> i \<in> free_slots vp
    \<and> free_slots vp' = free_slots vp - {i} \<and> set (creating_slots vp') = set (creating_slots vp)"
proof -
  note g = get_vm_Some [OF assms(2)]
  have f: "free_slots vp' = free_slots vp - {i}" using free_slots_update [OF g(1), of None] by (simp add: g(3))
  then show ?thesis using assms(1) g by (auto simp: vm_pool_ok_def free_slots_def)
qed

lemma vm_pool_put_ok:
  assumes "vm_pool_ok vp" "i < vp_pool_size vp" "i \<notin> free_slots vp" "i \<notin> set (creating_slots vp)"
  shows "\<exists>vp'. put_vm i vm vp = Some vp' \<and> vm_pool_ok vp' \<and> vp_pool_size vp' = vp_pool_size vp
    \<and> free_slots vp' = insert i (free_slots vp) \<and> set (creating_slots vp') = set (creating_slots vp)"
proof -
  let ?vp = "vp\<lparr>vp_runtimes := (vp_runtimes vp)[i := Some vm]\<rparr>"
  have l: "i < length (vp_runtimes vp)" using assms(1,2) by (simp add: vm_pool_ok_def)
  have f: "free_slots ?vp = insert i (free_slots vp)" using free_slots_update [OF l, of "Some vm"] by simp
  have "put_vm i vm vp = Some ?vp" using assms(3) l by (auto simp: put_vm_def free_slots_def)
  then show ?thesis using assms f by (intro exI [of _ ?vp]) (auto simp: vm_pool_ok_def)
qed

interpretation vms: slot_pool vm_pool_ok vp_pool_size free_slots "\<lambda>vp. set (creating_slots vp)" get_vm put_vm recreate_avm
proof unfold_locales
  show "free_slots vp \<inter> set (creating_slots vp) = {}" if "vm_pool_ok vp" for vp using that by (auto simp: vm_pool_ok_def)
  show "vp' = vp" if "get_vm vp = (None, vp')" for vp vp' using get_vm_None [OF that] by simp
  show "vm_pool_ok (recreate_avm i vp) \<and> vp_pool_size (recreate_avm i vp) = vp_pool_size vp
      \<and> free_slots (recreate_avm i vp) = free_slots vp \<and> set (creating_slots (recreate_avm i vp)) = insert i (set (creating_slots vp))"
    if "vm_pool_ok vp" "i < vp_pool_size vp" "i \<notin> free_slots vp" "i \<notin> set (creating_slots vp)" for vp i
    using that by (cases "vp_creating vp") (auto simp: recreate_avm_def vm_pool_ok_def creating_slots_def free_slots_def)
qed (fact vm_pool_get_ok, fact vm_pool_put_ok)

text \<open>Polling does not touch the machines that are out.\<close>

lemma vm_pool_poll_holds:
  assumes "vms.holds vp B"
  shows "\<exists>vp' awake. vm_pool_poll answer vp = Some (vp', awake) \<and> vms.holds vp' B"
proof -
  have ok: "vm_pool_ok vp" using assms by (simp add: vms.holds_def)
  obtain vp' awake fin where p: "vm_pool_poll answer vp = Some (vp', awake)" "vm_pool_ok vp'" "vp_pool_size vp' = vp_pool_size vp"
    and s: "slots_of vp' = spec_poll answer fin (slots_of vp)" "fin = set (creating_slots vp) - set (creating_slots vp')"
    by (rule vm_pool_poll_refines [OF ok, of answer])
  have "free_slots vp' \<subseteq> free_slots vp \<union> set (creating_slots vp)" "set (creating_slots vp') \<subseteq> set (creating_slots vp)"
    using s by (auto simp: slots_of_def spec_poll_def)
  then have "vms.holds vp' B" using assms p(2,3) by (auto simp: vms.holds_def)
  then show ?thesis using p(1) by blast
qed

lemma vm_pool_new_holds: "vms.holds (vm_pool_new n) {}"
  using vm_pool_new_ok by (auto simp: vms.holds_def)

section \<open>Polling until nothing completes\<close>

text \<open>The task polls the pool again for as long as the pool woke it.\<close>

primrec vm_pool_polls :: "(nat \<Rightarrow> ('rt, 'e) avm_result) \<Rightarrow> nat \<Rightarrow> 'rt vm_pool \<Rightarrow> ('rt vm_pool \<times> bool) option" where
  "vm_pool_polls answer 0 vp = Some (vp, True)"
| "vm_pool_polls answer (Suc n) vp =
     (case vm_pool_poll answer vp of None \<Rightarrow> None
      | Some (vp', awake) \<Rightarrow> if awake then vm_pool_polls answer n vp' else Some (vp', False))"

lemma vm_pool_polls_settle:
  assumes "vm_pool_ok vp" "length (creating_slots vp) < n"
  shows "\<exists>vp'. vm_pool_polls answer n vp = Some (vp', False) \<and> vm_pool_ok vp'
    \<and> set (creating_slots vp') = {i \<in> set (creating_slots vp). answer i = AvmPending}
    \<and> free_slots vp' = free_slots vp \<union> {i \<in> set (creating_slots vp). \<exists>vm. answer i = AvmReady vm}"
  using assms
proof (induction n arbitrary: vp)
  case (Suc n)
  obtain vp' awake fin where p: "vm_pool_poll answer vp = Some (vp', awake)" "vm_pool_ok vp'"
    and s: "slots_of vp' = spec_poll answer fin (slots_of vp)" and f: "fin = set (creating_slots vp) - set (creating_slots vp')"
    and np: "\<forall>i \<in> fin. answer i \<noteq> AvmPending" and aw: "awake \<longleftrightarrow> fin \<noteq> {}"
    and pr: "(\<exists>i \<in> set (creating_slots vp). answer i \<noteq> AvmPending) \<longrightarrow> fin \<noteq> {}"
    by (rule vm_pool_poll_refines [OF Suc.prems(1), of answer])
  have sl: "free_slots vp' = free_slots vp \<union> {i \<in> fin. \<exists>vm. answer i = AvmReady vm}"
    "set (creating_slots vp') = set (creating_slots vp) - fin" using s by (simp_all add: slots_of_def spec_poll_def)
  show ?case
  proof (cases "fin = {}")
    case True
    then have "\<forall>i \<in> set (creating_slots vp). answer i = AvmPending" using pr by blast
    then have "set (creating_slots vp') = {i \<in> set (creating_slots vp). answer i = AvmPending}"
      "free_slots vp' = free_slots vp \<union> {i \<in> set (creating_slots vp). \<exists>vm. answer i = AvmReady vm}"
      unfolding sl True by auto
    moreover have "vm_pool_polls answer (Suc n) vp = Some (vp', False)" using p(1) aw True by simp
    ultimately show ?thesis using p(2) by blast
  next
    case False
    have "set (creating_slots vp') \<subset> set (creating_slots vp)" using False f sl(2) by blast
    then have "card (set (creating_slots vp')) < card (set (creating_slots vp))" by (intro psubset_card_mono) simp_all
    then have "length (creating_slots vp') < n"
      using Suc.prems p(2) by (simp add: vm_pool_ok_def distinct_card)
    then obtain vp'' where "vm_pool_polls answer n vp' = Some (vp'', False)" "vm_pool_ok vp''"
      "set (creating_slots vp'') = {i \<in> set (creating_slots vp'). answer i = AvmPending}"
      "free_slots vp'' = free_slots vp' \<union> {i \<in> set (creating_slots vp'). \<exists>vm. answer i = AvmReady vm}"
      using Suc.IH [OF p(2)] by blast
    moreover from this have "vm_pool_polls answer (Suc n) vp = Some (vp'', False)" using p(1) aw False by simp
    moreover have "{i \<in> set (creating_slots vp'). answer i = AvmPending} = {i \<in> set (creating_slots vp). answer i = AvmPending}"
      unfolding sl(2) using np by blast
    moreover have "free_slots vp' \<union> {i \<in> set (creating_slots vp'). \<exists>vm. answer i = AvmReady vm}
        = free_slots vp \<union> {i \<in> set (creating_slots vp). \<exists>vm. answer i = AvmReady vm}"
      unfolding sl using f by blast
    ultimately show ?thesis by (intro exI [of _ vp'']) simp
  qed
qed simp

section \<open>Properties\<close>

text \<open>
  C9: the virtual machine pool refines a pool of slots.  Taking a machine takes the lowest free slot and
  fails only when there is none; putting one back frees its slot; recreating one adds its slot to those
  being filled; and polling a well-formed pool never panics, keeps it well-formed, moves exactly the
  slots of some completed creations out, frees those of them that succeeded, and reports to be awake
  exactly when it moved one.
\<close>

theorem vm_pool_refinement:
  assumes "vm_pool_ok vp"
  shows "(map_option fst (fst (get_vm vp)), slots_of (snd (get_vm vp))) = spec_get (slots_of vp)
    \<and> (\<forall>i vm vp'. put_vm i vm vp = Some vp' \<longrightarrow> slots_of vp' = spec_put i (slots_of vp))
    \<and> (\<forall>i < vp_pool_size vp. slots_of (recreate_avm i vp) = spec_recreate i (slots_of vp))
    \<and> (\<exists>vp' fin. vm_pool_poll answer vp = Some (vp', fin \<noteq> {}) \<and> vm_pool_ok vp'
         \<and> fin \<subseteq> sl_creating (slots_of vp) \<and> (\<forall>i \<in> fin. answer i \<noteq> AvmPending)
         \<and> slots_of vp' = spec_poll answer fin (slots_of vp))"
proof -
  obtain vp' awake fin where p: "vm_pool_poll answer vp = Some (vp', awake)" "vm_pool_ok vp'"
    "slots_of vp' = spec_poll answer fin (slots_of vp)" "fin = set (creating_slots vp) - set (creating_slots vp')"
    "\<forall>i \<in> fin. answer i \<noteq> AvmPending" "awake \<longleftrightarrow> fin \<noteq> {}"
    by (rule vm_pool_poll_refines [OF assms, of answer])
  have s: "fin \<subseteq> sl_creating (slots_of vp)" by (auto simp: p(4) slots_of_def)
  have q: "vm_pool_poll answer vp = Some (vp', fin \<noteq> {})" using p(1,6) by simp
  show ?thesis
  proof (intro conjI exI allI impI)
    show "(map_option fst (fst (get_vm vp)), slots_of (snd (get_vm vp))) = spec_get (slots_of vp)" by (rule get_vm_refines)
    show "slots_of vp2 = spec_put i (slots_of vp)" if "put_vm i vm vp = Some vp2" for i vm vp2 using that by (rule put_vm_refines)
    show "slots_of (recreate_avm i vp) = spec_recreate i (slots_of vp)" if "i < vp_pool_size vp" for i
      using assms that by (rule recreate_avm_refines)
  qed (fact q, fact p(2), fact s, fact p(5), fact p(3))
qed

definition demo_pool :: "nat vm_pool" where
  "demo_pool = \<lparr>vp_runtimes = [None, Some 7, None, None], vp_creating = Some [2, 0], vp_pool_size = 4\<rparr>"

lemma demo_pool_ok: "vm_pool_ok demo_pool"
  by (auto simp: vm_pool_ok_def demo_pool_def creating_slots_def free_slots_def less_Suc_eq numeral_eq_Suc)

theorem vm_pool_refinement_witness:
  "get_vm demo_pool = (Some (1, 7), demo_pool\<lparr>vp_runtimes := [None, None, None, None]\<rparr>)
   \<and> (Some 1, slots_of (snd (get_vm demo_pool))) = spec_get (slots_of demo_pool)"
proof -
  have g: "get_vm demo_pool = (Some (1, 7), demo_pool\<lparr>vp_runtimes := [None, None, None, None]\<rparr>)"
    by (simp add: get_vm_def demo_pool_def)
  then show ?thesis using conjunct1 [OF vm_pool_refinement [OF demo_pool_ok, of "\<lambda>_. AvmPending"]] by simp
qed

text \<open>
  C30: polling the pool settles.  Whatever the creations answer, a task that polls a well-formed pool for
  as long as the pool wakes it stops after at most one round more than there are creations; then exactly
  the pending creations are left, and exactly the successful ones have filled their slots, although a
  single round skips the creation that follows a completed one.
\<close>

theorem vm_pool_polling_settles:
  assumes "vm_pool_ok vp"
  shows "\<exists>vp'. vm_pool_polls answer (Suc (length (creating_slots vp))) vp = Some (vp', False) \<and> vm_pool_ok vp'
    \<and> set (creating_slots vp') = {i \<in> set (creating_slots vp). answer i = AvmPending}
    \<and> free_slots vp' = free_slots vp \<union> {i \<in> set (creating_slots vp). \<exists>vm. answer i = AvmReady vm}"
  using vm_pool_polls_settle [OF assms lessI] .

theorem vm_pool_polling_settles_witness:
  "map_option snd (vm_pool_poll (\<lambda>i. AvmReady i :: (nat, unit) avm_result) demo_pool) = Some True
   \<and> creating_slots (fst (the (vm_pool_poll (\<lambda>i. AvmReady i :: (nat, unit) avm_result) demo_pool))) = [0]
   \<and> (\<exists>vp'. vm_pool_polls (\<lambda>i. AvmReady i :: (nat, unit) avm_result) 3 demo_pool = Some (vp', False)
         \<and> free_slots vp' = free_slots demo_pool \<union> {2, 0})"
proof -
  have c: "creating_slots demo_pool = [2, 0]" by (simp add: creating_slots_def demo_pool_def)
  have "vm_pool_poll (\<lambda>i. AvmReady i :: (nat, unit) avm_result) demo_pool
      = Some (demo_pool\<lparr>vp_creating := Some [0], vp_runtimes := [None, Some 7, Some 2, None]\<rparr>, True)"
    by (simp add: vm_pool_poll_def demo_pool_def vm_pool_loop.simps)
  moreover from this have "creating_slots (fst (the (vm_pool_poll (\<lambda>i. AvmReady i :: (nat, unit) avm_result) demo_pool))) = [0]"
    by (simp add: creating_slots_def)
  moreover have "\<exists>vp'. vm_pool_polls (\<lambda>i. AvmReady i :: (nat, unit) avm_result) 3 demo_pool = Some (vp', False)
         \<and> free_slots vp' = free_slots demo_pool \<union> {2, 0}"
  proof -
    have s: "{i \<in> set [2, 0::nat]. \<exists>vm. (AvmReady i :: (nat, unit) avm_result) = AvmReady vm} = {2, 0}" by auto
    have n: "Suc (length [2, 0::nat]) = 3" by simp
    show ?thesis using vm_pool_polling_settles [OF demo_pool_ok, of "\<lambda>i. AvmReady i :: (nat, unit) avm_result", unfolded c s n] by blast
  qed
  ultimately show ?thesis by simp
qed

end
