(* ===== verification/Plumber.thy ===== *)
theory Plumber
  imports Aqua_Actor Vm_Pool Workers
begin

text \<open>
  The plumber, \<^verbatim>\<open>aquamarine/src/plumber.rs\<close>: it keeps an actor for every signature, for the host and for
  each worker, lends them virtual machines from the pool of the host or the worker, routes what
  executions ask to send, and cleans up expired actors.  What futures answer during a poll is an
  argument; metrics are left out, and so are the tasks that \<^verbatim>\<open>add_service\<close> and \<^verbatim>\<open>remove_service\<close> spawn on
  the builtins.
\<close>

section \<open>State\<close>

datatype 'e aquamarine_api_error =
    ApiParticleExpired string
  | ApiOneshotCancelled string
  | ApiAquamarineDied "string option"
  | ApiExecutionTimedOut string nat
  | ApiAquamarineQueueFull "string option"
  | ApiSignatureVerificationFailed string "'e particle_error"
  | ApiWorkerIsNotActive string string

fun into_particle_id :: "'e aquamarine_api_error \<Rightarrow> string option" where
  "into_particle_id (ApiParticleExpired i) = Some i"
| "into_particle_id (ApiOneshotCancelled i) = Some i"
| "into_particle_id (ApiExecutionTimedOut i _) = Some i"
| "into_particle_id (ApiWorkerIsNotActive _ i) = Some i"
| "into_particle_id (ApiSignatureVerificationFailed _ _) = None"
| "into_particle_id (ApiAquamarineDied i) = i"
| "into_particle_id (ApiAquamarineQueueFull i) = i"

definition MAX_CLEANUP_KEYS_SIZE :: nat where
  "MAX_CLEANUP_KEYS_SIZE = 1024"

text \<open>An actor's key is the signature of its particle.\<close>

type_synonym actor_key = "8 word list"
type_synonym ('vm, 'j, 'f, 'kp) actors = "(actor_key, ('vm, 'j, 'f, 'kp) actor) hash_map"

text \<open>\<open>pl_files\<close> is the data store's disk; \<open>pl_awake\<close> says whether the polling task was woken since it last began to poll.\<close>

record ('vm, 'j, 'f, 'kp, 'e) plumber =
  pl_events :: "('e aquamarine_api_error + remote_routing_effects) list"
  pl_host_actors :: "('vm, 'j, 'f, 'kp) actors"
  pl_host_vm_pool :: "'vm vm_pool"
  pl_worker_actors :: "(worker_id, ('vm, 'j, 'f, 'kp) actors) hash_map"
  pl_worker_vm_pools :: "(worker_id, 'vm vm_pool) hash_map"
  pl_waker :: bool
  pl_cleanup_future :: "cleanup_key list option"
  pl_files :: files
  pl_awake :: bool

text \<open>What the plumber shares with the rest of the node.\<close>

record ('vm, 'j, 'kp, 'pk, 'e, 'rt, 's) plumber_env =
  en_api :: "('vm, 'j, 'kp, 'e) aqua_api"
  en_sign :: "('kp, 'pk, 'e) sign_api"
  en_store :: particle_data_store
  en_workers :: "('kp, 'rt, 's) workers"
  en_key_storage :: "'kp key_storage"
  en_scopes :: "'kp peer_scopes"

definition plumber_new :: "'vm vm_pool \<Rightarrow> files \<Rightarrow> ('vm, 'j, 'f, 'kp, 'e) plumber" where
  "plumber_new vp fs =
     \<lparr>pl_events = [], pl_host_actors = [], pl_host_vm_pool = vp, pl_worker_actors = [], pl_worker_vm_pools = [],
      pl_waker = False, pl_cleanup_future = None, pl_files = fs, pl_awake = False\<rparr>"

definition pl_wake :: "('vm, 'j, 'f, 'kp, 'e) plumber \<Rightarrow> ('vm, 'j, 'f, 'kp, 'e) plumber" where
  "pl_wake pl = pl\<lparr>pl_awake := pl_awake pl \<or> pl_waker pl\<rparr>"

section \<open>Taking particles in\<close>

datatype 'e plumber_error = NoDeal worker_id | NoRuntimeHandle worker_id | NoKeyPair peer_scope | NoParticleToken 'e

definition get_particle_token :: "('kp, 'pk, 'e) sign_api \<Rightarrow> (8 word list \<Rightarrow> string) \<Rightarrow> 'kp \<Rightarrow> 8 word list \<Rightarrow> 'e plumber_error + string" where
  "get_particle_token api bs58 kp sig =
     (case sa_sign api kp sig of Inl e \<Rightarrow> Inl (NoParticleToken e) | Inr token \<Rightarrow> Inr (bs58 token))"

definition create_actor ::
    "('vm, 'j, 'kp, 'pk, 'e, 'rt, 's) plumber_env \<Rightarrow> particle \<Rightarrow> peer_scope \<Rightarrow> peer_id \<Rightarrow> deal_id option
      \<Rightarrow> ('vm, 'j, 'f, 'kp) actors \<Rightarrow> 'e plumber_error + ('vm, 'j, 'f, 'kp) actors" where
  "create_actor env p sc peer deal actors =
     (if hm_contains actors (signature p) then Inr actors
      else case get_keypair (en_key_storage env) sc of
        None \<Rightarrow> Inl (NoKeyPair sc)
      | Some kp \<Rightarrow> (case get_particle_token (en_sign env) (api_bs58 (en_api env)) (root_key_pair (en_key_storage env)) (signature p) of
          Inl e \<Rightarrow> Inl e
        | Inr token \<Rightarrow> Inr (hm_insert (signature p)
            (actor_new p (functions_new (clone_from p sc token)) peer token kp deal) actors)))"

text \<open>\<^verbatim>\<open>worker_actors.entry(..)\<close> leaves an empty map behind when the worker turns out not to exist.\<close>

definition get_or_create_actor ::
    "('vm, 'j, 'kp, 'pk, 'e, 'rt, 's) plumber_env \<Rightarrow> peer_scope \<Rightarrow> particle
      \<Rightarrow> ('vm, 'j, 'f, 'kp, 'e) plumber \<Rightarrow> ('e plumber_error + unit) \<times> ('vm, 'j, 'f, 'kp, 'e) plumber" where
  "get_or_create_actor env sc p pl =
     (case sc of
        ScopeHost \<Rightarrow> (case create_actor env p sc (get_host_peer_id (en_scopes env)) None (pl_host_actors pl) of
          Inl e \<Rightarrow> (Inl e, pl)
        | Inr actors \<Rightarrow> (Inr (), pl\<lparr>pl_host_actors := actors\<rparr>))
      | ScopeWorkerId w \<Rightarrow>
          (let actors = (case hm_get (pl_worker_actors pl) w of Some m \<Rightarrow> m | None \<Rightarrow> []);
               pl1 = pl\<lparr>pl_worker_actors := hm_insert w actors (pl_worker_actors pl)\<rparr> in
           case (get_deal_id (en_workers env) w :: 'e workers_error + deal_id) of
             Inl _ \<Rightarrow> (Inl (NoDeal w), pl1)
           | Inr deal \<Rightarrow> (case get_runtime_handle (en_workers env) w of
               None \<Rightarrow> (Inl (NoRuntimeHandle w), pl1)
             | Some _ \<Rightarrow> (case create_actor env p sc (worker_peer_id w) (Some deal) actors of
                 Inl e \<Rightarrow> (Inl e, pl1)
               | Inr actors' \<Rightarrow> (Inr (), pl\<lparr>pl_worker_actors := hm_insert w actors' (pl_worker_actors pl)\<rparr>)))))"

text \<open>The actor with the particle's signature gets the particle, and the function if there is one.\<close>

definition give_particle :: "particle \<Rightarrow> 'f option \<Rightarrow> ('vm, 'j, 'f, 'kp) actors \<Rightarrow> ('vm, 'j, 'f, 'kp) actors \<times> bool" where
  "give_particle p f actors =
     (case hm_get actors (signature p) of
        None \<Rightarrow> (actors, False)
      | Some a \<Rightarrow> (case actor_ingest p a of (a', woken) \<Rightarrow>
          (hm_insert (signature p) (case f of Some g \<Rightarrow> actor_set_function g a' | None \<Rightarrow> a') actors, woken)))"

definition ingest_into :: "peer_scope \<Rightarrow> particle \<Rightarrow> 'f option \<Rightarrow> ('vm, 'j, 'f, 'kp, 'e) plumber \<Rightarrow> ('vm, 'j, 'f, 'kp, 'e) plumber" where
  "ingest_into sc p f pl =
     (case sc of
        ScopeHost \<Rightarrow> (case give_particle p f (pl_host_actors pl) of (actors, woken) \<Rightarrow>
          pl\<lparr>pl_host_actors := actors, pl_awake := pl_awake pl \<or> woken\<rparr>)
      | ScopeWorkerId w \<Rightarrow> (case hm_get (pl_worker_actors pl) w of
          None \<Rightarrow> pl
        | Some m \<Rightarrow> (case give_particle p f m of (actors, woken) \<Rightarrow>
            pl\<lparr>pl_worker_actors := hm_insert w actors (pl_worker_actors pl), pl_awake := pl_awake pl \<or> woken\<rparr>)))"

text \<open>
  \<^verbatim>\<open>now_ms\<close> is the clock's whole seconds times 1000.  In a build with debug assertions the last error
  branch panics; here it is the release build's, which logs the error.
\<close>

definition ingest ::
    "('vm, 'j, 'kp, 'pk, 'e, 'rt, 's) plumber_env \<Rightarrow> u64 \<Rightarrow> particle \<Rightarrow> 'f option \<Rightarrow> peer_scope
      \<Rightarrow> ('vm, 'j, 'f, 'kp, 'e) plumber \<Rightarrow> ('vm, 'j, 'f, 'kp, 'e) plumber" where
  "ingest env now_ms p f sc pl =
     (if deadline_is_expired now_ms (deadline_from p)
      then pl\<lparr>pl_events := pl_events pl @ [Inl (ApiParticleExpired (particle_id p))]\<rparr>
      else case verify (en_sign env) p of
        Inl err \<Rightarrow> pl\<lparr>pl_events := pl_events pl @ [Inl (ApiSignatureVerificationFailed (particle_id p) err)]\<rparr>
      | Inr _ \<Rightarrow>
          (if (case sc of
                 ScopeWorkerId w \<Rightarrow> \<not> is_worker_active (en_workers env) w
                   \<and> \<not> is_management (en_scopes env) (init_peer_id p) \<and> \<not> is_host (en_scopes env) (init_peer_id p)
               | ScopeHost \<Rightarrow> False)
           then pl
           else case get_or_create_actor env sc p pl of
             (Inr _, pl1) \<Rightarrow> pl_wake (ingest_into sc p f pl1)
           | (Inl _, pl1) \<Rightarrow> pl_wake pl1))"

definition create_worker_pool :: "worker_id \<Rightarrow> nat \<Rightarrow> ('vm, 'j, 'f, 'kp, 'e) plumber \<Rightarrow> ('vm, 'j, 'f, 'kp, 'e) plumber" where
  "create_worker_pool w thread_count pl =
     pl\<lparr>pl_worker_vm_pools := hm_insert w (vm_pool_new thread_count) (pl_worker_vm_pools pl)\<rparr>"

definition remove_worker_pool :: "worker_id \<Rightarrow> ('vm, 'j, 'f, 'kp, 'e) plumber \<Rightarrow> ('vm, 'j, 'f, 'kp, 'e) plumber" where
  "remove_worker_pool w pl = pl\<lparr>pl_worker_vm_pools := hm_remove w (pl_worker_vm_pools pl)\<rparr>"

section \<open>Polling\<close>

text \<open>What the futures answer during one poll, and what the clock says.\<close>

record ('vm, 'j, 'f, 'e) poll_answers =
  pa_pool :: "peer_scope \<Rightarrow> nat \<Rightarrow> ('vm, 'e) avm_result"
  pa_calls :: "peer_scope \<Rightarrow> actor_key \<Rightarrow> (nat \<times> ('j, 'f) call_answers) list"
  pa_execution :: "peer_scope \<Rightarrow> actor_key \<Rightarrow> 'e execution_answers option"
  pa_calls_next :: "peer_scope \<Rightarrow> actor_key \<Rightarrow> (nat \<times> ('j, 'f) call_answers) list"
  pa_cleanup_done :: bool
  pa_cleanup :: "cleanup_key \<Rightarrow> 'e option \<times> 'e dir_removal"
  pa_now_cleanup :: u64
  pa_now_ingest :: "nat \<Rightarrow> u64"

text \<open>\<open>None\<close> is a panic.\<close>

fun poll_worker_pools ::
    "('vm, 'j, 'f, 'e) poll_answers \<Rightarrow> (worker_id, 'vm vm_pool) hash_map \<Rightarrow> ((worker_id, 'vm vm_pool) hash_map \<times> bool) option" where
  "poll_worker_pools ans [] = Some ([], False)"
| "poll_worker_pools ans ((w, vp) # pools) =
     (case vm_pool_poll (pa_pool ans (ScopeWorkerId w)) vp of
        None \<Rightarrow> None
      | Some (vp', woken) \<Rightarrow> map_option (\<lambda>(pools', woken'). ((w, vp') # pools', woken \<or> woken')) (poll_worker_pools ans pools))"

definition poll_pools ::
    "('vm, 'j, 'f, 'e) poll_answers \<Rightarrow> ('vm, 'j, 'f, 'kp, 'e) plumber \<Rightarrow> ('vm, 'j, 'f, 'kp, 'e) plumber option" where
  "poll_pools ans pl =
     (case vm_pool_poll (pa_pool ans ScopeHost) (pl_host_vm_pool pl) of
        None \<Rightarrow> None
      | Some (vp, woken) \<Rightarrow> map_option (\<lambda>(pools, woken').
          pl\<lparr>pl_host_vm_pool := vp, pl_worker_vm_pools := pools, pl_awake := pl_awake pl \<or> woken \<or> woken'\<rparr>)
          (poll_worker_pools ans (pl_worker_vm_pools pl)))"

text \<open>The next peers of a particle, split into those of this node, as scopes, and the others.\<close>

fun route :: "'kp peer_scopes \<Rightarrow> peer_id list \<Rightarrow> peer_id list \<times> peer_scope list" where
  "route scopes [] = ([], [])"
| "route scopes (p # ps) =
     (case route scopes ps of (remote, loc) \<Rightarrow>
        (case scope scopes p of Inl _ \<Rightarrow> (p # remote, loc) | Inr sc \<Rightarrow> (remote, sc # loc)))"

record 'vm poll_state =
  po_pool :: "'vm vm_pool"
  po_files :: files
  po_remote :: "remote_routing_effects list"
  po_local :: "local_routing_effects list"
  po_awake :: bool

definition complete_actor ::
    "'kp peer_scopes \<Rightarrow> (nat \<times> 'vm option) \<times> raw_routing_effects \<times> interpretation_stats \<Rightarrow> 'vm poll_state \<Rightarrow> 'vm poll_state option" where
  "complete_actor scopes result st =
     (case result of ((vm_id, vm), eff, _) \<Rightarrow>
        (case route scopes (re_next_peers eff) of (remote, loc) \<Rightarrow>
           let st1 = st\<lparr>po_remote := po_remote st @ (if remote \<noteq> [] then [\<lparr>remote_particle = re_particle eff, remote_next_peers = remote\<rparr>] else []),
                        po_local := po_local st @ (if loc \<noteq> [] then [\<lparr>local_particle = re_particle eff, local_next_peers = loc\<rparr>] else []),
                        po_awake := True\<rparr> in
           case vm of
             Some m \<Rightarrow> map_option (\<lambda>vp. st1\<lparr>po_pool := vp\<rparr>) (put_vm vm_id m (po_pool st1))
           | None \<Rightarrow> Some (st1\<lparr>po_pool := recreate_avm vm_id (po_pool st1)\<rparr>)))"

fun poll_actors ::
    "('vm, 'j, 'kp, 'pk, 'e, 'rt, 's) plumber_env \<Rightarrow> ('vm, 'j, 'f, 'e) poll_answers \<Rightarrow> peer_scope
      \<Rightarrow> ('vm, 'j, 'f, 'kp) actors \<Rightarrow> 'vm poll_state \<Rightarrow> (('vm, 'j, 'f, 'kp) actors \<times> 'vm poll_state) option" where
  "poll_actors env ans sc [] st = Some ([], st)"
| "poll_actors env ans sc ((k, a) # actors) st =
     (case poll_completed (en_api env) (en_store env) (pa_calls ans sc k) (pa_execution ans sc k) a (po_files st) of
        (r, a', fs) \<Rightarrow>
          (case (case r of None \<Rightarrow> Some (st\<lparr>po_files := fs\<rparr>) | Some result \<Rightarrow> complete_actor (en_scopes env) result (st\<lparr>po_files := fs\<rparr>)) of
             None \<Rightarrow> None
           | Some st' \<Rightarrow> map_option (\<lambda>(actors', st''). ((k, a') # actors', st'')) (poll_actors env ans sc actors st')))"

text \<open>Workers without a pool are passed over.\<close>

fun poll_workers_actors ::
    "('vm, 'j, 'kp, 'pk, 'e, 'rt, 's) plumber_env \<Rightarrow> ('vm, 'j, 'f, 'e) poll_answers
      \<Rightarrow> (worker_id, ('vm, 'j, 'f, 'kp) actors) hash_map \<Rightarrow> (worker_id, 'vm vm_pool) hash_map \<Rightarrow> 'vm poll_state
      \<Rightarrow> ((worker_id, ('vm, 'j, 'f, 'kp) actors) hash_map \<times> (worker_id, 'vm vm_pool) hash_map \<times> 'vm poll_state) option" where
  "poll_workers_actors env ans [] pools st = Some ([], pools, st)"
| "poll_workers_actors env ans ((w, actors) # rest) pools st =
     (case hm_get pools w of
        None \<Rightarrow> map_option (\<lambda>(rest', pools', st'). ((w, actors) # rest', pools', st')) (poll_workers_actors env ans rest pools st)
      | Some vp \<Rightarrow> (case poll_actors env ans (ScopeWorkerId w) actors (st\<lparr>po_pool := vp\<rparr>) of
          None \<Rightarrow> None
        | Some (actors', st1) \<Rightarrow>
            map_option (\<lambda>(rest', pools', st'). ((w, actors') # rest', pools', st'))
              (poll_workers_actors env ans rest (hm_insert w (po_pool st1) pools) st1)))"

fun cleanup_actors :: "u64 \<Rightarrow> ('vm, 'j, 'f, 'kp) actors \<Rightarrow> cleanup_key list \<Rightarrow> ('vm, 'j, 'f, 'kp) actors \<times> cleanup_key list" where
  "cleanup_actors now [] keys = ([], keys)"
| "cleanup_actors now ((k, a) # actors) keys =
     (if length keys \<ge> MAX_CLEANUP_KEYS_SIZE \<or> \<not> actor_is_expired now a \<or> is_executing a
      then (case cleanup_actors now actors keys of (actors', keys') \<Rightarrow> ((k, a) # actors', keys'))
      else cleanup_actors now actors (keys @ [actor_cleanup_key a]))"

fun retain_worker_actors ::
    "u64 \<Rightarrow> (worker_id, 'vm vm_pool) hash_map \<Rightarrow> (worker_id, ('vm, 'j, 'f, 'kp) actors) hash_map \<Rightarrow> cleanup_key list
      \<Rightarrow> (worker_id, ('vm, 'j, 'f, 'kp) actors) hash_map \<times> cleanup_key list" where
  "retain_worker_actors now pools [] keys = ([], keys)"
| "retain_worker_actors now pools ((w, actors) # rest) keys =
     (case cleanup_actors now actors keys of (actors', keys1) \<Rightarrow>
        (case retain_worker_actors now pools rest keys1 of (rest', keys2) \<Rightarrow>
           (if actors' \<noteq> [] \<or> hm_contains pools w then (w, actors') # rest' else rest', keys2)))"

definition cleanup_worker_actors ::
    "u64 \<Rightarrow> (worker_id, 'vm vm_pool) hash_map \<Rightarrow> (worker_id, ('vm, 'j, 'f, 'kp) actors) hash_map \<Rightarrow> cleanup_key list
      \<Rightarrow> (worker_id, ('vm, 'j, 'f, 'kp) actors) hash_map \<times> cleanup_key list" where
  "cleanup_worker_actors now pools wa keys =
     (if length keys \<ge> MAX_CLEANUP_KEYS_SIZE then (wa, keys) else retain_worker_actors now pools wa keys)"

text \<open>The data of removed actors is cleaned up when the clean-up future is next polled and completes.\<close>

definition cleanup ::
    "('vm, 'j, 'kp, 'pk, 'e, 'rt, 's) plumber_env \<Rightarrow> ('vm, 'j, 'f, 'e) poll_answers
      \<Rightarrow> ('vm, 'j, 'f, 'kp, 'e) plumber \<Rightarrow> ('vm, 'j, 'f, 'kp, 'e) plumber" where
  "cleanup env ans pl0 =
     (let pl = (case pl_cleanup_future pl0 of
                  Some keys \<Rightarrow> (if pa_cleanup_done ans
                    then pl0\<lparr>pl_cleanup_future := None,
                      pl_files := batch_cleanup_data (api_bs58 (en_api env)) (api_os (en_api env)) (pa_cleanup ans) (en_store env) keys (pl_files pl0)\<rparr>
                    else pl0)
                | None \<Rightarrow> pl0) in
      if pl_cleanup_future pl = None
      then (case cleanup_actors (pa_now_cleanup ans) (pl_host_actors pl) [] of (host, keys1) \<Rightarrow>
        (case cleanup_worker_actors (pa_now_cleanup ans) (pl_worker_vm_pools pl) (pl_worker_actors pl) keys1 of (wa, keys2) \<Rightarrow>
           pl\<lparr>pl_host_actors := host, pl_worker_actors := wa,
              pl_cleanup_future := (if keys2 \<noteq> [] then Some keys2 else None)\<rparr>))
      else pl)"

text \<open>Machines are handed out for as long as the pool has any; the last component says whether one was started.\<close>

fun poll_next_messages ::
    "('vm, 'j, 'kp, 'pk, 'e, 'rt, 's) plumber_env \<Rightarrow> ('vm, 'j, 'f, 'e) poll_answers \<Rightarrow> peer_scope
      \<Rightarrow> ('vm, 'j, 'f, 'kp) actors \<Rightarrow> 'vm vm_pool \<Rightarrow> (('vm, 'j, 'f, 'kp) actors \<times> 'vm vm_pool \<times> single_call_stat list \<times> bool) option" where
  "poll_next_messages env ans sc [] vp = Some ([], vp, [], False)"
| "poll_next_messages env ans sc ((k, a) # actors) vp =
     (case get_vm vp of
        (None, vp1) \<Rightarrow> Some ((k, a) # actors, vp1, [], False)
      | (Some (vm_id, vm), vp1) \<Rightarrow>
          (case poll_next (en_api env) (pa_calls_next ans sc k) vm_id vm a of
             (ActorVm vm_id' vm', a') \<Rightarrow>
               (case put_vm vm_id' vm' vp1 of
                  None \<Rightarrow> None
                | Some vp2 \<Rightarrow> map_option (\<lambda>(actors', vp3, stats, woken). ((k, a') # actors', vp3, stats, woken))
                    (poll_next_messages env ans sc actors vp2))
           | (ActorExecuting st, a') \<Rightarrow>
               map_option (\<lambda>(actors', vp3, stats, woken). ((k, a') # actors', vp3, st @ stats, True))
                 (poll_next_messages env ans sc actors vp1)))"

fun poll_next_worker_messages ::
    "('vm, 'j, 'kp, 'pk, 'e, 'rt, 's) plumber_env \<Rightarrow> ('vm, 'j, 'f, 'e) poll_answers
      \<Rightarrow> (worker_id, ('vm, 'j, 'f, 'kp) actors) hash_map \<Rightarrow> (worker_id, 'vm vm_pool) hash_map
      \<Rightarrow> ((worker_id, ('vm, 'j, 'f, 'kp) actors) hash_map \<times> (worker_id, 'vm vm_pool) hash_map \<times> single_call_stat list \<times> bool) option" where
  "poll_next_worker_messages env ans [] pools = Some ([], pools, [], False)"
| "poll_next_worker_messages env ans ((w, actors) # rest) pools =
     (case hm_get pools w of
        None \<Rightarrow> map_option (\<lambda>(rest', pools', stats, woken). ((w, actors) # rest', pools', stats, woken)) (poll_next_worker_messages env ans rest pools)
      | Some vp \<Rightarrow> (case poll_next_messages env ans (ScopeWorkerId w) actors vp of
          None \<Rightarrow> None
        | Some (actors', vp', st, woken) \<Rightarrow>
            map_option (\<lambda>(rest', pools', stats, woken'). ((w, actors') # rest', pools', st @ stats, woken \<or> woken'))
              (poll_next_worker_messages env ans rest (hm_insert w vp' pools))))"

text \<open>The particle of every local effect is ingested for each of its peers.\<close>

definition local_particles :: "local_routing_effects list \<Rightarrow> (particle \<times> peer_scope) list" where
  "local_particles effects = concat (map (\<lambda>e. map (\<lambda>sc. (local_particle e, sc)) (local_next_peers e)) effects)"

fun ingest_local ::
    "('vm, 'j, 'kp, 'pk, 'e, 'rt, 's) plumber_env \<Rightarrow> ('vm, 'j, 'f, 'e) poll_answers \<Rightarrow> nat \<Rightarrow> (particle \<times> peer_scope) list
      \<Rightarrow> ('vm, 'j, 'f, 'kp, 'e) plumber \<Rightarrow> ('vm, 'j, 'f, 'kp, 'e) plumber" where
  "ingest_local env ans n [] pl = pl"
| "ingest_local env ans n ((p, sc) # ps) pl = ingest_local env ans (n + 1) ps (ingest env (pa_now_ingest ans n) p None sc pl)"

text \<open>The three phases of a poll that finds no buffered event: collect, clean up, execute and route.\<close>

definition poll_collect ::
    "('vm, 'j, 'kp, 'pk, 'e, 'rt, 's) plumber_env \<Rightarrow> ('vm, 'j, 'f, 'e) poll_answers \<Rightarrow> ('vm, 'j, 'f, 'kp, 'e) plumber
      \<Rightarrow> (remote_routing_effects list \<times> local_routing_effects list \<times> ('vm, 'j, 'f, 'kp, 'e) plumber) option" where
  "poll_collect env ans pl =
     (case poll_actors env ans ScopeHost (pl_host_actors pl)
             \<lparr>po_pool = pl_host_vm_pool pl, po_files = pl_files pl, po_remote = [], po_local = [], po_awake = pl_awake pl\<rparr> of
        None \<Rightarrow> None
      | Some (host, st1) \<Rightarrow>
          (case poll_workers_actors env ans (pl_worker_actors pl) (pl_worker_vm_pools pl) st1 of
             None \<Rightarrow> None
           | Some (wa, pools, st2) \<Rightarrow>
               Some (po_remote st2, po_local st2,
                 pl\<lparr>pl_host_actors := host, pl_host_vm_pool := po_pool st1, pl_worker_actors := wa, pl_worker_vm_pools := pools,
                    pl_files := po_files st2, pl_awake := po_awake st2\<rparr>)))"

definition poll_execute ::
    "('vm, 'j, 'kp, 'pk, 'e, 'rt, 's) plumber_env \<Rightarrow> ('vm, 'j, 'f, 'e) poll_answers \<Rightarrow> ('vm, 'j, 'f, 'kp, 'e) plumber
      \<Rightarrow> ('vm, 'j, 'f, 'kp, 'e) plumber option" where
  "poll_execute env ans pl =
     (case poll_next_messages env ans ScopeHost (pl_host_actors pl) (pl_host_vm_pool pl) of
        None \<Rightarrow> None
      | Some (host, vp, _, woken) \<Rightarrow>
          (case poll_next_worker_messages env ans (pl_worker_actors pl) (pl_worker_vm_pools pl) of
             None \<Rightarrow> None
           | Some (wa, pools, _, woken') \<Rightarrow>
               Some (pl\<lparr>pl_host_actors := host, pl_host_vm_pool := vp, pl_worker_actors := wa, pl_worker_vm_pools := pools,
                 pl_awake := pl_awake pl \<or> woken \<or> woken'\<rparr>)))"

datatype 'e plumber_poll_result = PlReady "'e aquamarine_api_error + remote_routing_effects" | PlPending

definition plumber_poll ::
    "('vm, 'j, 'kp, 'pk, 'e, 'rt, 's) plumber_env \<Rightarrow> ('vm, 'j, 'f, 'e) poll_answers \<Rightarrow> ('vm, 'j, 'f, 'kp, 'e) plumber
      \<Rightarrow> ('e plumber_poll_result \<times> ('vm, 'j, 'f, 'kp, 'e) plumber) option" where
  "plumber_poll env ans pl0 =
     (case poll_pools ans (pl0\<lparr>pl_waker := True, pl_awake := False\<rparr>) of
        None \<Rightarrow> None
      | Some pl \<Rightarrow> (case pl_events pl of
          ev # evs \<Rightarrow> Some (PlReady ev, pl\<lparr>pl_events := evs\<rparr>)
        | [] \<Rightarrow> (case poll_collect env ans pl of
            None \<Rightarrow> None
          | Some (remote, loc, pl1) \<Rightarrow> (case poll_execute env ans (cleanup env ans pl1) of
              None \<Rightarrow> None
            | Some pl2 \<Rightarrow>
                (let pl3 = ingest_local env ans 0 (local_particles loc) pl2 in
                 Some (PlPending, pl3\<lparr>pl_events := pl_events pl3 @ map Inr remote\<rparr>))))))"

section \<open>Who holds which machine\<close>

text \<open>The slots whose machines the actors of one scope are executing on.\<close>

definition busy :: "('vm, 'j, 'f, 'kp) actors \<Rightarrow> nat list" where
  "busy actors = concat (map (\<lambda>(k, a). case ac_future a of None \<Rightarrow> [] | Some t \<Rightarrow> [task_vm_id t]) actors)"

text \<open>No two actors execute on the same machine, and none on one the pool has, or somebody in \<open>B\<close> holds.\<close>

definition holding :: "'vm vm_pool \<Rightarrow> nat set \<Rightarrow> ('vm, 'j, 'f, 'kp) actors \<Rightarrow> bool" where
  "holding vp B actors \<longleftrightarrow> distinct (busy actors) \<and> set (busy actors) \<inter> B = {} \<and> vms.holds vp (B \<union> set (busy actors))"

lemma busy_Nil [simp]: "busy [] = []"
  by (simp add: busy_def)

lemma busy_Cons [simp]: "busy ((k, a) # actors) = (case ac_future a of None \<Rightarrow> [] | Some t \<Rightarrow> [task_vm_id t]) @ busy actors"
  by (simp add: busy_def)

lemma holding_idle: "ac_future a = None \<Longrightarrow> holding vp B ((k, a) # actors) = holding vp B actors"
  by (simp add: holding_def)

lemma holding_executing:
  "ac_future a = Some t \<Longrightarrow> holding vp B ((k, a) # actors) \<longleftrightarrow> task_vm_id t \<notin> B \<and> holding vp (insert (task_vm_id t) B) actors"
  by (auto simp: holding_def)

lemma poll_completed_future:
  assumes "poll_completed api ds calls ready a fs = (r, a', fs')"
  shows "case r of
      None \<Rightarrow> ac_future a' = ac_future a
    | Some ((vm_id, vm), _) \<Rightarrow> ac_future a' = None \<and> (\<exists>t. ac_future a = Some t \<and> task_vm_id t = vm_id)"
  using assms by (auto simp: poll_completed_def poll_avm_future_def split: option.splits prod.splits)

lemma complete_actor_holds:
  assumes "vms.holds (po_pool st) (insert vm_id B)" "vm_id \<notin> B"
  shows "\<exists>st'. complete_actor scopes ((vm_id, vm), rest) st = Some st' \<and> vms.holds (po_pool st') B \<and> po_awake st'"
proof (cases rest)
  case (Pair eff stats)
  obtain remote loc where r: "route scopes (re_next_peers eff) = (remote, loc)" by (cases "route scopes (re_next_peers eff)")
  have d: "insert vm_id B - {vm_id} = B" using assms(2) by simp
  show ?thesis
  proof (cases vm)
    case None
    then show ?thesis using vms.holds_recreate [OF assms(1), of vm_id] d by (simp add: complete_actor_def Pair r Let_def)
  next
    case (Some m)
    then show ?thesis using vms.holds_put [OF assms(1), of vm_id m] d by (auto simp: complete_actor_def Pair r Let_def)
  qed
qed

lemma poll_actors_holding:
  "holding (po_pool st) B actors \<Longrightarrow> \<exists>actors' st'. poll_actors env ans sc actors st = Some (actors', st')
     \<and> holding (po_pool st') B actors' \<and> map fst actors' = map fst actors"
proof (induction actors arbitrary: st B)
  case Nil
  then show ?case by simp
next
  case (Cons ka actors)
  obtain k a where ka: "ka = (k, a)" by (cases ka)
  note prems = Cons.prems [unfolded ka]
  obtain r a' fs where c: "poll_completed (en_api env) (en_store env) (pa_calls ans sc k) (pa_execution ans sc k) a (po_files st) = (r, a', fs)"
    by (cases "poll_completed (en_api env) (en_store env) (pa_calls ans sc k) (pa_execution ans sc k) a (po_files st)") auto
  note fut = poll_completed_future [OF c]
  show ?case
  proof (cases r)
    case None
    then have f: "ac_future a' = ac_future a" using fut by simp
    let ?B = "case ac_future a of None \<Rightarrow> B | Some t \<Rightarrow> insert (task_vm_id t) B"
    have "holding (po_pool (st\<lparr>po_files := fs\<rparr>)) ?B actors"
      using prems by (auto simp: holding_idle holding_executing split: option.splits)
    then obtain actors' st' where p: "poll_actors env ans sc actors (st\<lparr>po_files := fs\<rparr>) = Some (actors', st')"
      "holding (po_pool st') ?B actors'" "map fst actors' = map fst actors"
      using Cons.IH by blast
    have "holding (po_pool st') B ((k, a') # actors')"
      using p(2) f prems by (cases "ac_future a") (simp_all add: holding_idle holding_executing)
    then show ?thesis using p c None by (simp add: ka)
  next
    case (Some x)
    obtain vm_id vm rest where x: "x = ((vm_id, vm), rest)" by (cases x) auto
    obtain t where t: "ac_future a' = None" "ac_future a = Some t" "task_vm_id t = vm_id" using fut Some x by auto
    have h: "vm_id \<notin> B" "holding (po_pool st) (insert vm_id B) actors" using prems t by (simp_all add: holding_executing)
    have "vms.holds (po_pool (st\<lparr>po_files := fs\<rparr>)) (insert vm_id (B \<union> set (busy actors)))" "vm_id \<notin> B \<union> set (busy actors)"
      using h by (auto simp: holding_def)
    then obtain st1 where s: "complete_actor (en_scopes env) ((vm_id, vm), rest) (st\<lparr>po_files := fs\<rparr>) = Some st1"
      "vms.holds (po_pool st1) (B \<union> set (busy actors))" using complete_actor_holds by blast
    have "holding (po_pool st1) B actors" using s(2) h(2) by (auto simp: holding_def)
    then obtain actors' st' where p: "poll_actors env ans sc actors st1 = Some (actors', st')"
      "holding (po_pool st') B actors'" "map fst actors' = map fst actors"
      using Cons.IH by blast
    then show ?thesis using c Some x s(1) t(1) by (simp add: holding_idle ka)
  qed
qed

lemma poll_next_future:
  assumes "poll_next api calls vm_id vm a = (r, a')"
  shows "case r of
      ActorVm i w \<Rightarrow> i = vm_id \<and> w = vm \<and> ac_future a' = ac_future a
    | ActorExecuting _ \<Rightarrow> ac_future a = None \<and> (\<exists>t. ac_future a' = Some t \<and> task_vm_id t = vm_id)"
  using assms poll_next_idle poll_next_started by (cases r) fastforce+

lemma poll_next_messages_holding:
  "holding vp B actors \<Longrightarrow> \<exists>actors' vp' stats woken. poll_next_messages env ans sc actors vp = Some (actors', vp', stats, woken)
     \<and> holding vp' B actors' \<and> map fst actors' = map fst actors"
proof (induction actors arbitrary: vp B)
  case Nil
  then show ?case by (intro exI [of _ "[]"] exI [of _ vp] exI [of _ False]) simp
next
  case (Cons ka actors)
  obtain k a where ka: "ka = (k, a)" by (cases ka)
  note prems = Cons.prems [unfolded ka]
  obtain g vp1 where g: "get_vm vp = (g, vp1)" by (cases "get_vm vp")
  have h: "vms.holds vp (B \<union> set (busy ((k, a) # actors)))" using prems by (simp add: holding_def)
  show ?case
  proof (cases g)
    case None
    then show ?thesis using prems g get_vm_None [of vp vp1] by (intro exI [of _ "(k, a) # actors"] exI [of _ vp] exI [of _ "[]"] exI [of _ False]) (simp add: ka)
  next
    case (Some y)
    obtain vm_id vm where y: "y = (vm_id, vm)" by (cases y)
    note gv = g [unfolded Some y]
    note hg = vms.holds_get [OF h gv]
    obtain r a' where n: "poll_next (en_api env) (pa_calls_next ans sc k) vm_id vm a = (r, a')"
      by (cases "poll_next (en_api env) (pa_calls_next ans sc k) vm_id vm a")
    note fut = poll_next_future [OF n]
    show ?thesis
    proof (cases r)
      case (ActorVm i w)
      then have f: "i = vm_id" "w = vm" "ac_future a' = ac_future a" using fut by simp_all
      let ?B = "case ac_future a of None \<Rightarrow> B | Some t \<Rightarrow> insert (task_vm_id t) B"
      obtain vp2 where p: "put_vm vm_id vm vp1 = Some vp2" "vms.holds vp2 (B \<union> set (busy ((k, a) # actors)))"
        using vms.holds_get_put [OF h gv] by blast
      have "holding vp2 B ((k, a) # actors)" using p(2) prems by (simp add: holding_def)
      then have b: "holding vp2 ?B actors" by (cases "ac_future a") (simp_all add: holding_idle holding_executing)
      obtain actors' vp3 stats woken where q: "poll_next_messages env ans sc actors vp2 = Some (actors', vp3, stats, woken)"
        "holding vp3 ?B actors'" "map fst actors' = map fst actors"
        using Cons.IH [OF b] by blast
      have "holding vp3 B ((k, a') # actors')"
        using q(2) f prems by (cases "ac_future a") (simp_all add: holding_idle holding_executing)
      then show ?thesis using q g Some y n ActorVm f p(1) by (simp add: ka)
    next
      case (ActorExecuting st)
      then obtain t where t: "ac_future a = None" "ac_future a' = Some t" "task_vm_id t = vm_id" using fut by auto
      have nb: "vm_id \<notin> B" using hg by simp
      have "holding vp1 (insert vm_id B) actors" using hg prems t(1) by (auto simp: holding_def)
      then obtain actors' vp3 stats woken where q: "poll_next_messages env ans sc actors vp1 = Some (actors', vp3, stats, woken)"
        "holding vp3 (insert vm_id B) actors'" "map fst actors' = map fst actors"
        using Cons.IH by blast
      then show ?thesis using g Some y n ActorExecuting t nb by (auto simp: holding_executing ka)
    qed
  qed
qed

subsection \<open>Workers\<close>

definition workers_hold :: "(worker_id, ('vm, 'j, 'f, 'kp) actors) hash_map \<Rightarrow> (worker_id, 'vm vm_pool) hash_map \<Rightarrow> bool" where
  "workers_hold wa pools \<longleftrightarrow> (\<forall>w m vp. (w, m) \<in> set wa \<and> hm_get pools w = Some vp \<longrightarrow> holding vp {} m)"

text \<open>The maps have the same workers, and each of them actors with the same keys.\<close>

definition same_keys :: "(worker_id, ('vm, 'j, 'f, 'kp) actors) hash_map \<Rightarrow> (worker_id, ('vm, 'j, 'f, 'kp) actors) hash_map \<Rightarrow> bool" where
  "same_keys wa wa' \<longleftrightarrow> map (\<lambda>(w, m). (w, map fst m)) wa = map (\<lambda>(w, m). (w, map fst m)) wa'"

lemma same_keys_Cons [simp]:
  "same_keys ((w, m) # wa) ((w', m') # wa') \<longleftrightarrow> w = w' \<and> map fst m = map fst m' \<and> same_keys wa wa'"
  by (simp add: same_keys_def)

lemma same_keys_refl [simp]: "same_keys wa wa"
  by (simp add: same_keys_def)

lemma same_keys_fst: "same_keys wa wa' \<Longrightarrow> map fst wa = map fst wa'"
  unfolding same_keys_def by (metis (no_types, lifting) case_prod_unfold fst_conv list.map_comp map_eq_conv comp_apply)

lemma workers_hold_next:
  assumes "workers_hold ((w, m) # rest) pools" "w \<notin> fst ` set rest"
  shows "workers_hold rest (hm_insert w vp pools)" "workers_hold rest pools"
  using assms by (auto simp: workers_hold_def) (metis fst_conv image_eqI)+

lemma workers_hold_Cons:
  assumes "workers_hold rest pools" "w \<notin> fst ` set rest" "\<And>vp. hm_get pools w = Some vp \<Longrightarrow> holding vp {} m"
  shows "workers_hold ((w, m) # rest) pools"
  using assms by (auto simp: workers_hold_def)

text \<open>
  What a pass over the workers keeps: the keys, the pools of other workers, which workers have pools, and
  who holds which machine.
\<close>

definition worker_pass ::
    "(worker_id, ('vm, 'j, 'f, 'kp) actors) hash_map \<Rightarrow> (worker_id, 'vm vm_pool) hash_map
      \<Rightarrow> (worker_id, ('vm, 'j, 'f, 'kp) actors) hash_map \<Rightarrow> (worker_id, 'vm vm_pool) hash_map \<Rightarrow> bool" where
  "worker_pass wa pools wa' pools' \<longleftrightarrow> same_keys wa wa' \<and> workers_hold wa' pools' \<and> (hm_ok pools \<longrightarrow> hm_ok pools')
     \<and> (\<forall>w. w \<notin> fst ` set wa \<longrightarrow> hm_get pools' w = hm_get pools w) \<and> (\<forall>w. hm_get pools' w = None \<longleftrightarrow> hm_get pools w = None)"

lemma worker_pass_skip:
  assumes "worker_pass rest pools rest' pools'" "w \<notin> fst ` set rest" "hm_get pools w = None"
  shows "worker_pass ((w, m) # rest) pools ((w, m) # rest') pools'"
proof -
  have k: "map fst rest = map fst rest'" using assms(1) by (intro same_keys_fst) (simp add: worker_pass_def)
  have "w \<notin> fst ` set rest'" using assms(2) arg_cong [OF k, of set] by simp
  then show ?thesis using assms by (auto simp: worker_pass_def intro!: workers_hold_Cons)
qed

lemma worker_pass_step:
  assumes p: "worker_pass rest (hm_insert w vp' pools) rest' pools'" and new: "w \<notin> fst ` set rest"
    and old: "hm_get pools w = Some vp" and h: "holding vp' {} m'" "map fst m' = map fst m"
  shows "worker_pass ((w, m) # rest) pools ((w, m') # rest') pools'"
proof -
  have k: "map fst rest = map fst rest'" using p by (intro same_keys_fst) (simp add: worker_pass_def)
  have n: "w \<notin> fst ` set rest'" using new arg_cong [OF k, of set] by simp
  have g: "hm_get pools' w = Some vp'" using p new by (simp add: worker_pass_def)
  have "workers_hold ((w, m') # rest') pools'" using p n g h(1) by (intro workers_hold_Cons) (auto simp: worker_pass_def)
  then show ?thesis using p old h(2) g by (auto simp: worker_pass_def split: if_splits)
qed

lemma poll_workers_actors_pass:
  "workers_hold wa pools \<Longrightarrow> distinct (map fst wa) \<Longrightarrow>
     \<exists>wa' pools' st'. poll_workers_actors env ans wa pools st = Some (wa', pools', st') \<and> worker_pass wa pools wa' pools'"
proof (induction wa arbitrary: pools st)
  case Nil
  then show ?case by (simp add: worker_pass_def workers_hold_def)
next
  case (Cons x rest)
  obtain w m where x: "x = (w, m)" by (cases x)
  have n: "w \<notin> fst ` set rest" "distinct (map fst rest)" using Cons.prems(2) x by simp_all
  note wh = workers_hold_next [OF Cons.prems(1) [unfolded x] n(1)]
  show ?case
  proof (cases "hm_get pools w")
    case None
    obtain rest' pools' st' where "poll_workers_actors env ans rest pools st = Some (rest', pools', st')" "worker_pass rest pools rest' pools'"
      using Cons.IH [OF wh(2) n(2)] by blast
    then show ?thesis using worker_pass_skip [OF _ n(1) None] None x by auto
  next
    case (Some vp)
    have "holding (po_pool (st\<lparr>po_pool := vp\<rparr>)) {} m" using Cons.prems(1) Some x by (auto simp: workers_hold_def)
    then obtain m' st1 where p: "poll_actors env ans (ScopeWorkerId w) m (st\<lparr>po_pool := vp\<rparr>) = Some (m', st1)"
      "holding (po_pool st1) {} m'" "map fst m' = map fst m" using poll_actors_holding by blast
    obtain rest' pools' st' where "poll_workers_actors env ans rest (hm_insert w (po_pool st1) pools) st1 = Some (rest', pools', st')"
      "worker_pass rest (hm_insert w (po_pool st1) pools) rest' pools'"
      using Cons.IH [OF wh(1) n(2)] by blast
    then show ?thesis using worker_pass_step [OF _ n(1) Some p(2,3)] p(1) Some x by auto
  qed
qed

lemma poll_next_worker_messages_pass:
  "workers_hold wa pools \<Longrightarrow> distinct (map fst wa) \<Longrightarrow>
     \<exists>wa' pools' stats woken. poll_next_worker_messages env ans wa pools = Some (wa', pools', stats, woken) \<and> worker_pass wa pools wa' pools'"
proof (induction wa arbitrary: pools)
  case Nil
  then show ?case by (auto simp: worker_pass_def workers_hold_def)
next
  case (Cons x rest)
  obtain w m where x: "x = (w, m)" by (cases x)
  have n: "w \<notin> fst ` set rest" "distinct (map fst rest)" using Cons.prems(2) x by simp_all
  note wh = workers_hold_next [OF Cons.prems(1) [unfolded x] n(1)]
  show ?case
  proof (cases "hm_get pools w")
    case None
    obtain rest' pools' stats woken where "poll_next_worker_messages env ans rest pools = Some (rest', pools', stats, woken)"
      "worker_pass rest pools rest' pools'" using Cons.IH [OF wh(2) n(2)] by blast
    then show ?thesis using worker_pass_skip [OF _ n(1) None] None x by auto
  next
    case (Some vp)
    have "holding vp {} m" using Cons.prems(1) Some x by (auto simp: workers_hold_def)
    then obtain m' vp' st wk where p: "poll_next_messages env ans (ScopeWorkerId w) m vp = Some (m', vp', st, wk)"
      "holding vp' {} m'" "map fst m' = map fst m" using poll_next_messages_holding by blast
    obtain rest' pools' stats woken where "poll_next_worker_messages env ans rest (hm_insert w vp' pools) = Some (rest', pools', stats, woken)"
      "worker_pass rest (hm_insert w vp' pools) rest' pools'" using Cons.IH [OF wh(1) n(2)] by blast
    then show ?thesis using worker_pass_step [OF _ n(1) Some p(2,3)] p(1) Some x by auto
  qed
qed

lemma poll_worker_pools_holds:
  "(\<And>w vp. (w, vp) \<in> set pools \<Longrightarrow> vms.holds vp (B w)) \<Longrightarrow>
     \<exists>pools' woken. poll_worker_pools ans pools = Some (pools', woken) \<and> map fst pools' = map fst pools
       \<and> (\<forall>w vp. (w, vp) \<in> set pools' \<longrightarrow> vms.holds vp (B w))"
proof (induction pools)
  case Nil
  then show ?case by auto
next
  case (Cons x pools)
  obtain w vp where x: "x = (w, vp)" by (cases x)
  obtain vp' woken where p: "vm_pool_poll (pa_pool ans (ScopeWorkerId w)) vp = Some (vp', woken)" "vms.holds vp' (B w)"
    using vm_pool_poll_holds [of vp "B w" "pa_pool ans (ScopeWorkerId w)"] Cons.prems [of w vp] x by auto
  obtain pools' woken' where "poll_worker_pools ans pools = Some (pools', woken')" "map fst pools' = map fst pools"
    "\<forall>w vp. (w, vp) \<in> set pools' \<longrightarrow> vms.holds vp (B w)" using Cons.IH Cons.prems by (metis list.set_intros(2))
  then show ?case using p x by auto
qed

section \<open>The invariant\<close>

definition worker_actors_of :: "(worker_id, ('vm, 'j, 'f, 'kp) actors) hash_map \<Rightarrow> worker_id \<Rightarrow> ('vm, 'j, 'f, 'kp) actors" where
  "worker_actors_of wa w = (case hm_get wa w of None \<Rightarrow> [] | Some m \<Rightarrow> m)"

definition pools_ok :: "(worker_id, ('vm, 'j, 'f, 'kp) actors) hash_map \<Rightarrow> (worker_id, 'vm vm_pool) hash_map \<Rightarrow> bool" where
  "pools_ok wa pools \<longleftrightarrow> hm_ok wa \<and> hm_ok pools \<and> (\<forall>w. hm_ok (worker_actors_of wa w))
     \<and> (\<forall>w vp. hm_get pools w = Some vp \<longrightarrow> holding vp {} (worker_actors_of wa w))"

definition plumber_ok :: "('vm, 'j, 'f, 'kp, 'e) plumber \<Rightarrow> bool" where
  "plumber_ok pl \<longleftrightarrow> hm_ok (pl_host_actors pl) \<and> holding (pl_host_vm_pool pl) {} (pl_host_actors pl)
     \<and> pools_ok (pl_worker_actors pl) (pl_worker_vm_pools pl)"

lemma holding_Nil: "holding vp {} [] = vm_pool_ok vp"
  by (simp add: holding_def vms.holds_def)

lemma holding_pool_ok: "holding vp B actors \<Longrightarrow> vm_pool_ok vp"
  by (simp add: holding_def vms.holds_def)

lemma holding_busy: "busy actors' = busy actors \<Longrightarrow> holding vp B actors' = holding vp B actors"
  by (simp add: holding_def)

lemma worker_actors_of_insert [simp]: "worker_actors_of (hm_insert w m wa) w' = (if w' = w then m else worker_actors_of wa w')"
  by (simp add: worker_actors_of_def)

lemma pools_ok_workers_hold: "pools_ok wa pools \<Longrightarrow> workers_hold wa pools \<and> distinct (map fst wa)"
  unfolding pools_ok_def workers_hold_def worker_actors_of_def using hm_get_in_set [of wa]
  by (auto simp: hm_ok_def) (metis option.simps(5))

lemma worker_pass_ok:
  assumes ok: "pools_ok wa pools" and pass: "worker_pass wa pools wa' pools'"
  shows "pools_ok wa' pools'"
proof -
  have sk: "same_keys wa wa'" using pass by (simp add: worker_pass_def)
  have k: "map fst wa = map fst wa'" using same_keys_fst [OF sk] .
  have hw: "hm_ok wa'" using ok k by (simp add: pools_ok_def hm_ok_def)
  have inner: "hm_ok (worker_actors_of wa' w)" for w
  proof (cases "hm_get wa' w")
    case None
    then show ?thesis by (simp add: worker_actors_of_def)
  next
    case (Some m')
    then have "(w, map fst m') \<in> set (map (\<lambda>(w, m). (w, map fst m)) wa')" using hm_get_in_set [OF hw, of w m'] by force
    then have "(w, map fst m') \<in> set (map (\<lambda>(w, m). (w, map fst m)) wa)" using sk unfolding same_keys_def by metis
    then obtain m where m: "(w, m) \<in> set wa" "map fst m = map fst m'" by auto
    then have "hm_get wa w = Some m" using ok hm_get_in_set [of wa w m] by (simp add: pools_ok_def)
    moreover have "hm_ok (worker_actors_of wa w)" using ok by (simp add: pools_ok_def)
    ultimately show ?thesis using m(2) Some by (simp add: worker_actors_of_def hm_ok_def)
  qed
  have "holding vp {} (worker_actors_of wa' w)" if g: "hm_get pools' w = Some vp" for w vp
  proof (cases "hm_get wa' w")
    case None
    have "w \<notin> fst ` set wa'" using None hm_get_in_set [OF hw] by force
    then have nw: "w \<notin> fst ` set wa" using arg_cong [OF k, of set] by simp
    then have "hm_get pools w = Some vp" using pass g by (simp add: worker_pass_def)
    then have "holding vp {} (worker_actors_of wa w)" using ok by (simp add: pools_ok_def)
    then show ?thesis using None by (simp add: worker_actors_of_def holding_Nil holding_pool_ok)
  next
    case (Some m')
    then have "(w, m') \<in> set wa'" using hm_get_in_set [OF hw, of w m'] by simp
    then show ?thesis using pass g Some by (auto simp: worker_pass_def workers_hold_def worker_actors_of_def)
  qed
  then show ?thesis using hw inner pass ok by (simp add: pools_ok_def worker_pass_def)
qed

subsection \<open>Clean-up\<close>

text \<open>Only actors that expired and do not execute are removed, as many as there is room for.\<close>

lemma cleanup_actors_spec:
  "cleanup_actors now actors keys = (actors', keys') \<Longrightarrow>
     busy actors' = busy actors \<and> subseq actors' actors
   \<and> (\<exists>R. mset actors = mset actors' + mset R \<and> keys' = keys @ map (actor_cleanup_key \<circ> snd) R
        \<and> (\<forall>(k, a) \<in> set R. actor_is_expired now a \<and> \<not> is_executing a))
   \<and> length keys' \<le> max (length keys) MAX_CLEANUP_KEYS_SIZE \<and> length keys \<le> length keys'
   \<and> (length keys' < MAX_CLEANUP_KEYS_SIZE \<longrightarrow> (\<forall>(k, a) \<in> set actors'. \<not> actor_is_expired now a \<or> is_executing a))"
proof (induction now actors keys arbitrary: actors' keys' rule: cleanup_actors.induct)
  case (1 now keys)
  then show ?case by (auto intro: exI [of _ "[]"])
next
  case (2 now k a actors keys)
  show ?case
  proof (cases "length keys \<ge> MAX_CLEANUP_KEYS_SIZE \<or> \<not> actor_is_expired now a \<or> is_executing a")
    case True
    obtain as ks where c: "cleanup_actors now actors keys = (as, ks)" by (cases "cleanup_actors now actors keys")
    then have e: "actors' = (k, a) # as" "keys' = ks" using "2.prems" True by simp_all
    note i = "2.IH"(1) [OF True c]
    then have "length keys' < MAX_CLEANUP_KEYS_SIZE \<longrightarrow> length keys < MAX_CLEANUP_KEYS_SIZE" using e by simp
    then show ?thesis using i e True by auto
  next
    case False
    obtain as ks where c: "cleanup_actors now actors (keys @ [actor_cleanup_key a]) = (as, ks)"
      by (cases "cleanup_actors now actors (keys @ [actor_cleanup_key a])")
    then have e: "actors' = as" "keys' = ks" using "2.prems" False by simp_all
    note i = "2.IH"(2) [OF False c]
    then obtain R where "mset actors = mset as + mset R" "ks = keys @ [actor_cleanup_key a] @ map (actor_cleanup_key \<circ> snd) R"
      "\<forall>(k, a) \<in> set R. actor_is_expired now a \<and> \<not> is_executing a" by auto
    then have "\<exists>R. mset ((k, a) # actors) = mset as + mset R \<and> ks = keys @ map (actor_cleanup_key \<circ> snd) R
        \<and> (\<forall>(k, a) \<in> set R. actor_is_expired now a \<and> \<not> is_executing a)"
      using False by (intro exI [of _ "(k, a) # R"]) auto
    moreover have "busy as = busy ((k, a) # actors)" using i False by (simp add: is_executing_def)
    moreover have "subseq as ((k, a) # actors)" "length ks \<le> max (length keys) MAX_CLEANUP_KEYS_SIZE" "length keys \<le> length ks"
      "length ks < MAX_CLEANUP_KEYS_SIZE \<longrightarrow> (\<forall>(k, a) \<in> set as. \<not> actor_is_expired now a \<or> is_executing a)"
      using i False by auto
    ultimately show ?thesis unfolding e by blast
  qed
qed

lemma subseq_distinct_map: "subseq xs ys \<Longrightarrow> set xs \<subseteq> set ys \<and> (distinct (map f ys) \<longrightarrow> distinct (map f xs))"
  by (induction rule: list_emb.induct) auto

lemma subseq_hm_ok: "subseq m' m \<Longrightarrow> hm_ok m \<Longrightarrow> hm_ok m'"
  using subseq_distinct_map [of m' m fst] by (simp add: hm_ok_def)

lemma retain_worker_actors_ok:
  "retain_worker_actors now pools wa keys = (wa', keys') \<Longrightarrow> hm_ok wa \<Longrightarrow> \<forall>(w, m) \<in> set wa. hm_ok m \<Longrightarrow>
     set (map fst wa') \<subseteq> set (map fst wa) \<and> hm_ok wa'
   \<and> (\<forall>w. busy (worker_actors_of wa' w) = busy (worker_actors_of wa w) \<and> hm_ok (worker_actors_of wa' w))"
proof (induction now pools wa keys arbitrary: wa' keys' rule: retain_worker_actors.induct)
  case (1 now pools keys)
  then show ?case by (simp add: worker_actors_of_def)
next
  case (2 now pools w m rest keys)
  obtain m' keys1 where c: "cleanup_actors now m keys = (m', keys1)" by (cases "cleanup_actors now m keys")
  obtain rest' keys2 where r: "retain_worker_actors now pools rest keys1 = (rest', keys2)" by (cases "retain_worker_actors now pools rest keys1")
  have wa': "wa' = (if m' \<noteq> [] \<or> hm_contains pools w then (w, m') # rest' else rest')" using "2.prems"(1) c r by simp
  have i: "set (map fst rest') \<subseteq> set (map fst rest)" "hm_ok rest'"
    "\<forall>v. busy (worker_actors_of rest' v) = busy (worker_actors_of rest v) \<and> hm_ok (worker_actors_of rest' v)"
    using "2.IH" [OF c [symmetric] r] "2.prems"(2,3) by (simp_all add: hm_ok_def)
  have w: "w \<notin> set (map fst rest')" "hm_get rest' w = None" "hm_get rest w = None"
    using "2.prems"(2) i(1) by (auto simp: hm_ok_def hm_get_def map_of_eq_None_iff)
  have m: "busy m' = busy m" "hm_ok m'" using cleanup_actors_spec [OF c] subseq_hm_ok [of m' m] "2.prems"(3) by auto
  have of': "worker_actors_of wa' v = (if v = w then m' else worker_actors_of rest' v)" for v
    using w wa' by (auto simp: worker_actors_of_def hm_get_def)
  have "worker_actors_of ((w, m) # rest) v = (if v = w then m else worker_actors_of rest v)" for v
    by (simp add: worker_actors_of_def hm_get_def)
  then show ?case using i m w of' wa' by (auto simp: hm_ok_def)
qed

lemma all_worker_actors_ok: "plumber_ok pl \<Longrightarrow> \<forall>(w, m) \<in> set (pl_worker_actors pl). hm_ok m"
proof clarify
  fix v m assume ok: "plumber_ok pl" and "(v, m) \<in> set (pl_worker_actors pl)"
  then have "worker_actors_of (pl_worker_actors pl) v = m"
    using hm_get_in_set [of "pl_worker_actors pl" v m] by (simp add: plumber_ok_def pools_ok_def worker_actors_of_def)
  then show "hm_ok m" using ok unfolding plumber_ok_def pools_ok_def by blast
qed

lemma cleanup_ok [nox_inv]:
  assumes "plumber_ok pl"
  shows "plumber_ok (cleanup env ans pl)"
proof -
  define pl1 where "pl1 = (case pl_cleanup_future pl of
      Some keys \<Rightarrow> (if pa_cleanup_done ans
        then pl\<lparr>pl_cleanup_future := None,
          pl_files := batch_cleanup_data (api_bs58 (en_api env)) (api_os (en_api env)) (pa_cleanup ans) (en_store env) keys (pl_files pl)\<rparr>
        else pl) | None \<Rightarrow> pl)"
  have ok1: "plumber_ok pl1" using assms by (auto simp: pl1_def plumber_ok_def split: option.split)
  obtain host keys1 where h: "cleanup_actors (pa_now_cleanup ans) (pl_host_actors pl1) [] = (host, keys1)"
    by (cases "cleanup_actors (pa_now_cleanup ans) (pl_host_actors pl1) []")
  obtain wa keys2 where w: "cleanup_worker_actors (pa_now_cleanup ans) (pl_worker_vm_pools pl1) (pl_worker_actors pl1) keys1 = (wa, keys2)"
    by (cases "cleanup_worker_actors (pa_now_cleanup ans) (pl_worker_vm_pools pl1) (pl_worker_actors pl1) keys1")
  have hh: "busy host = busy (pl_host_actors pl1)" "hm_ok host"
    using cleanup_actors_spec [OF h] subseq_hm_ok [of host "pl_host_actors pl1"] ok1 by (auto simp: plumber_ok_def)
  note all = all_worker_actors_ok [OF ok1]
  have ww: "hm_ok wa \<and> (\<forall>v. busy (worker_actors_of wa v) = busy (worker_actors_of (pl_worker_actors pl1) v) \<and> hm_ok (worker_actors_of wa v))"
    using w retain_worker_actors_ok [of "pa_now_cleanup ans" "pl_worker_vm_pools pl1" "pl_worker_actors pl1" keys1 wa keys2] ok1 all
    by (auto simp: cleanup_worker_actors_def plumber_ok_def pools_ok_def split: if_splits)
  have "pools_ok wa (pl_worker_vm_pools pl1)" using ok1 ww by (auto simp: plumber_ok_def pools_ok_def holding_def)
  then have "plumber_ok (pl1\<lparr>pl_host_actors := host, pl_worker_actors := wa, pl_cleanup_future := x\<rparr>)" for x
    using ok1 hh by (simp add: plumber_ok_def holding_def)
  then show ?thesis unfolding cleanup_def pl1_def [symmetric] Let_def using ok1 h w by auto
qed

subsection \<open>Ingestion\<close>

definition actors_of :: "('vm, 'j, 'f, 'kp, 'e) plumber \<Rightarrow> peer_scope \<Rightarrow> ('vm, 'j, 'f, 'kp) actors" where
  "actors_of pl sc = (case sc of ScopeHost \<Rightarrow> pl_host_actors pl | ScopeWorkerId w \<Rightarrow> worker_actors_of (pl_worker_actors pl) w)"

definition mailbox :: "('vm, 'j, 'f, 'kp) actors \<Rightarrow> actor_key \<Rightarrow> particle list" where
  "mailbox actors k = (case hm_get actors k of None \<Rightarrow> [] | Some a \<Rightarrow> ac_mailbox a)"

text \<open>Whether a particle can have an actor in a scope.\<close>

definition has_place :: "('vm, 'j, 'kp, 'pk, 'e, 'rt, 's) plumber_env \<Rightarrow> particle \<Rightarrow> peer_scope \<Rightarrow> ('vm, 'j, 'f, 'kp) actors \<Rightarrow> bool" where
  "has_place env p sc actors \<longleftrightarrow>
     (case sc of ScopeHost \<Rightarrow> True
      | ScopeWorkerId w \<Rightarrow> hm_contains (worker_infos (en_workers env)) w \<and> get_runtime_handle (en_workers env) w \<noteq> None)
   \<and> (hm_contains actors (signature p)
      \<or> get_keypair (en_key_storage env) sc \<noteq> None \<and> (\<exists>t. sa_sign (en_sign env) (root_key_pair (en_key_storage env)) (signature p) = Inr t))"

lemma busy_insert_same: "hm_get actors k = Some a \<Longrightarrow> ac_future a' = ac_future a \<Longrightarrow> busy (hm_insert k a' actors) = busy actors"
  by (induction actors) (auto simp: hm_get_def hm_insert_def split: if_splits)

lemma busy_insert_new: "hm_get actors k = None \<Longrightarrow> ac_future a = None \<Longrightarrow> busy (hm_insert k a actors) = busy actors"
  using update_new [of k actors a] by (simp add: hm_get_def hm_insert_def map_of_eq_None_iff busy_def)

lemma create_actor_spec:
  assumes "create_actor env p sc peer deal actors = Inr actors'"
  shows "hm_contains actors' (signature p)" "busy actors' = busy actors" "hm_ok actors \<Longrightarrow> hm_ok actors'" "mailbox actors' = mailbox actors"
proof -
  consider "actors' = actors" "hm_contains actors (signature p)"
    | token kp where "\<not> hm_contains actors (signature p)"
        "actors' = hm_insert (signature p) (actor_new p (functions_new (clone_from p sc token)) peer token kp deal) actors"
    using assms by (auto simp: create_actor_def split: if_splits option.splits sum.splits)
  then show "hm_contains actors' (signature p)" "busy actors' = busy actors" "hm_ok actors \<Longrightarrow> hm_ok actors'" "mailbox actors' = mailbox actors"
    by (cases; auto simp: hm_contains_def busy_insert_new actor_new_def mailbox_def fun_eq_iff)+
qed

lemma create_actor_place:
  "(\<exists>actors'. create_actor env p sc peer deal actors = Inr actors') \<longleftrightarrow> hm_contains actors (signature p)
     \<or> get_keypair (en_key_storage env) sc \<noteq> None \<and> (\<exists>t. sa_sign (en_sign env) (root_key_pair (en_key_storage env)) (signature p) = Inr t)"
  by (auto simp: create_actor_def get_particle_token_def split: option.splits sum.splits)

lemma give_particle_spec:
  assumes "give_particle p f actors = (actors', woken)" "hm_contains actors (signature p)"
  shows "busy actors' = busy actors" "hm_ok actors \<Longrightarrow> hm_ok actors'"
    "mailbox actors' k = (if k = signature p then mailbox actors k @ [p] else mailbox actors k)"
proof -
  obtain a where a: "hm_get actors (signature p) = Some a" using assms(2) by (auto simp: hm_contains_def)
  then have e: "actors' = hm_insert (signature p) (case f of Some g \<Rightarrow> actor_set_function g (fst (actor_ingest p a)) | None \<Rightarrow> fst (actor_ingest p a)) actors"
    using assms(1) by (auto simp: give_particle_def actor_ingest_def split: option.split)
  have f: "ac_future (case f of Some g \<Rightarrow> actor_set_function g (fst (actor_ingest p a)) | None \<Rightarrow> fst (actor_ingest p a)) = ac_future a"
    "ac_mailbox (case f of Some g \<Rightarrow> actor_set_function g (fst (actor_ingest p a)) | None \<Rightarrow> fst (actor_ingest p a)) = ac_mailbox a @ [p]"
    by (auto simp: actor_set_function_def actor_ingest_def split: option.split)
  show "busy actors' = busy actors" using e f a busy_insert_same by metis
  show "hm_ok actors \<Longrightarrow> hm_ok actors'" using e by simp
  show "mailbox actors' k = (if k = signature p then mailbox actors k @ [p] else mailbox actors k)" using e f a by (simp add: mailbox_def)
qed

text \<open>A plumber whose actors differ at most in mailboxes, functions and actors without an execution.\<close>

definition same_busy :: "('vm, 'j, 'f, 'kp, 'e) plumber \<Rightarrow> ('vm, 'j, 'f, 'kp, 'e) plumber \<Rightarrow> bool" where
  "same_busy pl pl' \<longleftrightarrow> pl_host_vm_pool pl' = pl_host_vm_pool pl \<and> pl_worker_vm_pools pl' = pl_worker_vm_pools pl
     \<and> (hm_ok (pl_worker_actors pl) \<longrightarrow> hm_ok (pl_worker_actors pl'))
     \<and> (\<forall>sc. busy (actors_of pl' sc) = busy (actors_of pl sc) \<and> (hm_ok (actors_of pl sc) \<longrightarrow> hm_ok (actors_of pl' sc)))"

lemma same_busy_ok: "same_busy pl pl' \<Longrightarrow> plumber_ok pl \<Longrightarrow> plumber_ok pl'"
  unfolding same_busy_def plumber_ok_def pools_ok_def actors_of_def holding_def
  by (auto split: peer_scope.splits)

lemma same_busy_trans: "same_busy a b \<Longrightarrow> same_busy b c \<Longrightarrow> same_busy a c"
  by (simp add: same_busy_def)

lemma same_busy_refl [simp]: "same_busy pl pl"
  by (simp add: same_busy_def)

lemma actors_of_simps [simp]:
  "actors_of (pl\<lparr>pl_events := x\<rparr>) sc = actors_of pl sc" "actors_of (pl\<lparr>pl_awake := y\<rparr>) sc = actors_of pl sc"
  "actors_of (pl_wake pl) sc = actors_of pl sc"
  by (simp_all add: actors_of_def pl_wake_def split: peer_scope.split)

lemma same_busy_simps [simp]:
  "same_busy pl (pl'\<lparr>pl_events := x\<rparr>) = same_busy pl pl'" "same_busy pl (pl_wake pl') = same_busy pl pl'"
  by (simp_all add: same_busy_def pl_wake_def)


lemma same_busy_host:
  "busy m = busy (pl_host_actors pl) \<Longrightarrow> (hm_ok (pl_host_actors pl) \<Longrightarrow> hm_ok m) \<Longrightarrow> same_busy pl (pl\<lparr>pl_host_actors := m\<rparr>)"
  by (auto simp: same_busy_def actors_of_def split: peer_scope.splits)

lemma same_busy_worker:
  "busy m = busy (worker_actors_of (pl_worker_actors pl) w) \<Longrightarrow> (hm_ok (worker_actors_of (pl_worker_actors pl) w) \<Longrightarrow> hm_ok m) \<Longrightarrow>
     same_busy pl (pl\<lparr>pl_worker_actors := hm_insert w m (pl_worker_actors pl)\<rparr>)"
  by (auto simp: same_busy_def actors_of_def split: peer_scope.splits)

lemma actors_of_host [simp]: "actors_of (pl\<lparr>pl_host_actors := m\<rparr>) sc = (if sc = ScopeHost then m else actors_of pl sc)"
  by (auto simp: actors_of_def split: peer_scope.split)

lemma actors_of_worker [simp]:
  "actors_of (pl\<lparr>pl_worker_actors := hm_insert w m (pl_worker_actors pl)\<rparr>) sc = (if sc = ScopeWorkerId w then m else actors_of pl sc)"
  by (auto simp: actors_of_def split: peer_scope.split)

lemma get_or_create_actor_spec:
  fixes env :: "('vm, 'j, 'kp, 'pk, 'e, 'rt, 's) plumber_env"
  assumes "get_or_create_actor env sc p pl = (r, pl')"
  shows "same_busy pl pl' \<and> (\<forall>sc'. mailbox (actors_of pl' sc') = mailbox (actors_of pl sc')) \<and> pl_events pl' = pl_events pl
    \<and> (r = Inr () \<longleftrightarrow> has_place env p sc (actors_of pl sc))
    \<and> (r = Inr () \<longrightarrow> hm_contains (actors_of pl' sc) (signature p) \<and> (\<forall>w. sc = ScopeWorkerId w \<longrightarrow> hm_contains (pl_worker_actors pl') w))
    \<and> (pl_awake pl \<longrightarrow> pl_awake pl')"
proof (cases sc)
  case ScopeHost
  let ?c = "create_actor env p sc (get_host_peer_id (en_scopes env)) None (pl_host_actors pl)"
  have a: "actors_of pl sc = pl_host_actors pl" by (simp add: actors_of_def ScopeHost)
  have hp: "has_place env p sc (actors_of pl sc) \<longleftrightarrow> (\<exists>m. ?c = Inr m)"
    unfolding create_actor_place a has_place_def by (simp add: ScopeHost)
  show ?thesis
  proof (cases ?c)
    case (Inl e)
    then show ?thesis using assms hp by (auto simp: get_or_create_actor_def ScopeHost)
  next
    case (Inr m)
    note c = create_actor_spec [OF Inr]
    have e: "r = Inr ()" "pl' = pl\<lparr>pl_host_actors := m\<rparr>" using assms Inr by (simp_all add: get_or_create_actor_def ScopeHost)
    then show ?thesis using hp c Inr same_busy_host [of m pl] a by (auto simp: ScopeHost)
  qed
next
  case (ScopeWorkerId w)
  define m where "m = worker_actors_of (pl_worker_actors pl) w"
  have m: "m = (case hm_get (pl_worker_actors pl) w of Some m \<Rightarrow> m | None \<Rightarrow> [])"
    by (auto simp: m_def worker_actors_of_def split: option.split)
  let ?c = "create_actor env p sc (worker_peer_id w) (Some (wi_deal_id (the (hm_get (worker_infos (en_workers env)) w)))) m"
  have a: "actors_of pl sc = m" by (simp add: actors_of_def ScopeWorkerId m_def)
  have hp: "has_place env p sc (actors_of pl sc) \<longleftrightarrow> hm_get (worker_infos (en_workers env)) w \<noteq> None
      \<and> get_runtime_handle (en_workers env) w \<noteq> None \<and> (\<exists>m'. ?c = Inr m')"
    unfolding create_actor_place a has_place_def by (simp add: ScopeWorkerId hm_contains_def)
  have keep: "same_busy pl (pl\<lparr>pl_worker_actors := hm_insert w m (pl_worker_actors pl)\<rparr>)"
    by (rule same_busy_worker) (simp_all add: m_def)
  have am: "actors_of pl (ScopeWorkerId w) = m" using a ScopeWorkerId by simp
  show ?thesis
  proof (cases "hm_get (worker_infos (en_workers env)) w \<noteq> None \<and> get_runtime_handle (en_workers env) w \<noteq> None \<and> (\<exists>m'. ?c = Inr m')")
    case True
    then obtain m' i rt where x: "?c = Inr m'" "hm_get (worker_infos (en_workers env)) w = Some i" "get_runtime_handle (en_workers env) w = Some rt" by auto
    have e: "r = Inr ()" "pl' = pl\<lparr>pl_worker_actors := hm_insert w m' (pl_worker_actors pl)\<rparr>"
      using assms x by (auto simp: get_or_create_actor_def ScopeWorkerId get_deal_id_def m [symmetric] Let_def split: sum.splits)
    note c = create_actor_spec [OF x(1)]
    have "same_busy pl pl'" unfolding e(2) by (rule same_busy_worker) (use c in \<open>simp_all add: m_def\<close>)
    then show ?thesis using hp True c e by (auto simp: ScopeWorkerId am hm_contains_def)
  next
    case False
    then have e: "r \<noteq> Inr ()" "pl' = pl\<lparr>pl_worker_actors := hm_insert w m (pl_worker_actors pl)\<rparr>"
      using assms by (auto simp: get_or_create_actor_def ScopeWorkerId get_deal_id_def m [symmetric] Let_def split: sum.splits option.splits)
    then show ?thesis using hp False keep by (auto simp: am)
  qed
qed

lemma ingest_into_spec:
  assumes "hm_contains (actors_of pl sc) (signature p)" "\<And>w. sc = ScopeWorkerId w \<Longrightarrow> hm_contains (pl_worker_actors pl) w"
  shows "same_busy pl (ingest_into sc p f pl) \<and> pl_events (ingest_into sc p f pl) = pl_events pl
    \<and> (\<forall>sc' k. mailbox (actors_of (ingest_into sc p f pl) sc') k
        = (if sc' = sc \<and> k = signature p then mailbox (actors_of pl sc') k @ [p] else mailbox (actors_of pl sc') k))
    \<and> (pl_awake pl \<longrightarrow> pl_awake (ingest_into sc p f pl))"
proof (cases sc)
  case ScopeHost
  obtain m woken where g: "give_particle p f (pl_host_actors pl) = (m, woken)" by (cases "give_particle p f (pl_host_actors pl)")
  have c: "hm_contains (pl_host_actors pl) (signature p)" using assms(1) by (simp add: actors_of_def ScopeHost)
  note s = give_particle_spec [OF g c]
  have e: "ingest_into sc p f pl = pl\<lparr>pl_host_actors := m\<rparr>\<lparr>pl_awake := pl_awake pl \<or> woken\<rparr>" by (simp add: ingest_into_def ScopeHost g)
  have "same_busy pl (pl\<lparr>pl_host_actors := m\<rparr>)" by (rule same_busy_host) (use s in simp_all)
  then have "same_busy pl (ingest_into sc p f pl)" unfolding e by (simp add: same_busy_def)
  moreover have "actors_of pl ScopeHost = pl_host_actors pl" by (simp add: actors_of_def)
  ultimately show ?thesis using s(3) unfolding e by (auto simp: ScopeHost)
next
  case (ScopeWorkerId w)
  obtain m0 where m0: "hm_get (pl_worker_actors pl) w = Some m0" using assms(2) ScopeWorkerId by (auto simp: hm_contains_def)
  then have a: "actors_of pl (ScopeWorkerId w) = m0" by (simp add: actors_of_def worker_actors_of_def)
  obtain m woken where g: "give_particle p f m0 = (m, woken)" by (cases "give_particle p f m0")
  have c: "hm_contains m0 (signature p)" using assms(1) a ScopeWorkerId by simp
  note s = give_particle_spec [OF g c]
  have e: "ingest_into sc p f pl = pl\<lparr>pl_worker_actors := hm_insert w m (pl_worker_actors pl)\<rparr>\<lparr>pl_awake := pl_awake pl \<or> woken\<rparr>"
    by (simp add: ingest_into_def ScopeWorkerId m0 g)
  have "same_busy pl (pl\<lparr>pl_worker_actors := hm_insert w m (pl_worker_actors pl)\<rparr>)"
    by (rule same_busy_worker) (use s m0 in \<open>simp_all add: worker_actors_of_def\<close>)
  then have "same_busy pl (ingest_into sc p f pl)" unfolding e by (simp add: same_busy_def)
  then show ?thesis using s(3) a unfolding e by (auto simp: ScopeWorkerId)
qed

text \<open>When the plumber lets a particle in.\<close>

definition admits :: "('vm, 'j, 'kp, 'pk, 'e, 'rt, 's) plumber_env \<Rightarrow> u64 \<Rightarrow> particle \<Rightarrow> peer_scope \<Rightarrow> bool" where
  "admits env now p sc \<longleftrightarrow> \<not> is_expired (ucast now) p \<and> verify (en_sign env) p = Inr ()
     \<and> (\<forall>w. sc = ScopeWorkerId w \<longrightarrow> is_worker_active (en_workers env) w
          \<or> is_management (en_scopes env) (init_peer_id p) \<or> is_host (en_scopes env) (init_peer_id p))"

lemma ingest_refused: "\<not> admits env now p sc \<Longrightarrow> \<exists>evs. ingest env now p f sc pl = pl\<lparr>pl_events := evs\<rparr>"
  by (cases pl) (auto simp: ingest_def admits_def deadline_is_expired_iff split: sum.splits peer_scope.splits)

lemma ingest_admitted:
  assumes "admits env now p sc" "get_or_create_actor env sc p pl = (r, pl1)"
  shows "ingest env now p f sc pl = (case r of Inr _ \<Rightarrow> pl_wake (ingest_into sc p f pl1) | Inl _ \<Rightarrow> pl_wake pl1)"
  using assms by (auto simp: ingest_def admits_def deadline_is_expired_iff split: sum.split peer_scope.split)

lemma ingest_spec:
  "same_busy pl (ingest env now p f sc pl)
   \<and> (\<forall>sc' k. mailbox (actors_of (ingest env now p f sc pl) sc') k
       = (if admits env now p sc \<and> has_place env p sc (actors_of pl sc) \<and> sc' = sc \<and> k = signature p
          then mailbox (actors_of pl sc') k @ [p] else mailbox (actors_of pl sc') k))
   \<and> pl_events (ingest env now p f sc pl) = pl_events pl
       @ (if is_expired (ucast now) p then [Inl (ApiParticleExpired (particle_id p))]
          else case verify (en_sign env) p of Inl err \<Rightarrow> [Inl (ApiSignatureVerificationFailed (particle_id p) err)] | Inr _ \<Rightarrow> [])
   \<and> (pl_awake pl \<longrightarrow> pl_awake (ingest env now p f sc pl))"
proof (cases "admits env now p sc")
  case False
  then show ?thesis
    by (auto simp: ingest_def admits_def deadline_is_expired_iff split: sum.splits peer_scope.splits)
next
  case True
  have v: "verify (en_sign env) p = Inr ()" "\<not> is_expired (ucast now) p" using True by (simp_all add: admits_def)
  obtain r pl1 where g: "get_or_create_actor env sc p pl = (r, pl1)" by (cases "get_or_create_actor env sc p pl")
  note s = get_or_create_actor_spec [OF g]
  note e = ingest_admitted [OF True g, of f]
  show ?thesis
  proof (cases "r = Inr ()")
    case False
    then obtain x where "r = Inl x" by (cases r) auto
    then show ?thesis using e s v by (auto simp: pl_wake_def same_busy_def)
  next
    case r: True
    have i: "same_busy pl1 (ingest_into sc p f pl1)" "pl_events (ingest_into sc p f pl1) = pl_events pl1"
      "mailbox (actors_of (ingest_into sc p f pl1) sc') k = (if sc' = sc \<and> k = signature p then mailbox (actors_of pl1 sc') k @ [p] else mailbox (actors_of pl1 sc') k)"
      "pl_awake pl1 \<longrightarrow> pl_awake (ingest_into sc p f pl1)" for sc' k
      using ingest_into_spec [of pl1 sc p f] s r by auto
    have "same_busy pl (ingest_into sc p f pl1)" using s i(1) same_busy_trans by blast
    then show ?thesis using e s v r i True by (simp add: pl_wake_def same_busy_def)
  qed
qed

subsection \<open>Polling keeps the invariant and does not sleep on effects\<close>

definition routed_awake :: "'vm poll_state \<Rightarrow> bool" where
  "routed_awake st \<longleftrightarrow> (po_remote st \<noteq> [] \<or> po_local st \<noteq> [] \<longrightarrow> po_awake st)"

lemma complete_actor_awake: "complete_actor scopes r st = Some st' \<Longrightarrow> po_awake st'"
  by (auto simp: complete_actor_def Let_def split: prod.splits option.splits)

lemma poll_actors_awake: "poll_actors env ans sc actors st = Some (actors', st') \<Longrightarrow> routed_awake st \<Longrightarrow> routed_awake st'"
proof (induction actors arbitrary: st actors')
  case (Cons ka actors)
  obtain k a where ka: "ka = (k, a)" by (cases ka)
  obtain r a' fs where c: "poll_completed (en_api env) (en_store env) (pa_calls ans sc k) (pa_execution ans sc k) a (po_files st) = (r, a', fs)"
    by (cases "poll_completed (en_api env) (en_store env) (pa_calls ans sc k) (pa_execution ans sc k) a (po_files st)") auto
  obtain st1 as where s: "(case r of None \<Rightarrow> Some (st\<lparr>po_files := fs\<rparr>) | Some result \<Rightarrow> complete_actor (en_scopes env) result (st\<lparr>po_files := fs\<rparr>)) = Some st1"
    "poll_actors env ans sc actors st1 = Some (as, st')" using Cons.prems(1) c ka by (auto split: option.splits)
  have "routed_awake st1" using s(1) Cons.prems(2) by (auto simp: routed_awake_def split: option.splits dest: complete_actor_awake)
  then show ?case using Cons.IH [OF s(2)] by simp
qed simp

lemma poll_workers_actors_awake:
  "poll_workers_actors env ans wa pools st = Some (wa', pools', st') \<Longrightarrow> routed_awake st \<Longrightarrow> routed_awake st'"
proof (induction wa arbitrary: pools st wa' pools')
  case (Cons x rest)
  obtain w m where x: "x = (w, m)" by (cases x)
  show ?case
  proof (cases "hm_get pools w")
    case None
    then show ?thesis using Cons.prems Cons.IH [of pools st] x by (auto split: prod.splits)
  next
    case (Some vp)
    then obtain m' st1 where p: "poll_actors env ans (ScopeWorkerId w) m (st\<lparr>po_pool := vp\<rparr>) = Some (m', st1)"
      using Cons.prems(1) x by (auto split: option.splits)
    have "routed_awake (st\<lparr>po_pool := vp\<rparr>)" using Cons.prems(2) by (simp add: routed_awake_def)
    then have "routed_awake st1" using poll_actors_awake [OF p] by simp
    then show ?thesis using Cons.prems(1) Cons.IH [of "hm_insert w (po_pool st1) pools" st1] x Some p by (auto split: prod.splits)
  qed
qed simp

lemma poll_pools_ok:
  assumes "plumber_ok pl"
  shows "\<exists>pl'. poll_pools ans pl = Some pl' \<and> plumber_ok pl' \<and> pl_events pl' = pl_events pl"
proof -
  let ?wa = "pl_worker_actors pl" and ?pools = "pl_worker_vm_pools pl"
  have hold: "holding (pl_host_vm_pool pl) {} (pl_host_actors pl)" and po: "pools_ok ?wa ?pools" using assms by (simp_all add: plumber_ok_def)
  obtain vp woken where h: "vm_pool_poll (pa_pool ans ScopeHost) (pl_host_vm_pool pl) = Some (vp, woken)"
    "vms.holds vp ({} \<union> set (busy (pl_host_actors pl)))" using hold vm_pool_poll_holds unfolding holding_def by blast
  have "vms.holds v (set (busy (worker_actors_of ?wa w)))" if "(w, v) \<in> set ?pools" for w v
    using that po hm_get_in_set [of ?pools w v] by (auto simp: pools_ok_def holding_def)
  then obtain pools' woken' where p: "poll_worker_pools ans ?pools = Some (pools', woken')" "map fst pools' = map fst ?pools"
    "\<forall>w v. (w, v) \<in> set pools' \<longrightarrow> vms.holds v (set (busy (worker_actors_of ?wa w)))"
    using poll_worker_pools_holds [of ?pools "\<lambda>w. set (busy (worker_actors_of ?wa w))" ans] by blast
  have ok': "hm_ok pools'" using p(2) po by (simp add: hm_ok_def pools_ok_def)
  have "holding v {} (worker_actors_of ?wa w)" if g: "hm_get pools' w = Some v" for w v
  proof -
    have "w \<in> set (map fst ?pools)" using g p(2) by (metis hm_get_def map_of_eq_None_iff option.distinct(1) list.set_map)
    then obtain v0 where "hm_get ?pools w = Some v0" by (metis hm_get_def map_of_eq_None_iff not_None_eq list.set_map)
    then have "distinct (busy (worker_actors_of ?wa w))" using po by (auto simp: pools_ok_def holding_def)
    moreover have "vms.holds v (set (busy (worker_actors_of ?wa w)))" using g p(3) hm_get_in_set [OF ok', of w v] by blast
    ultimately show ?thesis by (simp add: holding_def)
  qed
  then have "pools_ok ?wa pools'" using po ok' by (simp add: pools_ok_def)
  moreover have "holding vp {} (pl_host_actors pl)" using hold h(2) by (simp add: holding_def)
  ultimately show ?thesis using h(1) p(1) assms by (auto simp: poll_pools_def plumber_ok_def)
qed

lemma poll_collect_ok:
  assumes "plumber_ok pl"
  shows "\<exists>remote loc pl'. poll_collect env ans pl = Some (remote, loc, pl') \<and> plumber_ok pl' \<and> pl_events pl' = pl_events pl
    \<and> (remote \<noteq> [] \<or> loc \<noteq> [] \<longrightarrow> pl_awake pl')"
proof -
  let ?st = "\<lparr>po_pool = pl_host_vm_pool pl, po_files = pl_files pl, po_remote = [], po_local = [], po_awake = pl_awake pl\<rparr>"
  have hold: "holding (po_pool ?st) {} (pl_host_actors pl)" and po: "pools_ok (pl_worker_actors pl) (pl_worker_vm_pools pl)"
    using assms by (simp_all add: plumber_ok_def)
  obtain host st1 where h: "poll_actors env ans ScopeHost (pl_host_actors pl) ?st = Some (host, st1)" "holding (po_pool st1) {} host"
    "map fst host = map fst (pl_host_actors pl)" using poll_actors_holding [OF hold] by blast
  obtain wa pools st2 where w: "poll_workers_actors env ans (pl_worker_actors pl) (pl_worker_vm_pools pl) st1 = Some (wa, pools, st2)"
    "worker_pass (pl_worker_actors pl) (pl_worker_vm_pools pl) wa pools"
    using poll_workers_actors_pass pools_ok_workers_hold [OF po] by blast
  have "routed_awake st2" using poll_workers_actors_awake [OF w(1)] poll_actors_awake [OF h(1)] by (simp add: routed_awake_def)
  then show ?thesis using h w worker_pass_ok [OF po w(2)] assms by (auto simp: poll_collect_def plumber_ok_def hm_ok_def routed_awake_def)
qed

lemma poll_execute_ok:
  assumes "plumber_ok pl"
  shows "\<exists>pl'. poll_execute env ans pl = Some pl' \<and> plumber_ok pl' \<and> pl_events pl' = pl_events pl \<and> (pl_awake pl \<longrightarrow> pl_awake pl')"
proof -
  have hold: "holding (pl_host_vm_pool pl) {} (pl_host_actors pl)" and po: "pools_ok (pl_worker_actors pl) (pl_worker_vm_pools pl)"
    using assms by (simp_all add: plumber_ok_def)
  obtain host vp st wk where h: "poll_next_messages env ans ScopeHost (pl_host_actors pl) (pl_host_vm_pool pl) = Some (host, vp, st, wk)"
    "holding vp {} host" "map fst host = map fst (pl_host_actors pl)" using poll_next_messages_holding [OF hold] by blast
  obtain wa pools stats woken where w: "poll_next_worker_messages env ans (pl_worker_actors pl) (pl_worker_vm_pools pl) = Some (wa, pools, stats, woken)"
    "worker_pass (pl_worker_actors pl) (pl_worker_vm_pools pl) wa pools"
    using poll_next_worker_messages_pass pools_ok_workers_hold [OF po] by blast
  then show ?thesis using h w worker_pass_ok [OF po w(2)] assms by (auto simp: poll_execute_def plumber_ok_def hm_ok_def)
qed

lemma cleanup_frame [nox_frame, simp]: "pl_events (cleanup env ans pl) = pl_events pl" "pl_awake (cleanup env ans pl) = pl_awake pl"
  by (auto simp: cleanup_def Let_def split: option.splits prod.splits)

lemma ingest_local_spec:
  "same_busy pl (ingest_local env ans n ps pl) \<and> (pl_awake pl \<longrightarrow> pl_awake (ingest_local env ans n ps pl))"
proof (induction env ans n ps pl rule: ingest_local.induct)
  case (2 env ans n p sc ps pl)
  then show ?case using ingest_spec [of pl env "pa_now_ingest ans n" p None sc] same_busy_trans by fastforce
qed simp

lemma plumber_poll_ok:
  assumes "plumber_ok pl"
  shows "\<exists>r pl'. plumber_poll env ans pl = Some (r, pl') \<and> plumber_ok pl' \<and> (r = PlPending \<and> pl_events pl' \<noteq> [] \<longrightarrow> pl_awake pl')"
proof -
  have "plumber_ok (pl\<lparr>pl_waker := True, pl_awake := False\<rparr>)" using assms by (simp add: plumber_ok_def)
  then obtain pl1 where p: "poll_pools ans (pl\<lparr>pl_waker := True, pl_awake := False\<rparr>) = Some pl1" "plumber_ok pl1" using poll_pools_ok by blast
  show ?thesis
  proof (cases "pl_events pl1")
    case (Cons ev evs)
    then show ?thesis using p by (auto simp: plumber_poll_def plumber_ok_def)
  next
    case Nil
    obtain remote loc pl2 where c: "poll_collect env ans pl1 = Some (remote, loc, pl2)" "plumber_ok pl2" "pl_events pl2 = []"
      "remote \<noteq> [] \<or> loc \<noteq> [] \<longrightarrow> pl_awake pl2" using poll_collect_ok [OF p(2)] Nil by metis
    obtain pl3 where e: "poll_execute env ans (cleanup env ans pl2) = Some pl3" "plumber_ok pl3" "pl_events pl3 = []" "pl_awake pl2 \<longrightarrow> pl_awake pl3"
      using poll_execute_ok [OF cleanup_ok [OF c(2)], of env ans env ans] c(3) by auto
    let ?pl = "ingest_local env ans 0 (local_particles loc) pl3"
    have i: "same_busy pl3 ?pl" "pl_awake pl3 \<longrightarrow> pl_awake ?pl" using ingest_local_spec by blast+
    have "plumber_ok ?pl" using same_busy_ok [OF i(1) e(2)] .
    moreover have "pl_awake ?pl" if "pl_events ?pl @ map Inr remote \<noteq> []"
    proof (cases "loc = []")
      case True
      then have "remote \<noteq> []" using that e(3) by (auto simp: local_particles_def)
      then show ?thesis using c(4) e(4) i(2) by simp
    next
      case False
      then show ?thesis using c(4) e(4) i(2) by simp
    qed
    ultimately show ?thesis using p c e Nil by (auto simp: plumber_poll_def plumber_ok_def Let_def)
  qed
qed

section \<open>The plumber as a system\<close>

text \<open>
  A pool is created for a worker of which no actor executes: the registry announces a worker once,
  when it is created or loaded, and a new worker has a new key.
\<close>

datatype ('vm, 'j, 'f, 'kp, 'pk, 'e, 'rt, 's) plumber_event =
    PlIngest "('vm, 'j, 'kp, 'pk, 'e, 'rt, 's) plumber_env" u64 particle "'f option" peer_scope
  | PlCreatePool worker_id nat
  | PlRemovePool worker_id
  | PlPoll "('vm, 'j, 'kp, 'pk, 'e, 'rt, 's) plumber_env" "('vm, 'j, 'f, 'e) poll_answers"

fun plumber_next ::
    "('vm, 'j, 'f, 'kp, 'pk, 'e, 'rt, 's) plumber_event \<Rightarrow> ('vm, 'j, 'f, 'kp, 'e) plumber \<Rightarrow> ('vm, 'j, 'f, 'kp, 'e) plumber option" where
  "plumber_next (PlIngest env now p f sc) pl = Some (ingest env now p f sc pl)"
| "plumber_next (PlCreatePool w n) pl =
     (if busy (worker_actors_of (pl_worker_actors pl) w) = [] then Some (create_worker_pool w n pl) else None)"
| "plumber_next (PlRemovePool w) pl = Some (remove_worker_pool w pl)"
| "plumber_next (PlPoll env ans) pl = map_option snd (plumber_poll env ans pl)"

definition plumber_step ::
    "('vm, 'j, 'f, 'kp, 'e) plumber \<Rightarrow> ('vm, 'j, 'f, 'kp, 'pk, 'e, 'rt, 's) plumber_event \<Rightarrow> ('vm, 'j, 'f, 'kp, 'e) plumber \<Rightarrow> bool" where
  "plumber_step pl ev pl' \<longleftrightarrow> plumber_next ev pl = Some pl'"

definition plumber_start :: "('vm, 'j, 'f, 'kp, 'e) plumber \<Rightarrow> bool" where
  "plumber_start pl \<longleftrightarrow> (\<exists>n fs. pl = plumber_new (vm_pool_new n) fs)"

lemma plumber_step_ok: "plumber_ok pl \<Longrightarrow> plumber_step pl ev pl' \<Longrightarrow> plumber_ok pl'"
proof (cases ev)
  case (PlIngest env now p f sc)
  then show "plumber_ok pl \<Longrightarrow> plumber_step pl ev pl' \<Longrightarrow> plumber_ok pl'"
    by (auto simp: plumber_step_def intro: same_busy_ok [OF conjunct1 [OF ingest_spec]])
next
  case (PlCreatePool w n)
  then show "plumber_ok pl \<Longrightarrow> plumber_step pl ev pl' \<Longrightarrow> plumber_ok pl'"
    using vm_pool_new_holds [of n] by (auto simp: plumber_step_def create_worker_pool_def plumber_ok_def pools_ok_def holding_def split: if_splits)
next
  case (PlRemovePool w)
  then show "plumber_ok pl \<Longrightarrow> plumber_step pl ev pl' \<Longrightarrow> plumber_ok pl'"
    by (auto simp: plumber_step_def remove_worker_pool_def plumber_ok_def pools_ok_def split: if_splits)
next
  case (PlPoll env ans)
  then show "plumber_ok pl \<Longrightarrow> plumber_step pl ev pl' \<Longrightarrow> plumber_ok pl'"
    using plumber_poll_ok [of pl env ans] by (auto simp: plumber_step_def)
qed

lemma plumber_start_ok: "plumber_start pl \<Longrightarrow> plumber_ok pl"
  by (auto simp: plumber_start_def plumber_new_def plumber_ok_def pools_ok_def worker_actors_of_def holding_Nil vm_pool_new_ok)

interpretation plumbing: invariant_system plumber_start plumber_step plumber_ok
  by unfold_locales (fact plumber_start_ok, fact plumber_step_ok)

section \<open>Routing and clean-up in detail\<close>

lemma route_spec:
  "route scopes peers = (remote, loc) \<Longrightarrow>
     remote = filter (\<lambda>p. \<exists>e. scope scopes p = Inl e) peers
   \<and> map Inr loc = map (scope scopes) (filter (\<lambda>p. \<exists>sc. scope scopes p = Inr sc) peers)"
proof (induction peers arbitrary: remote loc)
  case (Cons p peers)
  then show ?case by (cases "route scopes peers"; cases "scope scopes p") auto
qed simp

lemma scope_to_peer_id: "scope scopes p = Inr sc \<Longrightarrow> to_peer_id scopes sc = p"
  by (auto simp: scope_def get_host_peer_id_def split: if_splits)

lemma route_local_peers:
  assumes "route scopes peers = (remote, loc)"
  shows "map (to_peer_id scopes) loc = filter (\<lambda>p. \<exists>sc. scope scopes p = Inr sc) peers"
proof -
  have m: "map Inr loc = map (scope scopes) (filter (\<lambda>p. \<exists>sc. scope scopes p = Inr sc) peers)" using route_spec [OF assms] by simp
  have "map (to_peer_id scopes) loc = ps" if "map Inr loc = map (scope scopes) ps" for ps
    using that
  proof (induction loc arbitrary: ps)
    case (Cons sc loc)
    then show ?case by (cases ps) (auto dest: scope_to_peer_id [OF sym])
  qed simp
  then show ?thesis using m by blast
qed

text \<open>The pairs of a particle and a peer it is to be given to, as collected so far.\<close>

definition targets :: "'kp peer_scopes \<Rightarrow> 'vm poll_state \<Rightarrow> (particle \<times> peer_id) list" where
  "targets scopes st = concat (map (\<lambda>e. map (Pair (remote_particle e)) (remote_next_peers e)) (po_remote st))
     @ concat (map (\<lambda>e. map (\<lambda>sc. (local_particle e, to_peer_id scopes sc)) (local_next_peers e)) (po_local st))"

lemma complete_actor_targets:
  assumes "complete_actor scopes ((vm_id, vm), eff, stats) st = Some st'"
  shows "mset (targets scopes st') = mset (targets scopes st) + mset (map (Pair (re_particle eff)) (re_next_peers eff))"
proof -
  let ?remote = "filter (\<lambda>p. \<exists>e. scope scopes p = Inl e) (re_next_peers eff)"
    and ?local = "filter (\<lambda>p. \<exists>sc. scope scopes p = Inr sc) (re_next_peers eff)"
  obtain remote loc where r: "route scopes (re_next_peers eff) = (remote, loc)" by (cases "route scopes (re_next_peers eff)")
  have "po_remote st' = po_remote st @ (if remote \<noteq> [] then [\<lparr>remote_particle = re_particle eff, remote_next_peers = remote\<rparr>] else [])"
    "po_local st' = po_local st @ (if loc \<noteq> [] then [\<lparr>local_particle = re_particle eff, local_next_peers = loc\<rparr>] else [])"
    using assms r by (auto simp: complete_actor_def Let_def split: option.splits)
  then have "mset (targets scopes st') = mset (targets scopes st) + mset (map (Pair (re_particle eff)) remote)
      + mset (map (Pair (re_particle eff)) (map (to_peer_id scopes) loc))"
    by (auto simp: targets_def comp_def)
  also have "\<dots> = mset (targets scopes st) + (mset (map (Pair (re_particle eff)) ?remote) + mset (map (Pair (re_particle eff)) ?local))"
    using route_spec [OF r] route_local_peers [OF r] by (simp add: add.assoc)
  also have "mset (map (Pair (re_particle eff)) ?remote) + mset (map (Pair (re_particle eff)) ?local) = mset (map (Pair (re_particle eff)) (re_next_peers eff))"
  proof -
    have n: "(\<exists>sc. scope scopes p = Inr sc) = (\<not> (\<exists>e. scope scopes p = Inl e))" for p by (cases "scope scopes p") auto
    have "mset ?remote + mset ?local = mset (re_next_peers eff)" unfolding n by simp
    from arg_cong [OF this, of "image_mset (Pair (re_particle eff))"] show ?thesis by simp
  qed
  finally show ?thesis .
qed

text \<open>What cleaning up does to the actors of one scope and to the keys.\<close>

definition cleaned :: "u64 \<Rightarrow> ('vm, 'j, 'f, 'kp) actors \<Rightarrow> ('vm, 'j, 'f, 'kp) actors \<Rightarrow> cleanup_key list \<Rightarrow> bool" where
  "cleaned now m m' keys \<longleftrightarrow>
     (\<forall>k a. hm_get m' k = Some a \<longrightarrow> hm_get m k = Some a)
   \<and> (\<forall>k a. hm_get m k = Some a \<longrightarrow> hm_get m' k = Some a \<or> actor_is_expired now a \<and> \<not> is_executing a \<and> actor_cleanup_key a \<in> set keys)
   \<and> (length keys < MAX_CLEANUP_KEYS_SIZE \<longrightarrow> (\<forall>k a. hm_get m' k = Some a \<longrightarrow> \<not> actor_is_expired now a \<or> is_executing a))"

lemma cleaned_more: "cleaned now m m' keys \<Longrightarrow> set keys \<subseteq> set keys' \<Longrightarrow> length keys \<le> length keys' \<Longrightarrow> cleaned now m m' keys'"
  unfolding cleaned_def by (meson le_less_trans subsetD)

lemma cleanup_actors_cleaned:
  assumes "cleanup_actors now m keys = (m', keys')" "hm_ok m"
  shows "cleaned now m m' keys'" "set keys \<subseteq> set keys'" "length keys \<le> length keys'" "length keys' \<le> max (length keys) MAX_CLEANUP_KEYS_SIZE" "hm_ok m'"
proof -
  note s = cleanup_actors_spec [OF assms(1)]
  obtain R where R: "mset m = mset m' + mset R" "keys' = keys @ map (actor_cleanup_key \<circ> snd) R"
    "\<forall>(k, a) \<in> set R. actor_is_expired now a \<and> \<not> is_executing a" using s by blast
  show ok': "hm_ok m'" using s subseq_hm_ok assms(2) by blast
  have sets: "set m = set m' \<union> set R" using arg_cong [OF R(1), of set_mset] by simp
  show "cleaned now m m' keys'" unfolding cleaned_def
  proof (intro conjI allI impI)
    fix k a
    show "hm_get m k = Some a" if "hm_get m' k = Some a" using that sets hm_get_in_set [OF ok', of k a] hm_get_in_set [OF assms(2), of k a] by blast
    show "hm_get m' k = Some a \<or> actor_is_expired now a \<and> \<not> is_executing a \<and> actor_cleanup_key a \<in> set keys'" if "hm_get m k = Some a"
    proof (cases "(k, a) \<in> set m'")
      case True
      then show ?thesis using hm_get_in_set [OF ok', of k a] by simp
    next
      case False
      then have "(k, a) \<in> set R" using that sets hm_get_in_set [OF assms(2), of k a] by blast
      moreover from this have "actor_cleanup_key a \<in> set keys'" by (force simp: R(2))
      ultimately show ?thesis using R(3) by blast
    qed
    show "\<not> actor_is_expired now a \<or> is_executing a" if "length keys' < MAX_CLEANUP_KEYS_SIZE" "hm_get m' k = Some a"
      using that s hm_get_in_set [OF ok', of k a] by blast
  qed
qed (use cleanup_actors_spec [OF assms(1)] in auto)

lemma retain_worker_actors_cleaned:
  "retain_worker_actors now pools wa keys = (wa', keys') \<Longrightarrow> hm_ok wa \<Longrightarrow> \<forall>(w, m) \<in> set wa. hm_ok m \<Longrightarrow>
     (\<forall>w. cleaned now (worker_actors_of wa w) (worker_actors_of wa' w) keys') \<and> set keys \<subseteq> set keys' \<and> length keys \<le> length keys'
   \<and> length keys' \<le> max (length keys) MAX_CLEANUP_KEYS_SIZE"
proof (induction now pools wa keys arbitrary: wa' keys' rule: retain_worker_actors.induct)
  case (1 now pools keys)
  then show ?case by (auto simp: worker_actors_of_def cleaned_def)
next
  case (2 now pools w m rest keys)
  obtain m' keys1 where c: "cleanup_actors now m keys = (m', keys1)" by (cases "cleanup_actors now m keys")
  obtain rest' keys2 where r: "retain_worker_actors now pools rest keys1 = (rest', keys2)" by (cases "retain_worker_actors now pools rest keys1")
  have e: "wa' = (if m' \<noteq> [] \<or> hm_contains pools w then (w, m') # rest' else rest')" "keys' = keys2" using "2.prems"(1) c r by simp_all
  note cl = cleanup_actors_cleaned [OF c]
  have rk: "hm_ok rest" "\<forall>(w, m) \<in> set rest. hm_ok m" "hm_ok m" using "2.prems" by (simp_all add: hm_ok_def)
  note i = "2.IH" [OF c [symmetric] r rk(1,2)]
  have "set (map fst rest') \<subseteq> set (map fst rest)" using retain_worker_actors_ok [OF r rk(1,2)] by simp
  then have w: "hm_get rest' w = None" using "2.prems"(2) by (auto simp: hm_ok_def hm_get_def map_of_eq_None_iff)
  have "worker_actors_of wa' v = (if v = w then m' else worker_actors_of rest' v)" for v
    using w e by (auto simp: worker_actors_of_def hm_get_def)
  moreover have "worker_actors_of ((w, m) # rest) v = (if v = w then m else worker_actors_of rest v)" for v
    by (simp add: worker_actors_of_def hm_get_def)
  moreover have "cleaned now m m' keys2" using cleaned_more [OF cl(1) [OF rk(3)]] i by simp
  ultimately show ?case using i cl(2-4) [OF rk(3)] e by auto
qed

lemma cleanup_cleaned:
  assumes ok: "plumber_ok pl" and idle: "pl_cleanup_future pl = None \<or> pa_cleanup_done ans"
    and keys: "keys = (case pl_cleanup_future (cleanup env ans pl) of None \<Rightarrow> [] | Some ks \<Rightarrow> ks)"
  shows "cleaned (pa_now_cleanup ans) (actors_of pl sc) (actors_of (cleanup env ans pl) sc) keys \<and> length keys \<le> MAX_CLEANUP_KEYS_SIZE"
proof -
  let ?now = "pa_now_cleanup ans"
  obtain host keys1 where h: "cleanup_actors ?now (pl_host_actors pl) [] = (host, keys1)" by (cases "cleanup_actors ?now (pl_host_actors pl) []")
  obtain wa keys2 where w: "cleanup_worker_actors ?now (pl_worker_vm_pools pl) (pl_worker_actors pl) keys1 = (wa, keys2)"
    by (cases "cleanup_worker_actors ?now (pl_worker_vm_pools pl) (pl_worker_actors pl) keys1")
  have res: "pl_host_actors (cleanup env ans pl) = host" "pl_worker_actors (cleanup env ans pl) = wa" "keys = keys2"
    using idle h w unfolding keys by (auto simp: cleanup_def Let_def split: option.splits)
  have hok: "hm_ok (pl_host_actors pl)" "hm_ok (pl_worker_actors pl)" using ok by (simp_all add: plumber_ok_def pools_ok_def)
  note hc = cleanup_actors_cleaned [OF h hok(1)]
  have wc: "cleaned ?now (worker_actors_of (pl_worker_actors pl) v) (worker_actors_of wa v) keys2 \<and> set keys1 \<subseteq> set keys2
      \<and> length keys1 \<le> length keys2 \<and> length keys2 \<le> MAX_CLEANUP_KEYS_SIZE" for v
  proof (cases "length keys1 \<ge> MAX_CLEANUP_KEYS_SIZE")
    case True
    then show ?thesis using w hc(4) by (auto simp: cleanup_worker_actors_def cleaned_def)
  next
    case False
    then show ?thesis
      using w retain_worker_actors_cleaned [of ?now "pl_worker_vm_pools pl" "pl_worker_actors pl" keys1 wa keys2] hok(2) all_worker_actors_ok [OF ok]
      by (auto simp: cleanup_worker_actors_def)
  qed
  show ?thesis
  proof (cases sc)
    case ScopeHost
    have "cleaned ?now (pl_host_actors pl) host keys2" using cleaned_more [OF hc(1)] wc by blast
    then show ?thesis using res wc ScopeHost by (simp add: actors_of_def)
  next
    case (ScopeWorkerId v)
    then show ?thesis using res wc by (simp add: actors_of_def)
  qed
qed

section \<open>Actors of a worker without a pool\<close>

text \<open>Executions that are under way stay under way.\<close>

definition keeps_futures :: "('vm, 'j, 'f, 'kp) actors \<Rightarrow> ('vm, 'j, 'f, 'kp) actors \<Rightarrow> bool" where
  "keeps_futures m m' \<longleftrightarrow> (\<forall>k a. hm_get m k = Some a \<and> is_executing a \<longrightarrow> (\<exists>a'. hm_get m' k = Some a' \<and> ac_future a' = ac_future a))"

lemma keeps_futures_refl [simp]: "keeps_futures m m"
  by (simp add: keeps_futures_def)

lemma keeps_futures_trans: "keeps_futures m m' \<Longrightarrow> keeps_futures m' m'' \<Longrightarrow> keeps_futures m m''"
  unfolding keeps_futures_def is_executing_def by metis

lemma create_actor_keeps: "create_actor env p sc peer deal m = Inr m' \<Longrightarrow> keeps_futures m m'"
  by (auto simp: create_actor_def keeps_futures_def hm_contains_def split: if_splits option.splits sum.splits)

lemma give_particle_keeps: "give_particle p f m = (m', woken) \<Longrightarrow> keeps_futures m m'"
  by (auto simp: give_particle_def keeps_futures_def actor_ingest_def actor_set_function_def split: option.splits)

lemma actors_of_scope [simp]:
  "actors_of pl ScopeHost = pl_host_actors pl" "actors_of pl (ScopeWorkerId w) = worker_actors_of (pl_worker_actors pl) w"
  by (simp_all add: actors_of_def)

lemma get_or_create_actor_keeps:
  fixes env :: "('vm, 'j, 'kp, 'pk, 'e, 'rt, 's) plumber_env"
  assumes "get_or_create_actor env sc p pl = (r, pl')"
  shows "keeps_futures (actors_of pl sc') (actors_of pl' sc')"
proof (cases sc)
  case ScopeHost
  then show ?thesis using assms by (auto simp: get_or_create_actor_def split: sum.splits dest: create_actor_keeps)
next
  case (ScopeWorkerId w)
  then show ?thesis using assms
    by (cases "hm_get (pl_worker_actors pl) w")
       (auto simp: get_or_create_actor_def worker_actors_of_def Let_def split: sum.splits option.splits dest: create_actor_keeps)
qed

lemma ingest_into_keeps: "keeps_futures (actors_of pl sc') (actors_of (ingest_into sc p f pl) sc')"
  by (cases sc) (auto simp: ingest_into_def actors_of_def worker_actors_of_def split: peer_scope.splits option.splits prod.splits
      dest: give_particle_keeps)

lemma ingest_keeps: "keeps_futures (actors_of pl sc') (actors_of (ingest env now p f sc pl) sc')"
proof (cases "admits env now p sc")
  case False
  then show ?thesis using ingest_refused [OF False, of f pl] by (auto simp: actors_of_def split: peer_scope.split)
next
  case True
  obtain r pl1 where g: "get_or_create_actor env sc p pl = (r, pl1)" by (cases "get_or_create_actor env sc p pl")
  note k = get_or_create_actor_keeps [OF g, of sc']
  then show ?thesis using ingest_admitted [OF True g] keeps_futures_trans [OF k ingest_into_keeps, of sc p f] by (simp split: sum.split)
qed

lemma ingest_local_keeps: "keeps_futures (actors_of pl sc') (actors_of (ingest_local env ans n ps pl) sc')"
proof (induction env ans n ps pl rule: ingest_local.induct)
  case (2 env ans n p sc ps pl)
  then show ?case using keeps_futures_trans [OF ingest_keeps] by simp
qed simp

lemma cleanup_keeps:
  assumes "plumber_ok pl"
  shows "keeps_futures (actors_of pl sc) (actors_of (cleanup env ans pl) sc)"
proof (cases "pl_cleanup_future pl = None \<or> pa_cleanup_done ans")
  case True
  then show ?thesis using cleanup_cleaned [OF assms True refl, where env = env and sc = sc] unfolding cleaned_def keeps_futures_def by blast
next
  case False
  then have "cleanup env ans pl = pl" by (auto simp: cleanup_def)
  then show ?thesis by simp
qed

lemma poll_workers_actors_skips:
  "poll_workers_actors env ans wa pools st = Some (wa', pools', st') \<Longrightarrow> hm_get pools w = None \<Longrightarrow> hm_get wa' w = hm_get wa w \<and> hm_get pools' w = None"
proof (induction wa arbitrary: pools st wa' pools')
  case (Cons x rest)
  obtain v m where x: "x = (v, m)" by (cases x)
  show ?case
  proof (cases "hm_get pools v")
    case None
    then show ?thesis using Cons.prems Cons.IH [of pools st] x by (auto simp: hm_get_def split: prod.splits)
  next
    case (Some vp)
    then obtain m' st1 where p: "poll_actors env ans (ScopeWorkerId v) m (st\<lparr>po_pool := vp\<rparr>) = Some (m', st1)"
      using Cons.prems(1) x by (auto split: option.splits)
    have n: "v \<noteq> w" using Some Cons.prems(2) by auto
    obtain rest' pools2 where q: "poll_workers_actors env ans rest (hm_insert v (po_pool st1) pools) st1 = Some (rest', pools2, st')" "wa' = (v, m') # rest'" "pools' = pools2"
      using Cons.prems(1) x Some p by (auto split: option.splits)
    have "hm_get rest' w = hm_get rest w \<and> hm_get pools2 w = None" using Cons.IH [OF q(1)] Cons.prems(2) n by simp
    then show ?thesis using q n x by (simp add: hm_get_def)
  qed
qed simp

lemma poll_next_worker_messages_skips:
  "poll_next_worker_messages env ans wa pools = Some (wa', pools', stats, woken) \<Longrightarrow> hm_get pools w = None \<Longrightarrow>
     hm_get wa' w = hm_get wa w \<and> hm_get pools' w = None"
proof (induction wa arbitrary: pools wa' pools' stats woken)
  case (Cons x rest)
  obtain v m where x: "x = (v, m)" by (cases x)
  show ?case
  proof (cases "hm_get pools v")
    case None
    then show ?thesis using Cons.prems Cons.IH [of pools] x by (auto simp: hm_get_def split: prod.splits)
  next
    case (Some vp)
    then obtain m' vp' st wk where p: "poll_next_messages env ans (ScopeWorkerId v) m vp = Some (m', vp', st, wk)"
      using Cons.prems(1) x by (auto split: option.splits)
    have n: "v \<noteq> w" using Some Cons.prems(2) by auto
    obtain rest' pools2 st2 wk2 where q: "poll_next_worker_messages env ans rest (hm_insert v vp' pools) = Some (rest', pools2, st2, wk2)" "wa' = (v, m') # rest'" "pools' = pools2"
      using Cons.prems(1) x Some p by (auto split: option.splits)
    have "hm_get rest' w = hm_get rest w \<and> hm_get pools2 w = None" using Cons.IH [OF q(1)] Cons.prems(2) n by simp
    then show ?thesis using q n x by (simp add: hm_get_def)
  qed
qed simp

lemma poll_worker_pools_skips: "poll_worker_pools ans pools = Some (pools', woken) \<Longrightarrow> hm_get pools' w = None \<longleftrightarrow> hm_get pools w = None"
proof (induction pools arbitrary: pools' woken)
  case (Cons x pools)
  obtain v vp where x: "x = (v, vp)" by (cases x)
  then obtain vp' wk rest wk' where "vm_pool_poll (pa_pool ans (ScopeWorkerId v)) vp = Some (vp', wk)"
    "poll_worker_pools ans pools = Some (rest, wk')" "pools' = (v, vp') # rest" using Cons.prems by (auto split: option.splits)
  then show ?case using Cons.IH [of rest wk'] x by (simp add: hm_get_def)
qed simp

lemma plumber_poll_keeps_poolless:
  assumes ok: "plumber_ok pl" and none: "hm_get (pl_worker_vm_pools pl) w = None"
    and p: "plumber_poll env ans pl = Some (r, pl')"
  shows "hm_get (pl_worker_vm_pools pl') w = None \<and> keeps_futures (actors_of pl (ScopeWorkerId w)) (actors_of pl' (ScopeWorkerId w))"
proof -
  have ok0: "plumber_ok (pl\<lparr>pl_waker := True, pl_awake := False\<rparr>)" using ok by (simp add: plumber_ok_def)
  obtain pl1 where q: "poll_pools ans (pl\<lparr>pl_waker := True, pl_awake := False\<rparr>) = Some pl1" "plumber_ok pl1" using poll_pools_ok [OF ok0] by blast
  have n1: "hm_get (pl_worker_vm_pools pl1) w = None" "pl_worker_actors pl1 = pl_worker_actors pl"
    using q(1) none by (auto simp: poll_pools_def poll_worker_pools_skips split: option.splits)
  show ?thesis
  proof (cases "pl_events pl1")
    case (Cons ev evs)
    then show ?thesis using p q n1 by (auto simp: plumber_poll_def)
  next
    case Nil
    obtain remote loc pl2 where c: "poll_collect env ans pl1 = Some (remote, loc, pl2)" "plumber_ok pl2" using poll_collect_ok [OF q(2)] by blast
    have n2: "hm_get (pl_worker_vm_pools pl2) w = None" "worker_actors_of (pl_worker_actors pl2) w = worker_actors_of (pl_worker_actors pl) w"
      using c(1) n1 poll_workers_actors_skips by (fastforce simp: poll_collect_def worker_actors_of_def split: option.splits prod.splits)+
    let ?cl = "cleanup env ans pl2"
    have n3: "hm_get (pl_worker_vm_pools ?cl) w = None" using n2(1) by (auto simp: cleanup_def Let_def split: option.splits prod.splits)
    have k3: "keeps_futures (worker_actors_of (pl_worker_actors pl2) w) (worker_actors_of (pl_worker_actors ?cl) w)"
      using cleanup_keeps [OF c(2), of "ScopeWorkerId w"] by simp
    obtain pl3 where e: "poll_execute env ans ?cl = Some pl3" using poll_execute_ok [OF cleanup_ok [OF c(2)]] by blast
    have n4: "hm_get (pl_worker_vm_pools pl3) w = None" "worker_actors_of (pl_worker_actors pl3) w = worker_actors_of (pl_worker_actors ?cl) w"
      using e n3 poll_next_worker_messages_skips by (fastforce simp: poll_execute_def worker_actors_of_def split: option.splits prod.splits)+
    let ?pl = "ingest_local env ans 0 (local_particles loc) pl3"
    have "pl_worker_vm_pools ?pl = pl_worker_vm_pools pl3" using ingest_local_spec [of pl3 env ans 0 "local_particles loc"] by (simp add: same_busy_def)
    moreover have "keeps_futures (worker_actors_of (pl_worker_actors pl3) w) (worker_actors_of (pl_worker_actors ?pl) w)"
      using ingest_local_keeps [of pl3 "ScopeWorkerId w" env ans 0 "local_particles loc"] by simp
    ultimately show ?thesis using p q c e Nil n2 n4 keeps_futures_trans [OF k3] by (auto simp: plumber_poll_def Let_def)
  qed
qed

definition stuck_actor :: "worker_id \<Rightarrow> actor_key \<Rightarrow> ('vm, 'j) avm_task \<Rightarrow> ('vm, 'j, 'f, 'kp, 'e) plumber \<Rightarrow> bool" where
  "stuck_actor w k t pl \<longleftrightarrow> hm_get (pl_worker_vm_pools pl) w = None
     \<and> (\<exists>a. hm_get (actors_of pl (ScopeWorkerId w)) k = Some a \<and> ac_future a = Some t)"

fun creates_pool_of :: "worker_id \<Rightarrow> ('vm, 'j, 'f, 'kp, 'pk, 'e, 'rt, 's) plumber_event \<Rightarrow> bool" where
  "creates_pool_of w (PlCreatePool v n) = (v = w)"
| "creates_pool_of w _ = False"

lemma stuck_actor_keeps:
  assumes "keeps_futures (actors_of pl (ScopeWorkerId w)) (actors_of pl' (ScopeWorkerId w))" "hm_get (pl_worker_vm_pools pl') w = None"
    "stuck_actor w k t pl"
  shows "stuck_actor w k t pl'"
  using assms unfolding stuck_actor_def keeps_futures_def is_executing_def by (metis option.distinct(1))

lemma stuck_actor_step:
  assumes "plumber_ok pl" "stuck_actor w k t pl" "plumber_step pl ev pl'" "\<not> creates_pool_of w ev"
  shows "stuck_actor w k t pl'"
proof (cases ev)
  case (PlIngest env now p f sc)
  have "pl_worker_vm_pools (ingest env now p f sc pl) = pl_worker_vm_pools pl" using ingest_spec [of pl env now p f sc] by (simp add: same_busy_def)
  then show ?thesis using assms(2,3) PlIngest stuck_actor_keeps [OF ingest_keeps _ assms(2), of env now p f sc]
    by (simp add: plumber_step_def stuck_actor_def)
next
  case (PlCreatePool v n)
  then show ?thesis using assms by (auto simp: plumber_step_def create_worker_pool_def stuck_actor_def split: if_splits)
next
  case (PlRemovePool v)
  then show ?thesis using assms by (auto simp: plumber_step_def remove_worker_pool_def stuck_actor_def)
next
  case (PlPoll env ans)
  then obtain r where "plumber_poll env ans pl = Some (r, pl')" using assms(3) by (auto simp: plumber_step_def)
  then show ?thesis using plumber_poll_keeps_poolless [OF assms(1)] assms(2) stuck_actor_keeps by (metis stuck_actor_def)
qed

section \<open>Properties\<close>

text \<open>
  C8: every virtual machine is at one place.  In every state the plumber can reach, no two actors of the
  host, or of a worker, execute on the same machine, and none executes on a machine that is in the pool or
  is being created; therefore giving a machine back never finds its slot taken, and a poll never panics,
  whatever the futures answer.
\<close>

theorem plumber_machines:
  fixes step :: "('vm, 'j, 'f, 'kp, 'e) plumber \<Rightarrow> ('vm, 'j, 'f, 'kp, 'pk, 'e, 'rt, 's) plumber_event \<Rightarrow> ('vm, 'j, 'f, 'kp, 'e) plumber \<Rightarrow> bool"
  assumes "step = plumber_step" "reachable plumber_start step pl"
  shows "distinct (busy (pl_host_actors pl))
    \<and> set (busy (pl_host_actors pl)) \<inter> (free_slots (pl_host_vm_pool pl) \<union> set (creating_slots (pl_host_vm_pool pl))) = {}
    \<and> (\<forall>w vp. hm_get (pl_worker_vm_pools pl) w = Some vp \<longrightarrow> distinct (busy (actors_of pl (ScopeWorkerId w)))
         \<and> set (busy (actors_of pl (ScopeWorkerId w))) \<inter> (free_slots vp \<union> set (creating_slots vp)) = {})
    \<and> plumber_poll env ans pl \<noteq> None"
proof -
  have ok: "plumber_ok pl" using assms plumbing.reachable_inv by blast
  have "distinct (busy m) \<and> set (busy m) \<inter> (free_slots vp \<union> set (creating_slots vp)) = {}" if "holding vp {} m" for vp :: "'vm vm_pool" and m :: "('vm, 'j, 'f, 'kp) actors"
    using that by (auto simp: holding_def vms.holds_def)
  note apart = this
  have "holding (pl_host_vm_pool pl) {} (pl_host_actors pl)"
    and w: "hm_get (pl_worker_vm_pools pl) w = Some vp \<Longrightarrow> holding vp {} (actors_of pl (ScopeWorkerId w))" for w vp
    using ok by (simp_all add: plumber_ok_def pools_ok_def)
  moreover have "plumber_poll env ans pl \<noteq> None" using plumber_poll_ok [OF ok, of env ans] by auto
  ultimately show ?thesis using apart by blast
qed

text \<open>
  C11: what gets into a mailbox.  Ingesting a particle for a scope appends it to the mailbox of the actor
  with its signature in that scope, and changes no other mailbox, exactly when the particle has not
  expired, its signature verifies, the worker, if it is for one, is active or the particle is from a
  manager or the host, and the actor exists or can be made; otherwise no mailbox changes, and exactly
  expired particles and bad signatures are reported.
\<close>

theorem plumber_admission:
  "mailbox (actors_of (ingest env now p f sc pl) sc') k
     = (if \<not> is_expired (ucast now) p \<and> verify (en_sign env) p = Inr ()
           \<and> (case sc of ScopeHost \<Rightarrow> True
              | ScopeWorkerId w \<Rightarrow> is_worker_active (en_workers env) w \<or> is_management (en_scopes env) (init_peer_id p)
                  \<or> is_host (en_scopes env) (init_peer_id p))
           \<and> has_place env p sc (actors_of pl sc) \<and> sc' = sc \<and> k = signature p
        then mailbox (actors_of pl sc') k @ [p] else mailbox (actors_of pl sc') k)
   \<and> pl_events (ingest env now p f sc pl) = pl_events pl
       @ (if is_expired (ucast now) p then [Inl (ApiParticleExpired (particle_id p))]
          else case verify (en_sign env) p of Inl err \<Rightarrow> [Inl (ApiSignatureVerificationFailed (particle_id p) err)] | Inr _ \<Rightarrow> [])"
proof -
  have "(case sc of ScopeHost \<Rightarrow> True | ScopeWorkerId w \<Rightarrow> is_worker_active (en_workers env) w \<or> is_management (en_scopes env) (init_peer_id p)
      \<or> is_host (en_scopes env) (init_peer_id p)) \<longleftrightarrow> (\<forall>w. sc = ScopeWorkerId w \<longrightarrow> is_worker_active (en_workers env) w
      \<or> is_management (en_scopes env) (init_peer_id p) \<or> is_host (en_scopes env) (init_peer_id p))" by (simp split: peer_scope.split)
  then show ?thesis using ingest_spec [of pl env now p f sc] unfolding admits_def by simp
qed


text \<open>
  C28: the plumber does not go to sleep on effects.  When a poll of a reachable plumber ends without a
  result but leaves events buffered, the polling task has been woken during that poll.
\<close>

theorem plumber_awake_on_effects:
  fixes step :: "('vm, 'j, 'f, 'kp, 'e) plumber \<Rightarrow> ('vm, 'j, 'f, 'kp, 'pk, 'e, 'rt, 's) plumber_event \<Rightarrow> ('vm, 'j, 'f, 'kp, 'e) plumber \<Rightarrow> bool"
  assumes "step = plumber_step" "reachable plumber_start step pl" "plumber_poll env ans pl = Some (PlPending, pl')" "pl_events pl' \<noteq> []"
  shows "pl_awake pl'"
  using plumber_poll_ok [of pl env ans] plumbing.reachable_inv assms by auto

text \<open>
  C29: what cleaning up may remove.  An actor is removed only if it has expired and is not executing, and
  then its data is scheduled for removal; at most 1024 are removed at a time; and if fewer are, no expired
  actor is left but those that execute.
\<close>

theorem cleanup_removes_expired:
  assumes "plumber_ok pl" "pl_cleanup_future pl = None \<or> pa_cleanup_done ans"
    and "keys = (case pl_cleanup_future (cleanup env ans pl) of None \<Rightarrow> [] | Some ks \<Rightarrow> ks)"
  shows "length keys \<le> 1024
    \<and> (\<forall>k a. hm_get (actors_of pl sc) k = Some a \<longrightarrow> hm_get (actors_of (cleanup env ans pl) sc) k = Some a
         \<or> actor_is_expired (pa_now_cleanup ans) a \<and> \<not> is_executing a \<and> actor_cleanup_key a \<in> set keys)
    \<and> (\<forall>k a. hm_get (actors_of (cleanup env ans pl) sc) k = Some a \<longrightarrow> hm_get (actors_of pl sc) k = Some a
         \<and> (length keys < 1024 \<longrightarrow> \<not> actor_is_expired (pa_now_cleanup ans) a \<or> is_executing a))"
  using cleanup_cleaned [OF assms, of sc] unfolding cleaned_def MAX_CLEANUP_KEYS_SIZE_def by auto

text \<open>
  C31: an actor of a worker whose pool has been removed stays forever if it was executing then.  Whatever
  happens afterwards, short of creating a pool for that worker again, its future is neither polled nor
  dropped.
\<close>

theorem removed_worker_actor_stays:
  fixes step :: "('vm, 'j, 'f, 'kp, 'e) plumber \<Rightarrow> ('vm, 'j, 'f, 'kp, 'pk, 'e, 'rt, 's) plumber_event \<Rightarrow> ('vm, 'j, 'f, 'kp, 'e) plumber \<Rightarrow> bool"
  assumes "step = plumber_step" "plumber_ok pl" "hm_get (actors_of pl (ScopeWorkerId w)) k = Some a" "ac_future a = Some t"
    and "trace step (remove_worker_pool w pl) es pl'" "list_all (\<lambda>ev. \<not> creates_pool_of w ev) es"
  shows "\<exists>a'. hm_get (actors_of pl' (ScopeWorkerId w)) k = Some a' \<and> ac_future a' = Some t"
proof -
  have "plumber_ok (remove_worker_pool w pl)" using assms(2) by (auto simp: remove_worker_pool_def plumber_ok_def pools_ok_def split: if_splits)
  moreover have "stuck_actor w k t (remove_worker_pool w pl)" using assms(3,4) by (auto simp: stuck_actor_def remove_worker_pool_def)
  ultimately have "plumber_ok pl' \<and> stuck_actor w k t pl'"
    using trace_preserves [of "\<lambda>pl. plumber_ok pl \<and> stuck_actor w k t pl" step "\<lambda>ev. \<not> creates_pool_of w ev" "remove_worker_pool w pl" es pl']
      stuck_actor_step plumber_step_ok assms(1,5,6) by blast
  then show ?thesis by (auto simp: stuck_actor_def)
qed

section \<open>Examples\<close>

definition demo_plumber_keys :: "string key_storage" where
  "demo_plumber_keys = \<lparr>worker_key_pairs = [WorkerId ''w1'' \<mapsto> ''w1''], key_pairs_dir = Map.empty, root_key_pair = ''host''\<rparr>"

definition demo_plumber_env :: "(nat, string, string, string, unit, nat, unit) plumber_env" where
  "demo_plumber_env = \<lparr>en_api = demo_api, en_sign = demo_sign_api, en_store = demo_store,
     en_workers = \<lparr>worker_ids = Map.empty,
       worker_infos = [(WorkerId ''w1'', \<lparr>wi_deal_id = DealId ''d'', wi_creator = ''host'', wi_active = True, wi_cu_ids = []\<rparr>)],
       workers_dir = Map.empty, w_key_storage = demo_plumber_keys, runtimes = [(WorkerId ''w1'', 0)], w_core_manager = (),
       runtime_counter = 0, sent_events = []\<rparr>,
     en_key_storage = demo_plumber_keys, en_scopes = peer_scopes_new ''host'' ''manager'' ''builtins'' demo_plumber_keys\<rparr>"

definition demo_poll :: "unit execution_answers option \<Rightarrow> (nat, string, unit, unit) poll_answers" where
  "demo_poll ready = \<lparr>pa_pool = (\<lambda>_ _. AvmReady 7), pa_calls = (\<lambda>_ _. []), pa_execution = (\<lambda>_ _. ready), pa_calls_next = (\<lambda>_ _. []),
     pa_cleanup_done = True, pa_cleanup = (\<lambda>_. (None, DirRemoved)), pa_now_cleanup = 100, pa_now_ingest = (\<lambda>_. 100)\<rparr>"

definition demo_pl0 :: "(nat, string, unit, string, unit) plumber" where
  "demo_pl0 = plumber_new (vm_pool_new 1) Map.empty"

text \<open>The machine is created, the particle comes in, it is executed, and it ends.\<close>

definition demo_pl1 :: "(nat, string, unit, string, unit) plumber" where
  "demo_pl1 = demo_pl0\<lparr>pl_host_vm_pool := \<lparr>vp_runtimes = [Some 7], vp_creating = Some [], vp_pool_size = 1\<rparr>, pl_waker := True, pl_awake := True\<rparr>"

lemma demo_step1: "plumber_poll demo_plumber_env (demo_poll None) demo_pl0 = Some (PlPending, demo_pl1)"
  by (simp add: plumber_poll_def demo_pl0_def demo_pl1_def plumber_new_def poll_pools_def vm_pool_poll_def vm_pool_new_def vm_pool_loop.simps
      demo_poll_def poll_collect_def poll_execute_def cleanup_def cleanup_worker_actors_def local_particles_def MAX_CLEANUP_KEYS_SIZE_def)

definition demo_actor :: "(nat, string, unit, string) actor" where
  "demo_actor = actor_new demo_signed (functions_new (clone_from demo_signed ScopeHost (demo_base58 (string_bytes ''host'' @ signature demo_signed))))
     ''host'' (demo_base58 (string_bytes ''host'' @ signature demo_signed)) ''host'' None"

definition demo_pl2 :: "(nat, string, unit, string, unit) plumber" where
  "demo_pl2 = demo_pl1\<lparr>pl_host_actors := [(signature demo_signed, demo_actor\<lparr>ac_mailbox := [demo_signed]\<rparr>)]\<rparr>"

lemma demo_signed_ok: "verify demo_sign_api demo_signed = Inr ()" "\<not> deadline_is_expired 100 (deadline_from demo_signed)"
  by (simp_all add: verify_def demo_sign_api_def demo_signed_def demo_particle_def as_bytes_def deadline_is_expired_def deadline_from_def checked_add_def)

lemma demo_step2: "ingest demo_plumber_env 100 demo_signed None ScopeHost demo_pl1 = demo_pl2"
  by (simp add: ingest_def demo_plumber_env_def demo_signed_ok get_or_create_actor_def create_actor_def demo_pl1_def demo_pl0_def plumber_new_def
      hm_contains_def get_particle_token_def demo_plumber_keys_def demo_api_def ingest_into_def give_particle_def actor_ingest_def hm_insert_def
      hm_get_def demo_pl2_def demo_actor_def pl_wake_def peer_scopes_new_def get_host_peer_id_def)
     (simp add: demo_sign_api_def pl_wake_def ingest_into_def hm_insert_def give_particle_def hm_get_def actor_ingest_def actor_new_def)

definition demo_task :: "(nat, string) avm_task" where
  "demo_task = \<lparr>task_vm_id = 0, task_vm = 7, task_particle = demo_signed, task_calls = []\<rparr>"

definition demo_pl3 :: "(nat, string, unit, string, unit) plumber" where
  "demo_pl3 = demo_pl1\<lparr>pl_host_actors := [(signature demo_signed, demo_actor\<lparr>ac_future := Some demo_task, ac_waker := True\<rparr>)],
     pl_host_vm_pool := \<lparr>vp_runtimes = [None], vp_creating = Some [], vp_pool_size = 1\<rparr>\<rparr>"

lemma demo_step3: "plumber_poll demo_plumber_env (demo_poll None) demo_pl2 = Some (PlPending, demo_pl3)"
proof -
  have d: "ac_deadline demo_actor = deadline_from demo_signed" by (simp add: demo_actor_def actor_new_def)
  have f: "ac_future demo_actor = None" "ac_functions demo_actor = functions_new (clone_from demo_signed ScopeHost (demo_base58 (string_bytes ''host'' @ signature demo_signed)))"
    by (simp_all add: demo_actor_def actor_new_def functions_new_def)
  show ?thesis
    by (simp add: plumber_poll_def demo_pl2_def demo_pl1_def demo_pl0_def demo_pl3_def plumber_new_def poll_pools_def vm_pool_poll_def vm_pool_new_def vm_pool_loop.simps
      demo_poll_def poll_collect_def poll_execute_def cleanup_def cleanup_worker_actors_def local_particles_def MAX_CLEANUP_KEYS_SIZE_def
      poll_completed_def poll_avm_future_def get_vm_def poll_next_def Let_def is_executing_def functions_drain_def d demo_task_def f functions_new_def actor_is_expired_def demo_signed_ok)
       (simp add: demo_actor_def actor_new_def functions_new_def)
qed

text \<open>The runs that the example goes through.\<close>

lemma demo_reachable:
  "reachable plumber_start (plumber_step :: _ \<Rightarrow> (nat, string, unit, string, string, unit, nat, unit) plumber_event \<Rightarrow> _) demo_pl2"
  "reachable plumber_start (plumber_step :: _ \<Rightarrow> (nat, string, unit, string, string, unit, nat, unit) plumber_event \<Rightarrow> _) demo_pl3"
proof -
  have s0: "plumber_start demo_pl0" by (auto simp: plumber_start_def demo_pl0_def)
  have 1: "plumber_step demo_pl0 (PlPoll demo_plumber_env (demo_poll None)) demo_pl1" by (simp add: plumber_step_def demo_step1)
  have 2: "plumber_step demo_pl1 (PlIngest demo_plumber_env 100 demo_signed None ScopeHost) demo_pl2" by (simp add: plumber_step_def demo_step2)
  have 3: "plumber_step demo_pl2 (PlPoll demo_plumber_env (demo_poll None)) demo_pl3" by (simp add: plumber_step_def demo_step3)
  show r2: "reachable plumber_start (plumber_step :: _ \<Rightarrow> (nat, string, unit, string, string, unit, nat, unit) plumber_event \<Rightarrow> _) demo_pl2"
    by (rule reach_step, rule reach_step, rule reach_start, rule s0, rule 1, rule 2)
  show "reachable plumber_start (plumber_step :: _ \<Rightarrow> (nat, string, unit, string, string, unit, nat, unit) plumber_event \<Rightarrow> _) demo_pl3"
    by (rule reach_step, rule r2, rule 3)
qed

theorem plumber_machines_witness:
  "busy (pl_host_actors demo_pl3) = [0] \<and> distinct (busy (pl_host_actors demo_pl3)) \<and> 0 \<notin> free_slots (pl_host_vm_pool demo_pl3)
   \<and> plumber_poll demo_plumber_env (demo_poll (Some demo_execution)) demo_pl3 \<noteq> None"
proof -
  have b: "busy (pl_host_actors demo_pl3) = [0]" by (simp add: demo_pl3_def demo_pl1_def busy_def demo_task_def)
  show ?thesis using plumber_machines [OF refl demo_reachable(2), of demo_plumber_env "demo_poll (Some demo_execution)"] b by simp
qed

definition demo_state :: "nat poll_state" where
  "demo_state = \<lparr>po_pool = \<lparr>vp_runtimes = [None], vp_creating = Some [], vp_pool_size = 1\<rparr>, po_files = Map.empty, po_remote = [], po_local = [], po_awake = False\<rparr>"

lemma demo_scopes:
  "scope (en_scopes demo_plumber_env) ''other'' = Inl (ScopeNotFound ''other'')" "scope (en_scopes demo_plumber_env) ''host'' = Inr ScopeHost"
  "scope (en_scopes demo_plumber_env) ''w1'' = Inr (ScopeWorkerId (WorkerId ''w1''))"
  by (simp_all add: demo_plumber_env_def scope_def peer_scopes_new_def get_worker_key_pair_def demo_plumber_keys_def)


lemma demo_step4: "\<exists>pl'. plumber_poll demo_plumber_env (demo_poll (Some demo_execution)) demo_pl3 = Some (PlPending, pl') \<and> pl_events pl' \<noteq> []"
proof -
  have d: "ac_deadline demo_actor = deadline_from demo_signed" "ac_functions demo_actor = functions_new (clone_from demo_signed ScopeHost (demo_base58 (string_bytes ''host'' @ signature demo_signed)))"
    "ac_mailbox demo_actor = []"
    by (simp_all add: demo_actor_def actor_new_def)
  have env: "en_api demo_plumber_env = demo_api" "en_store demo_plumber_env = demo_store" by (simp_all add: demo_plumber_env_def)
  show ?thesis
    by (simp add: plumber_poll_def demo_pl1_def demo_pl0_def demo_pl3_def plumber_new_def poll_pools_def vm_pool_poll_def vm_pool_new_def vm_pool_loop.simps
      demo_poll_def poll_collect_def poll_execute_def cleanup_def cleanup_worker_actors_def local_particles_def MAX_CLEANUP_KEYS_SIZE_def
      poll_completed_def poll_avm_future_def get_vm_def poll_next_def Let_def is_executing_def functions_drain_def d demo_task_def functions_new_def
      actor_is_expired_def demo_signed_ok env split_beta demo_execute complete_actor_def demo_scopes put_vm_def functions_execute_def)
qed

theorem plumber_awake_on_effects_witness:
  "\<exists>pl'. plumber_poll demo_plumber_env (demo_poll (Some demo_execution)) demo_pl3 = Some (PlPending, pl') \<and> pl_events pl' \<noteq> [] \<and> pl_awake pl'"
proof -
  obtain pl' where p: "plumber_poll demo_plumber_env (demo_poll (Some demo_execution)) demo_pl3 = Some (PlPending, pl')" "pl_events pl' \<noteq> []"
    using demo_step4 by blast
  show ?thesis using plumber_awake_on_effects [OF refl demo_reachable(2) p] p by blast
qed

theorem cleanup_removes_expired_witness:
  "\<exists>keys. keys = (case pl_cleanup_future (cleanup demo_plumber_env ((demo_poll None)\<lparr>pa_now_cleanup := 1000\<rparr>) demo_pl2) of None \<Rightarrow> [] | Some ks \<Rightarrow> ks)
     \<and> length keys \<le> 1024 \<and> hm_get (actors_of (cleanup demo_plumber_env ((demo_poll None)\<lparr>pa_now_cleanup := 1000\<rparr>) demo_pl2) ScopeHost) (signature demo_signed) = None"
proof -
  let ?ans = "(demo_poll None)\<lparr>pa_now_cleanup := 1000\<rparr>"
  have ok: "plumber_ok demo_pl2" using plumbing.reachable_inv [OF demo_reachable(1)] .
  have x: "actor_is_expired 1000 (demo_actor\<lparr>ac_mailbox := m\<rparr>)" "\<not> is_executing (demo_actor\<lparr>ac_mailbox := m\<rparr>)" for m
    by (simp_all add: actor_is_expired_def demo_actor_def actor_new_def deadline_is_expired_def deadline_from_def demo_signed_def demo_particle_def checked_add_def is_executing_def)
  have i: "pl_cleanup_future demo_pl2 = None \<or> pa_cleanup_done ?ans" by (simp add: demo_poll_def)
  have n: "pa_now_cleanup ?ans = 1000" by simp
  have c: "pl_cleanup_future (cleanup demo_plumber_env ?ans demo_pl2) = Some [actor_cleanup_key (demo_actor\<lparr>ac_mailbox := [demo_signed]\<rparr>)]"
    by (simp add: cleanup_def demo_pl2_def demo_pl1_def demo_pl0_def plumber_new_def cleanup_worker_actors_def MAX_CLEANUP_KEYS_SIZE_def x)
  define keys where "keys = (case pl_cleanup_future (cleanup demo_plumber_env ?ans demo_pl2) of None \<Rightarrow> [] | Some ks \<Rightarrow> ks)"
  have k1: "length keys < 1024" by (simp add: keys_def c)
  note t = cleanup_removes_expired [OF ok i keys_def, of ScopeHost]
  have g: "hm_get (actors_of demo_pl2 ScopeHost) (signature demo_signed) = Some (demo_actor\<lparr>ac_mailbox := [demo_signed]\<rparr>)"
    by (simp add: demo_pl2_def hm_get_def)
  have "hm_get (actors_of (cleanup demo_plumber_env ?ans demo_pl2) ScopeHost) (signature demo_signed) = None"
  proof (rule ccontr)
    assume "hm_get (actors_of (cleanup demo_plumber_env ?ans demo_pl2) ScopeHost) (signature demo_signed) \<noteq> None"
    then obtain a where a: "hm_get (actors_of (cleanup demo_plumber_env ?ans demo_pl2) ScopeHost) (signature demo_signed) = Some a" by blast
    then have "hm_get (actors_of demo_pl2 ScopeHost) (signature demo_signed) = Some a" "\<not> actor_is_expired 1000 a \<or> is_executing a"
      using t k1 n by auto
    then show False using g x by simp
  qed
  then show ?thesis using t keys_def by blast
qed

definition demo_removed :: "(nat, string, unit, string, unit) plumber" where
  "demo_removed = demo_pl0\<lparr>pl_worker_actors := [(WorkerId ''w1'', [(signature demo_signed, demo_actor\<lparr>ac_future := Some demo_task\<rparr>)])],
     pl_worker_vm_pools := [(WorkerId ''w1'', \<lparr>vp_runtimes = [None], vp_creating = Some [], vp_pool_size = 1\<rparr>)]\<rparr>"

theorem removed_worker_actor_stays_witness:
  "\<exists>pl' a'. plumber_step (remove_worker_pool (WorkerId ''w1'') demo_removed) (PlPoll demo_plumber_env ((demo_poll (Some demo_execution))\<lparr>pa_now_cleanup := 1000\<rparr>)) pl'
     \<and> hm_get (actors_of pl' (ScopeWorkerId (WorkerId ''w1''))) (signature demo_signed) = Some a' \<and> ac_future a' = Some demo_task"
proof -
  let ?w = "WorkerId ''w1''" and ?ev = "PlPoll demo_plumber_env ((demo_poll (Some demo_execution))\<lparr>pa_now_cleanup := 1000\<rparr>)"
  have h: "vms.holds \<lparr>vp_runtimes = [None], vp_creating = Some [], vp_pool_size = 1\<rparr> {0}"
    unfolding vms.holds_def by (auto simp: vm_pool_ok_def creating_slots_def free_slots_def less_Suc_eq)
  have ok: "plumber_ok demo_removed"
    using h by (auto simp: plumber_ok_def pools_ok_def demo_removed_def demo_pl0_def plumber_new_def vm_pool_new_holds hm_ok_def worker_actors_of_def
        hm_get_def holding_def demo_task_def split: if_splits option.splits)
  have g: "hm_get (actors_of demo_removed (ScopeWorkerId ?w)) (signature demo_signed) = Some (demo_actor\<lparr>ac_future := Some demo_task\<rparr>)"
    by (simp add: demo_removed_def worker_actors_of_def hm_get_def)
  have "plumber_ok (remove_worker_pool ?w demo_removed)"
    using plumber_step_ok [OF ok, of "PlRemovePool ?w :: (nat, string, unit, string, string, unit, nat, unit) plumber_event"] by (simp add: plumber_step_def)
  then obtain pl' where s: "plumber_step (remove_worker_pool ?w demo_removed) ?ev pl'"
    using plumber_poll_ok [of "remove_worker_pool ?w demo_removed" demo_plumber_env] by (fastforce simp: plumber_step_def)
  have f: "ac_future (demo_actor\<lparr>ac_future := Some demo_task\<rparr>) = Some demo_task" by simp
  have t: "trace plumber_step (remove_worker_pool ?w demo_removed) [?ev] pl'" using s by (simp add: trace_Cons_simps)
  show ?thesis using removed_worker_actor_stays [OF refl ok g f t] s by auto
qed

end
