(* ===== verification/Aquamarine.thy ===== *)
theory Aquamarine
  imports Plumber
begin

text \<open>
  The task that drives the plumber, \<^verbatim>\<open>aquamarine/src/aquamarine.rs\<close>: it takes the announcements of the
  worker registry and the commands of its own API, polls the plumber until it has nothing to report, and
  hands what it reports to the outlet.  A service that is added or removed is recorded; the task that
  tells the builtins is not modelled.
\<close>

section \<open>Definitions\<close>

datatype 'f aquamarine_command =
    CmdIngest particle "'f option"
  | CmdAddService string "(string \<times> 'f) list" "'f option"
  | CmdRemoveService string

text \<open>
  \<open>be_room\<close> is how many more results the outlet takes; one that it refuses is only logged, and is in
  \<open>be_dropped\<close>.
\<close>

record ('vm, 'j, 'f, 'kp, 'e) backend =
  be_inlet :: "'f aquamarine_command list"
  be_worker_events :: "worker_event list"
  be_plumber :: "('vm, 'j, 'f, 'kp, 'e) plumber"
  be_out :: "('e aquamarine_api_error + remote_routing_effects) list"
  be_room :: nat
  be_dropped :: "('e aquamarine_api_error + remote_routing_effects) list"
  be_services :: "'f aquamarine_command list"

fun process_worker_events :: "worker_event list \<Rightarrow> ('vm, 'j, 'f, 'kp, 'e) plumber \<Rightarrow> bool \<Rightarrow> ('vm, 'j, 'f, 'kp, 'e) plumber \<times> bool" where
  "process_worker_events [] pl wake = (pl, wake)"
| "process_worker_events (WorkerCreated w n # evs) pl wake = process_worker_events evs (create_worker_pool w n pl) True"
| "process_worker_events (WorkerRemoved w # evs) pl wake = process_worker_events evs (remove_worker_pool w pl) wake"

text \<open>Every particle that comes in is first executed for the host.  \<open>now\<close> gives the clock for each particle.\<close>

fun process_commands ::
    "('vm, 'j, 'kp, 'pk, 'e, 'rt, 's) plumber_env \<Rightarrow> (nat \<Rightarrow> u64) \<Rightarrow> nat \<Rightarrow> 'f aquamarine_command list
      \<Rightarrow> ('vm, 'j, 'f, 'kp, 'e) plumber \<Rightarrow> bool \<Rightarrow> ('vm, 'j, 'f, 'kp, 'e) plumber \<times> bool \<times> 'f aquamarine_command list" where
  "process_commands env now k [] pl wake = (pl, wake, [])"
| "process_commands env now k (CmdIngest p f # cmds) pl wake =
     process_commands env now (k + 1) cmds (ingest env (now k) p f ScopeHost pl) True"
| "process_commands env now k (cmd # cmds) pl wake =
     (case process_commands env now (k + 1) cmds pl wake of (pl', wake', services) \<Rightarrow> (pl', wake', cmd # services))"

lemma poll_pools_events: "poll_pools ans pl = Some pl' \<Longrightarrow> pl_events pl' = pl_events pl"
  by (auto simp: poll_pools_def split: option.splits)

lemma plumber_poll_ready:
  assumes "plumber_poll env ans pl = Some (PlReady ev, pl')"
  shows "pl_events pl = ev # pl_events pl'"
proof -
  obtain pl1 where p: "poll_pools ans (pl\<lparr>pl_waker := True, pl_awake := False\<rparr>) = Some pl1"
    using assms by (auto simp: plumber_poll_def split: option.splits)
  then have "pl_events pl1 = pl_events pl" by (auto dest: poll_pools_events)
  then show ?thesis using assms p by (auto simp: plumber_poll_def Let_def split: list.splits option.splits)
qed

text \<open>
  The loop polls the plumber for as long as it reports something; the answers of the \<open>k\<close>-th poll are
  \<open>ans k\<close>.  Each report takes one event out of the plumber's buffer, so the loop ends.
\<close>

function drain_plumber ::
    "('vm, 'j, 'kp, 'pk, 'e, 'rt, 's) plumber_env \<Rightarrow> (nat \<Rightarrow> ('vm, 'j, 'f, 'e) poll_answers) \<Rightarrow> nat \<Rightarrow> ('vm, 'j, 'f, 'kp, 'e) plumber
      \<Rightarrow> (('e aquamarine_api_error + remote_routing_effects) list \<times> ('vm, 'j, 'f, 'kp, 'e) plumber) option" where
  "drain_plumber env ans k pl =
     (case plumber_poll env (ans k) pl of
        None \<Rightarrow> None
      | Some (PlPending, pl') \<Rightarrow> Some ([], pl')
      | Some (PlReady ev, pl') \<Rightarrow> map_option (\<lambda>(evs, pl''). (ev # evs, pl'')) (drain_plumber env ans (k + 1) pl'))"
  by pat_completeness auto

termination
  by (relation "measure (\<lambda>(env, ans, k, pl). length (pl_events pl))") (auto dest: plumber_poll_ready)

declare drain_plumber.simps [simp del]

text \<open>\<^verbatim>\<open>try_send\<close> for a sequence of results.\<close>

definition send_out ::
    "('e aquamarine_api_error + remote_routing_effects) list \<Rightarrow> ('vm, 'j, 'f, 'kp, 'e) backend \<Rightarrow> ('vm, 'j, 'f, 'kp, 'e) backend" where
  "send_out evs be = fold (\<lambda>ev be. if be_room be > 0 then be\<lparr>be_out := be_out be @ [ev], be_room := be_room be - 1\<rparr>
     else be\<lparr>be_dropped := be_dropped be @ [ev]\<rparr>) evs be"

text \<open>The result says whether the poll is ready; \<open>None\<close> is a panic.\<close>

definition backend_poll ::
    "('vm, 'j, 'kp, 'pk, 'e, 'rt, 's) plumber_env \<Rightarrow> (nat \<Rightarrow> u64) \<Rightarrow> (nat \<Rightarrow> ('vm, 'j, 'f, 'e) poll_answers)
      \<Rightarrow> ('vm, 'j, 'f, 'kp, 'e) backend \<Rightarrow> (bool \<times> ('vm, 'j, 'f, 'kp, 'e) backend) option" where
  "backend_poll env now ans be =
     (case process_worker_events (be_worker_events be) (be_plumber be) False of (pl1, wake1) \<Rightarrow>
      (case process_commands env now 0 (be_inlet be) pl1 wake1 of (pl2, wake2, services) \<Rightarrow>
       (case drain_plumber env ans 0 pl2 of
          None \<Rightarrow> None
        | Some (evs, pl3) \<Rightarrow>
            Some (wake2 \<or> evs \<noteq> [],
              send_out evs (be\<lparr>be_worker_events := [], be_inlet := [], be_plumber := pl3, be_services := be_services be @ services\<rparr>)))))"

text \<open>The API: a command is queued unless the task is gone.\<close>

definition send_command ::
    "bool \<Rightarrow> 'f aquamarine_command \<Rightarrow> string option \<Rightarrow> 'f aquamarine_command list \<Rightarrow> ('e aquamarine_api_error + unit) \<times> 'f aquamarine_command list" where
  "send_command alive cmd pid inlet = (if alive then (Inr (), inlet @ [cmd]) else (Inl (ApiAquamarineDied pid), inlet))"

definition api_execute_particle ::
    "bool \<Rightarrow> particle \<Rightarrow> 'f option \<Rightarrow> 'f aquamarine_command list \<Rightarrow> ('e aquamarine_api_error + unit) \<times> 'f aquamarine_command list" where
  "api_execute_particle alive p f inlet = send_command alive (CmdIngest p f) (Some (particle_id p)) inlet"

definition api_add_service ::
    "bool \<Rightarrow> string \<Rightarrow> (string \<times> 'f) list \<Rightarrow> 'f aquamarine_command list \<Rightarrow> ('e aquamarine_api_error + unit) \<times> 'f aquamarine_command list" where
  "api_add_service alive service fns inlet = send_command alive (CmdAddService service fns None) None inlet"

definition api_remove_service ::
    "bool \<Rightarrow> string \<Rightarrow> 'f aquamarine_command list \<Rightarrow> ('e aquamarine_api_error + unit) \<times> 'f aquamarine_command list" where
  "api_remove_service alive service inlet = send_command alive (CmdRemoveService service) None inlet"

section \<open>Lemmas\<close>

lemma send_out_spec:
  "be_out (send_out evs be) = be_out be @ take (be_room be) evs \<and> be_dropped (send_out evs be) = be_dropped be @ drop (be_room be) evs
     \<and> be_plumber (send_out evs be) = be_plumber be \<and> be_inlet (send_out evs be) = be_inlet be
     \<and> be_worker_events (send_out evs be) = be_worker_events be"
proof (induction evs arbitrary: be)
  case (Cons ev evs)
  have "send_out (ev # evs) be = send_out evs (if be_room be > 0 then be\<lparr>be_out := be_out be @ [ev], be_room := be_room be - 1\<rparr>
     else be\<lparr>be_dropped := be_dropped be @ [ev]\<rparr>)" by (simp add: send_out_def)
  then show ?case using Cons.IH by (cases "be_room be") simp_all
qed (simp add: send_out_def)

lemma drain_plumber_events:
  "plumber_ok pl \<Longrightarrow> \<exists>pl'. drain_plumber env ans k pl = Some (pl_events pl, pl') \<and> plumber_ok pl' \<and> (pl_events pl' \<noteq> [] \<longrightarrow> pl_awake pl')"
proof (induction env ans k pl rule: drain_plumber.induct)
  case (1 env ans k pl)
  obtain r pl1 where p: "plumber_poll env (ans k) pl = Some (r, pl1)" "plumber_ok pl1" "r = PlPending \<and> pl_events pl1 \<noteq> [] \<longrightarrow> pl_awake pl1"
    using plumber_poll_ok [OF "1.prems"] by blast
  show ?case
  proof (cases r)
    case (PlReady ev)
    obtain pl' where "drain_plumber env ans (k + 1) pl1 = Some (pl_events pl1, pl')" "plumber_ok pl'" "pl_events pl' \<noteq> [] \<longrightarrow> pl_awake pl'"
      using "1.IH" [OF p(1) refl PlReady p(2)] by blast
    then show ?thesis using p(1) PlReady plumber_poll_ready [of env "ans k" pl ev pl1] by (subst drain_plumber.simps) auto
  next
    case PlPending
    have "pl_events pl = []"
    proof (rule ccontr)
      assume "pl_events pl \<noteq> []"
      moreover obtain pl2 where "poll_pools (ans k) (pl\<lparr>pl_waker := True, pl_awake := False\<rparr>) = Some pl2"
        using p(1) by (auto simp: plumber_poll_def split: option.splits)
      ultimately show False using p(1) PlPending poll_pools_events by (fastforce simp: plumber_poll_def Let_def split: list.splits option.splits)
    qed
    then show ?thesis using p PlPending by (subst drain_plumber.simps) auto
  qed
qed

text \<open>The pool of a worker after some announcements is decided by the last one about it.\<close>

fun last_announcement :: "worker_id \<Rightarrow> worker_event list \<Rightarrow> bool option" where
  "last_announcement w [] = None"
| "last_announcement w (WorkerCreated v n # evs) =
     (case last_announcement w evs of None \<Rightarrow> if v = w then Some True else None | b \<Rightarrow> b)"
| "last_announcement w (WorkerRemoved v # evs) =
     (case last_announcement w evs of None \<Rightarrow> if v = w then Some False else None | b \<Rightarrow> b)"

lemma process_worker_events_spec:
  assumes "process_worker_events evs pl wake = (pl', wake')"
  shows "pl_worker_actors pl' = pl_worker_actors pl \<and> pl_events pl' = pl_events pl
    \<and> (hm_get (pl_worker_vm_pools pl') w \<noteq> None
        \<longleftrightarrow> (case last_announcement w evs of Some b \<Rightarrow> b | None \<Rightarrow> hm_get (pl_worker_vm_pools pl) w \<noteq> None))
    \<and> (wake' \<longleftrightarrow> wake \<or> (\<exists>v n. WorkerCreated v n \<in> set evs))"
  using assms
proof (induction evs pl wake rule: process_worker_events.induct)
  case (2 v n evs pl wake)
  then show ?case by (cases "last_announcement w evs") (auto simp: create_worker_pool_def)
next
  case (3 v evs pl wake)
  then show ?case by (cases "last_announcement w evs") (auto simp: remove_worker_pool_def)
qed simp

lemma process_worker_events_ok:
  "process_worker_events evs pl wake = (pl', wake') \<Longrightarrow> plumber_ok pl \<Longrightarrow>
     \<forall>w n. WorkerCreated w n \<in> set evs \<longrightarrow> busy (worker_actors_of (pl_worker_actors pl) w) = [] \<Longrightarrow> plumber_ok pl'"
proof (induction evs pl wake rule: process_worker_events.induct)
  case (2 w n evs pl wake)
  have "plumber_step pl (PlCreatePool w n :: ('a, 'b, 'c, 'd, unit, 'e, unit, unit) plumber_event) (create_worker_pool w n pl)"
    using "2.prems"(3) by (auto simp: plumber_step_def)
  then have "plumber_ok (create_worker_pool w n pl)" using plumber_step_ok [OF "2.prems"(2)] by blast
  then show ?case using "2.IH" "2.prems" by (auto simp: create_worker_pool_def)
next
  case (3 w evs pl wake)
  have "plumber_step pl (PlRemovePool w :: ('a, 'b, 'c, 'd, unit, 'e, unit, unit) plumber_event) (remove_worker_pool w pl)"
    by (simp add: plumber_step_def)
  then have "plumber_ok (remove_worker_pool w pl)" using plumber_step_ok [OF "3.prems"(2)] by blast
  then show ?case using "3.IH" "3.prems" by (auto simp: remove_worker_pool_def)
qed simp

text \<open>What a queue of commands reports at once: the particles that are refused.\<close>

fun refusals :: "('vm, 'j, 'kp, 'pk, 'e, 'rt, 's) plumber_env \<Rightarrow> (nat \<Rightarrow> u64) \<Rightarrow> nat \<Rightarrow> 'f aquamarine_command list
    \<Rightarrow> ('e aquamarine_api_error + remote_routing_effects) list" where
  "refusals env now k [] = []"
| "refusals env now k (CmdIngest p f # cmds) =
     (if is_expired (ucast (now k)) p then [Inl (ApiParticleExpired (particle_id p))]
      else case verify (en_sign env) p of Inl err \<Rightarrow> [Inl (ApiSignatureVerificationFailed (particle_id p) err)] | Inr _ \<Rightarrow> [])
     @ refusals env now (k + 1) cmds"
| "refusals env now k (_ # cmds) = refusals env now (k + 1) cmds"

lemma process_commands_spec:
  "process_commands env now k cmds pl wake = (pl', wake', services) \<Longrightarrow>
     (plumber_ok pl \<longrightarrow> plumber_ok pl') \<and> pl_events pl' = pl_events pl @ refusals env now k cmds
   \<and> services = filter (\<lambda>c. case c of CmdIngest _ _ \<Rightarrow> False | _ \<Rightarrow> True) cmds
   \<and> (wake' \<longleftrightarrow> wake \<or> (\<exists>p f. CmdIngest p f \<in> set cmds)) \<and> pl_worker_vm_pools pl' = pl_worker_vm_pools pl"
proof (induction env now k cmds pl wake arbitrary: pl' wake' services rule: process_commands.induct)
  case (2 env now k p f cmds pl wake)
  note s = ingest_spec [of pl env "now k" p f ScopeHost]
  have b: "same_busy pl (ingest env (now k) p f ScopeHost pl)" using s by blast
  have e: "pl_events (ingest env (now k) p f ScopeHost pl) = pl_events pl
       @ (if is_expired (ucast (now k)) p then [Inl (ApiParticleExpired (particle_id p))]
          else case verify (en_sign env) p of Inl err \<Rightarrow> [Inl (ApiSignatureVerificationFailed (particle_id p) err)] | Inr _ \<Rightarrow> [])"
    using s by blast
  show ?case using "2.IH" [of pl' wake' services] "2.prems" same_busy_ok [OF b] b e by (auto simp: same_busy_def)
qed (auto split: prod.splits)

text \<open>Polling creates and removes no pool.\<close>

definition pool_workers :: "(worker_id, 'vm vm_pool) hash_map \<Rightarrow> worker_id set" where
  "pool_workers pools = {w. hm_get pools w \<noteq> None}"

lemma poll_worker_pools_workers: "poll_worker_pools ans pools = Some (pools', woken) \<Longrightarrow> pool_workers pools' = pool_workers pools"
proof (induction pools arbitrary: pools' woken)
  case (Cons x pools)
  obtain w vp where x: "x = (w, vp)" by (cases x)
  obtain vp' rest b where r: "pools' = (w, vp') # rest" "poll_worker_pools ans pools = Some (rest, b)"
    using Cons.prems x by (auto split: option.splits)
  show ?case using Cons.IH [OF r(2)] r(1) x by (auto simp: pool_workers_def hm_get_def set_eq_iff)
qed simp

lemma pool_workers_insert: "hm_get pools w = Some vp \<Longrightarrow> pool_workers (hm_insert w vp' pools) = pool_workers pools"
  by (auto simp: pool_workers_def split: if_splits)

lemma poll_workers_actors_workers:
  "poll_workers_actors env ans wa pools st = Some (wa', pools', st') \<Longrightarrow> pool_workers pools' = pool_workers pools"
proof (induction wa arbitrary: pools st wa' st')
  case (Cons x wa)
  then show ?case by (cases x) (auto simp: pool_workers_insert split: option.splits prod.splits)
qed simp

lemma poll_next_worker_messages_workers:
  "poll_next_worker_messages env ans wa pools = Some (wa', pools', stats, woken) \<Longrightarrow> pool_workers pools' = pool_workers pools"
proof (induction wa arbitrary: pools wa' stats woken)
  case (Cons x wa)
  then show ?case by (cases x) (auto simp: pool_workers_insert split: option.splits prod.splits)
qed simp

lemma plumber_poll_workers:
  assumes "plumber_poll env ans pl = Some (r, pl')"
  shows "pool_workers (pl_worker_vm_pools pl') = pool_workers (pl_worker_vm_pools pl)"
proof -
  obtain pl1 where p: "poll_pools ans (pl\<lparr>pl_waker := True, pl_awake := False\<rparr>) = Some pl1"
    using assms by (auto simp: plumber_poll_def split: option.splits)
  then have w1: "pool_workers (pl_worker_vm_pools pl1) = pool_workers (pl_worker_vm_pools pl)"
    by (auto simp: poll_pools_def dest: poll_worker_pools_workers split: option.splits)
  show ?thesis
  proof (cases "pl_events pl1")
    case Cons
    then show ?thesis using assms p w1 by (auto simp: plumber_poll_def Let_def)
  next
    case Nil
    obtain remote loc pl2 where c: "poll_collect env ans pl1 = Some (remote, loc, pl2)"
      using assms p Nil by (auto simp: plumber_poll_def Let_def split: option.splits)
    have w2: "pool_workers (pl_worker_vm_pools pl2) = pool_workers (pl_worker_vm_pools pl1)"
      using c by (auto simp: poll_collect_def Let_def dest: poll_workers_actors_workers split: option.splits prod.splits)
    have w3: "pl_worker_vm_pools (cleanup env ans pl2) = pl_worker_vm_pools pl2"
      by (auto simp: cleanup_def Let_def split: option.splits prod.splits)
    obtain pl3 where e: "poll_execute env ans (cleanup env ans pl2) = Some pl3"
      using assms p Nil c by (auto simp: plumber_poll_def Let_def split: option.splits)
    have w4: "pool_workers (pl_worker_vm_pools pl3) = pool_workers (pl_worker_vm_pools (cleanup env ans pl2))"
      using e by (auto simp: poll_execute_def Let_def dest: poll_next_worker_messages_workers split: option.splits prod.splits)
    have "pl_worker_vm_pools (ingest_local env ans 0 (local_particles loc) pl3) = pl_worker_vm_pools pl3"
      using ingest_local_spec [of pl3 env ans 0 "local_particles loc"] by (simp add: same_busy_def)
    then show ?thesis using assms p Nil c e w1 w2 w3 w4 by (auto simp: plumber_poll_def Let_def split: if_splits)
  qed
qed

lemma drain_plumber_workers:
  "drain_plumber env ans k pl = Some (evs, pl') \<Longrightarrow> pool_workers (pl_worker_vm_pools pl') = pool_workers (pl_worker_vm_pools pl)"
proof (induction env ans k pl arbitrary: evs rule: drain_plumber.induct)
  case (1 env ans k pl)
  obtain r pl1 where p: "plumber_poll env (ans k) pl = Some (r, pl1)"
    using "1.prems" by (subst (asm) drain_plumber.simps) (auto split: option.splits)
  show ?case
  proof (cases r)
    case (PlReady ev)
    obtain evs1 where "drain_plumber env ans (k + 1) pl1 = Some (evs1, pl')"
      using "1.prems" p PlReady by (subst (asm) drain_plumber.simps) auto
    then show ?thesis using "1.IH" [OF p refl PlReady] plumber_poll_workers [OF p] by simp
  next
    case PlPending
    then show ?thesis using "1.prems" p plumber_poll_workers [OF p] by (subst (asm) drain_plumber.simps) auto
  qed
qed

section \<open>Properties\<close>

text \<open>
  C26: a poll of the backend returns, and forwards every report of the plumber once and in order.  The
  reports are those buffered before, then one for each incoming particle that has expired or is not
  signed by its sender.  The outlet receives them while it has room; the others are lost.  The poll is
  ready exactly if a worker was created, a particle came in or something was reported, and otherwise the
  plumber has work left only if it has woken the task.
\<close>

theorem backend_forwards_reports:
  assumes ok: "plumber_ok (be_plumber be)"
    and new: "\<forall>w n. WorkerCreated w n \<in> set (be_worker_events be) \<longrightarrow> busy (worker_actors_of (pl_worker_actors (be_plumber be)) w) = []"
    and reports: "reports = pl_events (be_plumber be) @ refusals env now 0 (be_inlet be)"
  shows "\<exists>ready be'. backend_poll env now ans be = Some (ready, be')
    \<and> be_out be' = be_out be @ take (be_room be) reports \<and> be_dropped be' = be_dropped be @ drop (be_room be) reports
    \<and> (ready \<longleftrightarrow> (\<exists>w n. WorkerCreated w n \<in> set (be_worker_events be)) \<or> (\<exists>p f. CmdIngest p f \<in> set (be_inlet be)) \<or> reports \<noteq> [])
    \<and> plumber_ok (be_plumber be') \<and> (pl_events (be_plumber be') \<noteq> [] \<longrightarrow> pl_awake (be_plumber be'))"
proof -
  obtain pl1 wake1 where 1: "process_worker_events (be_worker_events be) (be_plumber be) False = (pl1, wake1)"
    by (cases "process_worker_events (be_worker_events be) (be_plumber be) False")
  obtain pl2 wake2 services where 2: "process_commands env now 0 (be_inlet be) pl1 wake1 = (pl2, wake2, services)"
    by (cases "process_commands env now 0 (be_inlet be) pl1 wake1")
  note s1 = process_worker_events_spec [OF 1] and s2 = process_commands_spec [OF 2]
  have ok2: "plumber_ok pl2" using process_worker_events_ok [OF 1 ok new] s2 by blast
  have ev: "pl_events pl2 = reports" using s1 s2 reports by simp
  obtain pl3 where 3: "drain_plumber env ans 0 pl2 = Some (reports, pl3)" "plumber_ok pl3" "pl_events pl3 \<noteq> [] \<longrightarrow> pl_awake pl3"
    using drain_plumber_events [OF ok2, of env ans 0] ev by auto
  then show ?thesis using 1 2 s1 s2 by (auto simp: backend_poll_def send_out_spec)
qed

text \<open>
  The pools follow the registry.  After a poll of the backend, a worker has a pool of machines if the
  last announcement about it was its creation, has none if it was its removal, and is as before if there
  was no announcement.
\<close>

theorem pools_follow_workers:
  assumes "backend_poll env now ans be = Some (ready, be')"
  shows "hm_get (pl_worker_vm_pools (be_plumber be')) w \<noteq> None
    \<longleftrightarrow> (case last_announcement w (be_worker_events be) of Some created \<Rightarrow> created
         | None \<Rightarrow> hm_get (pl_worker_vm_pools (be_plumber be)) w \<noteq> None)"
proof -
  obtain pl1 wake1 where 1: "process_worker_events (be_worker_events be) (be_plumber be) False = (pl1, wake1)"
    by (cases "process_worker_events (be_worker_events be) (be_plumber be) False")
  obtain pl2 wake2 services where 2: "process_commands env now 0 (be_inlet be) pl1 wake1 = (pl2, wake2, services)"
    by (cases "process_commands env now 0 (be_inlet be) pl1 wake1")
  obtain evs pl3 where 3: "drain_plumber env ans 0 pl2 = Some (evs, pl3)" "be_plumber be' = pl3"
    using assms 1 2 by (auto simp: backend_poll_def send_out_spec split: option.splits)
  have "hm_get (pl_worker_vm_pools pl3) w \<noteq> None \<longleftrightarrow> hm_get (pl_worker_vm_pools pl1) w \<noteq> None"
    using drain_plumber_workers [OF 3(1)] process_commands_spec [OF 2] by (auto simp: pool_workers_def)
  then show ?thesis using process_worker_events_spec [OF 1, of w] 3(2) by simp
qed

section \<open>Examples\<close>

text \<open>
  A particle comes in when it has expired and then when it has not, together with the announcement of a
  worker; the outlet has no room.
\<close>

definition demo_backend :: "(nat, string, unit, string, unit) backend" where
  "demo_backend = \<lparr>be_inlet = [CmdIngest demo_signed None, CmdIngest demo_signed None], be_worker_events = [WorkerCreated (WorkerId ''w1'') 2],
     be_plumber = demo_pl1, be_out = [], be_room = 0, be_dropped = [], be_services = []\<rparr>"

definition demo_clock :: "nat \<Rightarrow> u64" where
  "demo_clock k = (if k = 0 then 1000000 else 100)"

lemma demo_backend_refusals: "refusals demo_plumber_env demo_clock 0 (be_inlet demo_backend) = [Inl (ApiParticleExpired (particle_id demo_signed))]"
proof -
  have "deadline_is_expired 1000000 (deadline_from demo_signed)"
    by (simp add: deadline_is_expired_def deadline_from_def demo_signed_def demo_particle_def checked_add_def)
  then have "is_expired 1000000 demo_signed" "\<not> is_expired 100 demo_signed"
    using deadline_is_expired_iff [of 1000000 demo_signed] deadline_is_expired_iff [of 100 demo_signed] demo_signed_ok by simp_all
  then show ?thesis by (simp add: demo_backend_def demo_clock_def demo_plumber_env_def demo_signed_ok)
qed

lemma demo_backend_ok: "plumber_ok (be_plumber demo_backend)"
proof -
  have "plumber_ok demo_pl0" by (rule plumber_start_ok) (auto simp: plumber_start_def demo_pl0_def)
  then show ?thesis using plumber_poll_ok [of demo_pl0 demo_plumber_env "demo_poll None"] demo_step1 by (simp add: demo_backend_def)
qed

theorem backend_forwards_reports_witness:
  "\<exists>be'. backend_poll demo_plumber_env demo_clock (\<lambda>_. demo_poll None) demo_backend = Some (True, be') \<and> be_out be' = []
    \<and> be_dropped be' = [Inl (ApiParticleExpired (particle_id demo_signed))]"
proof -
  have e: "pl_events (be_plumber demo_backend) = []" and n: "be_dropped demo_backend = []" "be_out demo_backend = []" "be_room demo_backend = 0"
    "pl_worker_actors (be_plumber demo_backend) = []"
    by (simp_all add: demo_backend_def demo_pl1_def demo_pl0_def plumber_new_def)
  have b: "busy (worker_actors_of (pl_worker_actors (be_plumber demo_backend)) w) = []" for w using n(4) by (simp add: worker_actors_of_def busy_def)
  show ?thesis
    using backend_forwards_reports [OF demo_backend_ok _ refl, of demo_plumber_env demo_clock "\<lambda>_. demo_poll None"] demo_backend_refusals e n(1,2,3) b by auto
qed

theorem pools_follow_workers_witness:
  "\<exists>ready be'. backend_poll demo_plumber_env demo_clock (\<lambda>_. demo_poll None) (demo_backend\<lparr>be_inlet := []\<rparr>) = Some (ready, be')
    \<and> hm_get (pl_worker_vm_pools (be_plumber be')) (WorkerId ''w1'') \<noteq> None"
proof -
  let ?pl = "create_worker_pool (WorkerId ''w1'') 2 demo_pl1"
  have "plumber_ok demo_pl1" using demo_backend_ok by (simp add: demo_backend_def)
  moreover have "process_worker_events (be_worker_events demo_backend) demo_pl1 False = (?pl, True)" by (simp add: demo_backend_def)
  moreover have "busy (worker_actors_of (pl_worker_actors demo_pl1) w) = []" for w
    by (simp add: demo_pl1_def demo_pl0_def plumber_new_def worker_actors_of_def busy_def)
  ultimately have "plumber_ok ?pl" using process_worker_events_ok by blast
  then obtain pl3 where 3: "drain_plumber demo_plumber_env (\<lambda>_. demo_poll None) 0 ?pl = Some (pl_events ?pl, pl3)"
    using drain_plumber_events by blast
  obtain ready be' where p: "backend_poll demo_plumber_env demo_clock (\<lambda>_. demo_poll None) (demo_backend\<lparr>be_inlet := []\<rparr>) = Some (ready, be')"
    using 3 by (auto simp: backend_poll_def demo_backend_def)
  show ?thesis using p pools_follow_workers [OF p, of "WorkerId ''w1''"] by (simp add: demo_backend_def)
qed
end
