(* ===== verification/App_Services.thy ===== *)
theory App_Services
  imports Particle_Vault Workers
begin

text \<open>
  The services of a node, \<^verbatim>\<open>particle-services/src\<close> (\<^verbatim>\<open>app_services.rs\<close>, \<^verbatim>\<open>persistence.rs\<close>, \<^verbatim>\<open>error.rs\<close>,
  \<^verbatim>\<open>health.rs\<close>) and the file names of \<^verbatim>\<open>crates/service-modules/src/modules/file_names.rs\<close>: creating,
  aliasing, calling and removing them, the files they are created from again after a restart, and the
  locks that the operations take.  The WebAssembly host, the repository of modules and the writer of
  service files are parameters.
\<close>

section \<open>Data\<close>

datatype service_type = TypeService | TypeSpell

definition is_spell :: "service_type \<Rightarrow> bool" where
  "is_spell t = (t = TypeSpell)"

record 'm service =
  sv_module :: 'm
  sv_id :: string
  sv_blueprint_id :: string
  sv_type :: service_type
  sv_owner_id :: peer_id
  sv_aliases :: "string list"
  sv_scope :: peer_scope

record service_info =
  si_id :: string
  si_blueprint_id :: string
  si_type :: service_type
  si_owner_id :: peer_id
  si_aliases :: "string list"
  si_scope :: peer_scope

definition get_info :: "'m service \<Rightarrow> string \<Rightarrow> service_info" where
  "get_info sv i = \<lparr>si_id = i, si_blueprint_id = sv_blueprint_id sv, si_type = sv_type sv, si_owner_id = sv_owner_id sv,
     si_aliases = sv_aliases sv, si_scope = sv_scope sv\<rparr>"

text \<open>\<^verbatim>\<open>Service::remove_alias\<close> removes the first occurrence.\<close>

definition service_remove_alias :: "string \<Rightarrow> 'm service \<Rightarrow> 'm service" where
  "service_remove_alias alias sv = sv\<lparr>sv_aliases := remove1 alias (sv_aliases sv)\<rparr>"

definition service_add_alias :: "string \<Rightarrow> 'm service \<Rightarrow> 'm service" where
  "service_add_alias alias sv = sv\<lparr>sv_aliases := sv_aliases sv @ [alias]\<rparr>"

record 'm services =
  ss_services :: "(string, 'm service) hash_map"
  ss_aliases :: "string \<rightharpoonup> string"

definition services_default :: "'m services" where
  "services_default = \<lparr>ss_services = [], ss_aliases = Map.empty\<rparr>"

record service_health =
  sh_started :: bool
  sh_has_errors :: bool

definition service_health_new :: service_health where
  "service_health_new = \<lparr>sh_started = False, sh_has_errors = True\<rparr>"

definition start_creation :: "service_health \<Rightarrow> service_health" where
  "start_creation h = h\<lparr>sh_started := True\<rparr>"

definition finish_creation :: "service_health \<Rightarrow> service_health" where
  "finish_creation h = h\<lparr>sh_has_errors := False\<rparr>"

definition service_health_status :: "service_health \<Rightarrow> bool" where
  "service_health_status h = (sh_started h \<and> \<not> sh_has_errors h)"

text \<open>The files of all services are in one directory.\<close>

record 'm app_services =
  as_root :: "'m services"
  as_workers :: "(worker_id, 'm services) hash_map"
  as_dir :: dir
  as_health :: "service_health option"

definition app_services_new :: "service_health option \<Rightarrow> dir \<Rightarrow> 'm app_services" where
  "app_services_new health d = \<lparr>as_root = services_default, as_workers = [], as_dir = d, as_health = health\<rparr>"

record persisted_service =
  ps_service_id :: string
  ps_service_type :: "service_type option"
  ps_blueprint_id :: string
  ps_aliases :: "string list"
  ps_owner_id :: peer_id
  ps_peer_scope :: peer_scope

text \<open>
  The errors that the operations below return.  An \<^verbatim>\<open>InternalError\<close> carries its message in the code: here it
  carries the error of the registry of workers that the message shows, and \<open>NoWasiConfig\<close> is the one for
  directories of a module that has none.
\<close>

datatype 'e service_error =
    NoSuchService string peer_scope
  | CallServiceFailedWrongWorker string peer_scope
  | NoSuchAlias string peer_scope
  | Forbidden peer_id string string
  | ForbiddenAliasRoot peer_id
  | ForbiddenAliasWorker peer_id
  | AliasAsServiceId string
  | ForbiddenAlias string
  | Engine 'e
  | ModuleError 'e
  | ServiceVaultError "'e vault_error"
  | SerializePersistedService 'e
  | WritePersistedService string "'e io_error"
  | InternalError "'e workers_error"
  | ServiceWorkerNotFound worker_id
  | FailedToCreateDirectory path "'e io_error"
  | NoWasiConfig

text \<open>The configuration of a module: its name, and the directories it sees, if it has any.\<close>

record module_descriptor =
  md_import_name :: string
  md_wasi :: "(string \<rightharpoonup> path) option"

text \<open>What a call passes to the host.\<close>

record call_parameters =
  cp_particle :: particle_params
  cp_service_id :: string
  cp_service_creator_peer_id :: string
  cp_host_id :: string
  cp_worker_id :: string
  cp_tetraplets :: "security_tetraplet list list"

record ('m, 'j, 'kp, 'rt, 's, 'e) services_env =
  sx_scopes :: "'kp peer_scopes"
  sx_workers :: "('kp, 'rt, 's) workers"
  sx_vault :: particle_vault
  sx_persistent_work_dir :: path
  sx_ephemeral_work_dir :: path
  sx_resolve_blueprint :: "string \<Rightarrow> 'e + module_descriptor list"
  sx_blueprint_name :: "string \<Rightarrow> string option"
  sx_new_app_service :: "module_descriptor list \<Rightarrow> path \<Rightarrow> string \<Rightarrow> 'e + 'm"
  sx_call :: "'m \<Rightarrow> string \<Rightarrow> 'j list \<Rightarrow> call_parameters \<Rightarrow> ('e + 'j) \<times> 'm"
  sx_ser :: "persisted_service \<Rightarrow> 'e + string"
  sx_de :: "string \<Rightarrow> 'e + persisted_service"
  sx_jerror :: "'e service_error \<Rightarrow> 'j jerror"

section \<open>Files\<close>

definition service_file_name :: "string \<Rightarrow> string" where
  "service_file_name i = i @ ''_service.toml''"

definition is_service :: "string \<Rightarrow> bool" where
  "is_service path = suffix ''_service.toml'' path"

definition from_service :: "'m service \<Rightarrow> persisted_service" where
  "from_service sv = \<lparr>ps_service_id = sv_id sv, ps_service_type = Some (sv_type sv), ps_blueprint_id = sv_blueprint_id sv,
     ps_aliases = sv_aliases sv, ps_owner_id = sv_owner_id sv, ps_peer_scope = sv_scope sv\<rparr>"

definition persist_service ::
    "('m, 'j, 'kp, 'rt, 's, 'e) services_env \<Rightarrow> 'e write_result \<Rightarrow> persisted_service \<Rightarrow> dir \<Rightarrow> ('e service_error + unit) \<times> dir" where
  "persist_service env wr ps d =
     (case sx_ser env ps of
        Inl e \<Rightarrow> (Inl (SerializePersistedService e), d)
      | Inr bytes \<Rightarrow> (case fs_write wr (service_file_name (ps_service_id ps)) bytes d of
          (Inl e, d') \<Rightarrow> (Inl (WritePersistedService (service_file_name (ps_service_id ps)) e), d')
        | (Inr _, d') \<Rightarrow> (Inr (), d')))"

definition load_persisted_services ::
    "('m, 'j, 'kp, 'rt, 's, 'e) services_env \<Rightarrow> 'e io_error option \<Rightarrow> ('e + string) list option \<Rightarrow> (string \<Rightarrow> 'e option) \<Rightarrow> dir
      \<Rightarrow> 'e load_data_error + (persisted_service \<times> string) list" where
  "load_persisted_services env create_err listing read_err d =
     load_persisted_data create_err listing read_err is_service (sx_de env) d"

definition remove_persisted_service :: "'e option \<Rightarrow> string \<Rightarrow> dir \<Rightarrow> ('e io_error + unit) \<times> dir" where
  "remove_persisted_service fail i d = fs_remove fail (service_file_name i) d"

section \<open>Finding services\<close>

definition resolve_alias :: "'m services \<Rightarrow> string \<Rightarrow> string \<Rightarrow> string option" where
  "resolve_alias srv alias particle =
     (if (alias = ''spell'' \<or> alias = ''self'') \<and> get_spell_id particle \<noteq> None then get_spell_id particle
      else ss_aliases srv alias)"

definition find_service :: "(string, 'm service) hash_map \<Rightarrow> peer_scope \<Rightarrow> string \<Rightarrow> 'e service_error + 'm service" where
  "find_service m sc i = (case hm_get m i of None \<Rightarrow> Inl (NoSuchService i sc) | Some sv \<Rightarrow> Inr sv)"

fun get_services :: "peer_scope \<Rightarrow> 'm app_services \<Rightarrow> 'e service_error + 'm services" where
  "get_services (ScopeWorkerId w) st = (case hm_get (as_workers st) w of None \<Rightarrow> Inl (ServiceWorkerNotFound w) | Some srv \<Rightarrow> Inr srv)"
| "get_services ScopeHost st = Inr (as_root st)"

fun set_services :: "peer_scope \<Rightarrow> 'm services \<Rightarrow> 'm app_services \<Rightarrow> 'm app_services" where
  "set_services (ScopeWorkerId w) srv st = st\<lparr>as_workers := hm_insert w srv (as_workers st)\<rparr>"
| "set_services ScopeHost srv st = st\<lparr>as_root := srv\<rparr>"

definition get_or_create_worker_services :: "worker_id \<Rightarrow> 'm app_services \<Rightarrow> 'm services \<times> 'm app_services" where
  "get_or_create_worker_services w st =
     (case hm_get (as_workers st) w of
        Some srv \<Rightarrow> (srv, st)
      | None \<Rightarrow> (services_default, st\<lparr>as_workers := hm_insert w services_default (as_workers st)\<rparr>))"

fun get_or_create_services :: "peer_scope \<Rightarrow> 'm app_services \<Rightarrow> 'm services \<times> 'm app_services" where
  "get_or_create_services (ScopeWorkerId w) st = get_or_create_worker_services w st"
| "get_or_create_services ScopeHost st = (as_root st, st)"

definition service_exists :: "peer_scope \<Rightarrow> string \<Rightarrow> 'm app_services \<Rightarrow> bool" where
  "service_exists sc i st =
     (case (get_services sc st :: unit service_error + 'm services) of Inl _ \<Rightarrow> False | Inr srv \<Rightarrow> hm_get (ss_services srv) i \<noteq> None)"

definition get_service :: "peer_scope \<Rightarrow> string \<Rightarrow> string \<Rightarrow> 'm app_services \<Rightarrow> 'e service_error + 'm service \<times> string" where
  "get_service sc id_or_alias particle st =
     (case get_services sc st of
        Inl e \<Rightarrow> Inl e
      | Inr srv \<Rightarrow> (case hm_get (ss_services srv) id_or_alias of
          Some sv \<Rightarrow> Inr (sv, id_or_alias)
        | None \<Rightarrow> (case resolve_alias srv id_or_alias particle of
            None \<Rightarrow> Inl (NoSuchService id_or_alias sc)
          | Some i \<Rightarrow> (case find_service (ss_services srv) sc i of Inl e \<Rightarrow> Inl e | Inr sv \<Rightarrow> Inr (sv, i)))))"

definition get_service_id :: "peer_scope \<Rightarrow> string \<Rightarrow> 'm app_services \<Rightarrow> string option" where
  "get_service_id sc alias st =
     (case (get_services sc st :: unit service_error + 'm services) of Inl _ \<Rightarrow> None | Inr srv \<Rightarrow> ss_aliases srv alias)"

definition get_service_info :: "peer_scope \<Rightarrow> string \<Rightarrow> string \<Rightarrow> 'm app_services \<Rightarrow> 'e service_error + service_info" where
  "get_service_info sc id_or_alias particle st =
     (case get_service sc id_or_alias particle st of Inl e \<Rightarrow> Inl e | Inr (sv, i) \<Rightarrow> Inr (get_info sv i))"

definition to_service_id :: "peer_scope \<Rightarrow> string \<Rightarrow> string \<Rightarrow> 'm app_services \<Rightarrow> 'e service_error + string" where
  "to_service_id sc id_or_alias particle st =
     (case get_service sc id_or_alias particle st of Inl e \<Rightarrow> Inl e | Inr (_, i) \<Rightarrow> Inr i)"

definition get_service_owner :: "peer_scope \<Rightarrow> string \<Rightarrow> string \<Rightarrow> 'm app_services \<Rightarrow> 'e service_error + peer_id" where
  "get_service_owner sc id_or_alias particle st =
     (case get_service sc id_or_alias particle st of Inl e \<Rightarrow> Inl e | Inr (sv, _) \<Rightarrow> Inr (sv_owner_id sv))"

definition check_service_worker_id :: "peer_scope \<Rightarrow> string \<Rightarrow> string \<Rightarrow> 'm app_services \<Rightarrow> 'e service_error + unit" where
  "check_service_worker_id sc id_or_alias particle st =
     (case get_service sc id_or_alias particle st of
        Inl e \<Rightarrow> Inl e
      | Inr (sv, _) \<Rightarrow> if sv_scope sv \<noteq> sc then Inl (CallServiceFailedWrongWorker id_or_alias sc) else Inr ())"

definition api_resolve_alias :: "peer_scope \<Rightarrow> string \<Rightarrow> string \<Rightarrow> 'm app_services \<Rightarrow> ('e service_error + string) \<times> 'm app_services" where
  "api_resolve_alias sc alias particle st =
     (case get_or_create_services sc st of (srv, st1) \<Rightarrow>
        ((case resolve_alias srv alias particle of None \<Rightarrow> Inl (NoSuchAlias alias sc) | Some i \<Rightarrow> Inr i), st1))"

definition list_services :: "peer_scope \<Rightarrow> 'm app_services \<Rightarrow> service_info list" where
  "list_services sc st =
     (case (get_services sc st :: unit service_error + 'm services) of Inl _ \<Rightarrow> [] | Inr srv \<Rightarrow> map (\<lambda>(i, sv). get_info sv i) (ss_services srv))"

definition list_services_all :: "'m app_services \<Rightarrow> service_info list" where
  "list_services_all st =
     concat (map (\<lambda>(w, srv). map (\<lambda>(i, sv). get_info sv i) (ss_services srv)) (as_workers st))
     @ map (\<lambda>(i, sv). get_info sv i) (ss_services (as_root st))"

section \<open>Creating services\<close>

definition inject_default_wasi :: "module_descriptor \<Rightarrow> module_descriptor" where
  "inject_default_wasi m = (case md_wasi m of None \<Rightarrow> m\<lparr>md_wasi := Some Map.empty\<rparr> | Some _ \<Rightarrow> m)"

text \<open>A directory of the module is created below the given one; \<open>fail\<close> is the system's answer.\<close>

definition inject_dirs :: "string \<Rightarrow> string \<Rightarrow> 'e io_error option \<Rightarrow> module_descriptor \<Rightarrow> path \<Rightarrow> 'e service_error + module_descriptor" where
  "inject_dirs outer inner fail m d =
     (let module_dir = path_push d (md_import_name m) in
      case fail of
        Some e \<Rightarrow> Inl (FailedToCreateDirectory module_dir e)
      | None \<Rightarrow> (case md_wasi m of
          None \<Rightarrow> Inl NoWasiConfig
        | Some dirs \<Rightarrow> Inr (m\<lparr>md_wasi := Some (dirs(outer \<mapsto> d, inner \<mapsto> module_dir))\<rparr>)))"

definition inject_persistent_dirs :: "'e io_error option \<Rightarrow> module_descriptor \<Rightarrow> path \<Rightarrow> 'e service_error + module_descriptor" where
  "inject_persistent_dirs = inject_dirs ''/storage'' ''/storage/module''"

definition inject_ephemeral_dirs :: "'e io_error option \<Rightarrow> module_descriptor \<Rightarrow> path \<Rightarrow> 'e service_error + module_descriptor" where
  "inject_ephemeral_dirs = inject_dirs ''/tmp'' ''/tmp/module''"

text \<open>The answers of the system to one creation: for the directories of the service, of the vault, and of each module.\<close>

record 'e creation_answers =
  cr_persistent :: "'e io_error option"
  cr_ephemeral :: "'e io_error option"
  cr_vault :: "'e io_error option"
  cr_module_persistent :: "string \<Rightarrow> 'e io_error option"
  cr_module_ephemeral :: "string \<Rightarrow> 'e io_error option"

text \<open>The outer \<open>None\<close> is the panic when the vault is injected into a module without directories.\<close>

definition prepare_module ::
    "particle_vault \<Rightarrow> peer_id \<Rightarrow> 'e creation_answers \<Rightarrow> path \<Rightarrow> path \<Rightarrow> module_descriptor \<Rightarrow> ('e service_error + module_descriptor) option" where
  "prepare_module v peer an persistent ephemeral m0 =
     (let m1 = inject_default_wasi m0 in
      case inject_vault v peer (md_wasi m1) of
        None \<Rightarrow> None
      | Some wasi \<Rightarrow> (let m2 = m1\<lparr>md_wasi := wasi\<rparr> in
          case inject_persistent_dirs (cr_module_persistent an (md_import_name m2)) m2 persistent of
            Inl e \<Rightarrow> Some (Inl e)
          | Inr m3 \<Rightarrow> Some (inject_ephemeral_dirs (cr_module_ephemeral an (md_import_name m3)) m3 ephemeral)))"

fun prepare_modules ::
    "particle_vault \<Rightarrow> peer_id \<Rightarrow> 'e creation_answers \<Rightarrow> path \<Rightarrow> path \<Rightarrow> module_descriptor list \<Rightarrow> ('e service_error + module_descriptor list) option" where
  "prepare_modules v peer an persistent ephemeral [] = Some (Inr [])"
| "prepare_modules v peer an persistent ephemeral (m # ms) =
     (case prepare_module v peer an persistent ephemeral m of
        None \<Rightarrow> None
      | Some (Inl e) \<Rightarrow> Some (Inl e)
      | Some (Inr m') \<Rightarrow> map_option (\<lambda>r. case r of Inl e \<Rightarrow> Inl e | Inr ms' \<Rightarrow> Inr (m' # ms')) (prepare_modules v peer an persistent ephemeral ms))"

definition create_app_service ::
    "('m, 'j, 'kp, 'rt, 's, 'e) services_env \<Rightarrow> 'e creation_answers \<Rightarrow> peer_id \<Rightarrow> string \<Rightarrow> string \<Rightarrow> ('e service_error + 'm) option" where
  "create_app_service env an peer blueprint i =
     (let persistent = path_push (sx_persistent_work_dir env) i; ephemeral = path_push (sx_ephemeral_work_dir env) i in
      case cr_persistent an of
        Some e \<Rightarrow> Some (Inl (FailedToCreateDirectory persistent e))
      | None \<Rightarrow> (case cr_ephemeral an of
          Some e \<Rightarrow> Some (Inl (FailedToCreateDirectory ephemeral e))
        | None \<Rightarrow> (case sx_resolve_blueprint env blueprint of
            Inl e \<Rightarrow> Some (Inl (ModuleError e))
          | Inr ms \<Rightarrow> (case initialize_worker (cr_vault an) (sx_vault env) peer of
              Inl e \<Rightarrow> Some (Inl (ServiceVaultError e))
            | Inr _ \<Rightarrow> map_option (\<lambda>r. case r of
                  Inl e \<Rightarrow> Inl e
                | Inr ms' \<Rightarrow> (case sx_new_app_service env ms' persistent i of Inl e \<Rightarrow> Inl (Engine e) | Inr x \<Rightarrow> Inr x))
                (prepare_modules (sx_vault env) peer an persistent ephemeral ms)))))"

definition create_service_inner ::
    "('m, 'j, 'kp, 'rt, 's, 'e) services_env \<Rightarrow> 'e creation_answers \<Rightarrow> 'e write_result \<Rightarrow> service_type \<Rightarrow> string \<Rightarrow> peer_id \<Rightarrow> peer_scope
      \<Rightarrow> string \<Rightarrow> string list \<Rightarrow> 'm app_services \<Rightarrow> (('e service_error + 'm service option) \<times> 'm app_services) option" where
  "create_service_inner env an wr ty blueprint owner sc i aliases st =
     (case create_app_service env an (to_peer_id (sx_scopes env) sc) blueprint i of
        None \<Rightarrow> None
      | Some (Inl e) \<Rightarrow> Some (Inl e, st)
      | Some (Inr x) \<Rightarrow>
          (let sv = \<lparr>sv_module = x, sv_id = i, sv_blueprint_id = blueprint, sv_type = ty, sv_owner_id = owner, sv_aliases = aliases, sv_scope = sc\<rparr> in
           case persist_service env wr (from_service sv) (as_dir st) of
             (Inl e, d) \<Rightarrow> Some (Inl e, st\<lparr>as_dir := d\<rparr>)
           | (Inr _, d) \<Rightarrow> (case get_or_create_services sc (st\<lparr>as_dir := d\<rparr>) of (srv, st1) \<Rightarrow>
               Some (Inr (hm_get (ss_services srv) i), set_services sc (srv\<lparr>ss_services := hm_insert i sv (ss_services srv)\<rparr>) st1))))"

text \<open>\<open>i\<close> is the fresh identifier of the service.\<close>

definition create_service ::
    "('m, 'j, 'kp, 'rt, 's, 'e) services_env \<Rightarrow> 'e creation_answers \<Rightarrow> 'e write_result \<Rightarrow> string \<Rightarrow> peer_scope \<Rightarrow> service_type \<Rightarrow> string \<Rightarrow> peer_id
      \<Rightarrow> 'm app_services \<Rightarrow> (('e service_error + string) \<times> 'm app_services) option" where
  "create_service env an wr i sc ty blueprint owner st =
     (case (case sc of ScopeHost \<Rightarrow> None
            | ScopeWorkerId w \<Rightarrow> if get_runtime_handle (sx_workers env) w = None then Some (ServiceWorkerNotFound w) else None) of
        Some e \<Rightarrow> Some (Inl e, st)
      | None \<Rightarrow> map_option (\<lambda>(r, st1). ((case r of Inl e \<Rightarrow> Inl e | Inr _ \<Rightarrow> Inr i), st1))
          (create_service_inner env an wr ty blueprint owner sc i [] st))"

section \<open>Removing services\<close>

text \<open>
  Removing one service checks the caller under the locks of the lookup, removes the file without a lock,
  and then removes the service under the write locks.
\<close>

definition remove_service_check ::
    "('m, 'j, 'kp, 'rt, 's, 'e) services_env \<Rightarrow> peer_scope \<Rightarrow> string \<Rightarrow> string \<Rightarrow> peer_id \<Rightarrow> bool \<Rightarrow> 'm app_services \<Rightarrow> 'e service_error + string" where
  "remove_service_check env sc particle id_or_alias init_peer allow_remove_spell st =
     (case get_service sc id_or_alias particle st of
        Inl e \<Rightarrow> Inl e
      | Inr (sv, i) \<Rightarrow>
          if is_spell (sv_type sv) \<and> \<not> allow_remove_spell then Inl (Forbidden init_peer ''remove_service'' ''cannot remove a spell'')
          else if \<not> is_spell (sv_type sv) \<and> allow_remove_spell then Inl (Forbidden init_peer ''remove_spell'' (''the service isn'' @ [CHR 39] @ ''t a spell''))
          else if to_peer_id (sx_scopes env) sc \<noteq> init_peer \<and> sv_owner_id sv \<noteq> init_peer \<and> \<not> is_management (sx_scopes env) init_peer
            then Inl (Forbidden init_peer ''remove_service'' ''only creator can remove service'')
          else Inr i)"

definition remove_service_file :: "'e option \<Rightarrow> string \<Rightarrow> 'm app_services \<Rightarrow> 'm app_services" where
  "remove_service_file fail i st = st\<lparr>as_dir := snd (remove_persisted_service fail i (as_dir st))\<rparr>"

text \<open>\<open>None\<close> is the panic when the service has gone since the check.\<close>

definition remove_service_commit :: "peer_scope \<Rightarrow> string \<Rightarrow> 'm app_services \<Rightarrow> (('e service_error + unit) \<times> 'm app_services) option" where
  "remove_service_commit sc i st =
     (case get_services sc st of
        Inl e \<Rightarrow> Some (Inl e, st)
      | Inr srv \<Rightarrow> (case hm_get (ss_services srv) i of
          None \<Rightarrow> None
        | Some sv \<Rightarrow> Some (Inr (), set_services sc (srv\<lparr>ss_services := hm_remove i (ss_services srv),
            ss_aliases := ss_aliases srv |` (- set (sv_aliases sv))\<rparr>) st)))"

definition remove_service ::
    "('m, 'j, 'kp, 'rt, 's, 'e) services_env \<Rightarrow> 'e option \<Rightarrow> peer_scope \<Rightarrow> string \<Rightarrow> string \<Rightarrow> peer_id \<Rightarrow> bool \<Rightarrow> 'm app_services
      \<Rightarrow> (('e service_error + unit) \<times> 'm app_services) option" where
  "remove_service env fail sc particle id_or_alias init_peer allow_remove_spell st =
     (case remove_service_check env sc particle id_or_alias init_peer allow_remove_spell st of
        Inl e \<Rightarrow> Some (Inl e, st)
      | Inr i \<Rightarrow> remove_service_commit sc i (remove_service_file fail i st))"

definition remove_services :: "(string \<Rightarrow> 'e option) \<Rightarrow> peer_scope \<Rightarrow> 'm app_services \<Rightarrow> ('e service_error + unit) \<times> 'm app_services" where
  "remove_services fail sc st =
     (case get_services sc st of
        Inl e \<Rightarrow> (Inl e, st)
      | Inr srv \<Rightarrow> (Inr (), set_services sc services_default (fold (\<lambda>i. remove_service_file (fail i) i) (hm_keys (ss_services srv)) st)))"

section \<open>Aliases\<close>

definition srv_remove_alias ::
    "('m, 'j, 'kp, 'rt, 's, 'e) services_env \<Rightarrow> 'e write_result \<Rightarrow> string \<Rightarrow> peer_scope \<Rightarrow> string \<Rightarrow> 'm app_services
      \<Rightarrow> ('e service_error + unit) \<times> 'm app_services" where
  "srv_remove_alias env wr alias sc i st =
     (case get_or_create_services sc st of (srv, st1) \<Rightarrow>
        case find_service (ss_services srv) sc i of
          Inl e \<Rightarrow> (Inl e, st1)
        | Inr sv \<Rightarrow>
            (let sv' = service_remove_alias alias sv;
                 st2 = set_services sc (srv\<lparr>ss_services := hm_insert i sv' (ss_services srv)\<rparr>) st1
             in case persist_service env wr (from_service sv') (as_dir st2) of (r, d) \<Rightarrow> (r, st2\<lparr>as_dir := d\<rparr>)))"

definition add_alias_inner ::
    "('m, 'j, 'kp, 'rt, 's, 'e) services_env \<Rightarrow> 'e write_result \<Rightarrow> string \<Rightarrow> peer_scope \<Rightarrow> string \<Rightarrow> 'm app_services
      \<Rightarrow> ('e service_error + unit) \<times> 'm app_services" where
  "add_alias_inner env wr alias sc i st =
     (case get_or_create_services sc st of (srv, st1) \<Rightarrow>
        case find_service (ss_services srv) sc i of
          Inl e \<Rightarrow> (Inl e, st1)
        | Inr sv \<Rightarrow>
            (let sv' = service_add_alias alias sv;
                 st2 = set_services sc (srv\<lparr>ss_services := hm_insert i sv' (ss_services srv), ss_aliases := (ss_aliases srv)(alias \<mapsto> i)\<rparr>) st1
             in case persist_service env wr (from_service sv') (as_dir st2) of (r, d) \<Rightarrow> (r, st2\<lparr>as_dir := d\<rparr>)))"

definition alias_permitted :: "('m, 'j, 'kp, 'rt, 's, 'e) services_env \<Rightarrow> peer_scope \<Rightarrow> peer_id \<Rightarrow> 'e service_error option" where
  "alias_permitted env sc init_peer =
     (if is_management (sx_scopes env) init_peer then None
      else case sc of
        ScopeWorkerId w \<Rightarrow> (case get_worker_creator (sx_workers env) w of
          Inl e \<Rightarrow> Some (InternalError e)
        | Inr creator \<Rightarrow> if init_peer \<noteq> creator \<and> init_peer \<noteq> worker_peer_id w then Some (ForbiddenAliasWorker init_peer) else None)
      | ScopeHost \<Rightarrow> if init_peer \<noteq> get_host_peer_id (sx_scopes env) then Some (ForbiddenAliasRoot init_peer) else None)"

text \<open>\<open>wr1\<close> and \<open>wr2\<close> are how the file of the service that had the alias, and of the one that gets it, are written.\<close>

definition add_alias ::
    "('m, 'j, 'kp, 'rt, 's, 'e) services_env \<Rightarrow> 'e write_result \<Rightarrow> 'e write_result \<Rightarrow> peer_scope \<Rightarrow> string \<Rightarrow> string \<Rightarrow> peer_id \<Rightarrow> 'm app_services
      \<Rightarrow> ('e service_error + unit) \<times> 'm app_services" where
  "add_alias env wr1 wr2 sc alias i init_peer st =
     (case alias_permitted env sc init_peer of
        Some e \<Rightarrow> (Inl e, st)
      | None \<Rightarrow>
          if service_exists sc alias st then (Inl (AliasAsServiceId alias), st)
          else if alias = ''spell'' \<or> alias = ''self'' then (Inl (ForbiddenAlias alias), st)
          else if alias = ''worker-spell'' \<and> \<not> is_host (sx_scopes env) init_peer \<and> \<not> is_management (sx_scopes env) init_peer
            then (Inl (ForbiddenAlias alias), st)
          else if \<not> service_exists sc i st then (Inl (NoSuchService i sc), st)
          else case (case get_service_id sc alias st of None \<Rightarrow> (Inr (), st) | Some old \<Rightarrow> srv_remove_alias env wr1 alias sc old st) of
            (Inl e, st1) \<Rightarrow> (Inl e, st1)
          | (Inr _, st1) \<Rightarrow> add_alias_inner env wr2 alias sc i st1)"

section \<open>Calls\<close>

text \<open>\<open>vault\<close> is the answer to creating the vault of the particle.  A call may change the module.\<close>

definition call_service ::
    "('m, 'j, 'kp, 'rt, 's, 'e) services_env \<Rightarrow> 'e io_error option \<Rightarrow> 'j args \<Rightarrow> particle_params \<Rightarrow> bool \<Rightarrow> 'm app_services
      \<Rightarrow> 'j function_outcome \<times> 'm app_services" where
  "call_service env vault a p create_vault st =
     (let sc = pp_peer_scope p in
      case (get_service sc (service_id a) (pp_id p) st :: 'e service_error + 'm service \<times> string) of
        Inl _ \<Rightarrow> (NotDefined a p, st)
      | Inr (sv, i) \<Rightarrow>
          (case (if create_vault then vault_create vault (sx_vault env) (to_peer_id (sx_scopes env) sc) (pp_id p) (pp_token p) else Inr (vault_dir (sx_vault env))) of
             Inl e \<Rightarrow> (OutcomeErr (sx_jerror env (ServiceVaultError e)), st)
           | Inr _ \<Rightarrow>
               (let params = \<lparr>cp_particle = p, cp_service_id = i, cp_service_creator_peer_id = sv_owner_id sv,
                      cp_host_id = get_host_peer_id (sx_scopes env), cp_worker_id = to_peer_id (sx_scopes env) sc, cp_tetraplets = tetraplets a\<rparr> in
                case sx_call env (sv_module sv) (function_name a) (function_args a) params of (r, x) \<Rightarrow>
                  ((case r of Inl e \<Rightarrow> OutcomeErr (sx_jerror env (Engine e)) | Inr v \<Rightarrow> OutcomeOk v),
                   (case (get_services sc st :: unit service_error + 'm services) of
                      Inl _ \<Rightarrow> st
                    | Inr srv \<Rightarrow> set_services sc (srv\<lparr>ss_services := hm_insert i (sv\<lparr>sv_module := x\<rparr>) (ss_services srv)\<rparr>) st)))))"

text \<open>A call by the host itself; \<open>uuid\<close> and \<open>now\<close> are fresh values, and the time to live is cut to 32 bits.\<close>

definition call_function ::
    "('m, 'j, 'kp, 'rt, 's, 'e) services_env \<Rightarrow> string \<Rightarrow> u64 \<Rightarrow> peer_scope \<Rightarrow> string \<Rightarrow> string \<Rightarrow> 'j list \<Rightarrow> string option \<Rightarrow> peer_id \<Rightarrow> nat \<Rightarrow> 'm app_services
      \<Rightarrow> 'j function_outcome \<times> 'm app_services" where
  "call_function env uuid now sc i fn fargs particle init_peer ttl_millis st =
     call_service env None
       \<lparr>service_id = i, function_name = fn, function_args = fargs, tetraplets = []\<rparr>
       \<lparr>pp_id = (case particle of None \<Rightarrow> uuid | Some x \<Rightarrow> x), pp_init_peer_id = init_peer, pp_peer_scope = sc, pp_timestamp = now,
        pp_ttl = of_nat ttl_millis, pp_script = [], pp_signature = [], pp_token = ''host_call''\<rparr> False st"

section \<open>Restart\<close>

definition persisted_service_type :: "('m, 'j, 'kp, 'rt, 's, 'e) services_env \<Rightarrow> persisted_service \<Rightarrow> service_type" where
  "persisted_service_type env ps =
     (case ps_service_type ps of
        Some t \<Rightarrow> t
      | None \<Rightarrow> if sx_blueprint_name env (ps_blueprint_id ps) = Some ''spell'' then TypeSpell else TypeService)"

definition insert_aliases :: "peer_scope \<Rightarrow> string list \<Rightarrow> string \<Rightarrow> 'm app_services \<Rightarrow> 'm app_services" where
  "insert_aliases sc aliases i st =
     (case get_or_create_services sc st of (srv, st1) \<Rightarrow>
        set_services sc (srv\<lparr>ss_aliases := fold (\<lambda>a m. m(a \<mapsto> i)) aliases (ss_aliases srv)\<rparr>) st1)"

text \<open>
  The services are created one after the other; the number says how many were.  In builds with debug
  assertions a service that replaces another one is a panic.
\<close>

fun create_loaded_services ::
    "('m, 'j, 'kp, 'rt, 's, 'e) services_env \<Rightarrow> (string \<Rightarrow> 'e creation_answers) \<Rightarrow> (string \<Rightarrow> 'e write_result) \<Rightarrow> persisted_service list \<Rightarrow> 'm app_services
      \<Rightarrow> (nat \<times> 'm app_services) option" where
  "create_loaded_services env an wr [] st = Some (0, st)"
| "create_loaded_services env an wr (ps # pss) st =
     (let i = ps_service_id ps in
      case create_service_inner env (an i) (wr i) (persisted_service_type env ps) (ps_blueprint_id ps) (ps_owner_id ps) (ps_peer_scope ps) i (ps_aliases ps) st of
        None \<Rightarrow> None
      | Some (Inl e, st1) \<Rightarrow> create_loaded_services env an wr pss st1
      | Some (Inr (Some _), st1) \<Rightarrow> None
      | Some (Inr None, st1) \<Rightarrow>
          map_option (\<lambda>(n, st'). (n + 1, st')) (create_loaded_services env an wr pss (insert_aliases (ps_peer_scope ps) (ps_aliases ps) i st1)))"

definition create_persisted_services ::
    "('m, 'j, 'kp, 'rt, 's, 'e) services_env \<Rightarrow> 'e io_error option \<Rightarrow> ('e + string) list option \<Rightarrow> (string \<Rightarrow> 'e option)
      \<Rightarrow> (string \<Rightarrow> 'e creation_answers) \<Rightarrow> (string \<Rightarrow> 'e write_result) \<Rightarrow> 'm app_services \<Rightarrow> (('e load_data_error + unit) \<times> 'm app_services) option" where
  "create_persisted_services env create_err listing read_err an wr st =
     (case load_persisted_services env create_err listing read_err (as_dir st) of
        Inl e \<Rightarrow> Some (Inl e, st)
      | Inr loaded \<Rightarrow>
          map_option (\<lambda>(n, st'). (Inr (), if n = length loaded then st'\<lparr>as_health := map_option finish_creation (as_health st')\<rparr> else st'))
            (create_loaded_services env an wr (map fst loaded) (st\<lparr>as_health := map_option start_creation (as_health st)\<rparr>)))"

section \<open>The services of a scope\<close>

definition srv_of :: "'m app_services \<Rightarrow> peer_scope \<Rightarrow> 'm services" where
  "srv_of st sc = (case (get_services sc st :: unit service_error + 'm services) of Inl _ \<Rightarrow> services_default | Inr srv \<Rightarrow> srv)"

abbreviation service_at :: "'m app_services \<Rightarrow> peer_scope \<Rightarrow> string \<Rightarrow> 'm service option" where
  "service_at st sc i \<equiv> hm_get (ss_services (srv_of st sc)) i"

lemma srv_of_simps: "srv_of st ScopeHost = as_root st" "srv_of st (ScopeWorkerId w) = (case hm_get (as_workers st) w of None \<Rightarrow> services_default | Some srv \<Rightarrow> srv)"
  by (simp_all add: srv_of_def split: option.split)

lemma srv_of_set [simp]: "srv_of (set_services sc srv st) sc' = (if sc' = sc then srv else srv_of st sc')"
  by (cases sc; cases sc') (auto simp: srv_of_simps)

lemma as_dir_set [simp]: "as_dir (set_services sc srv st) = as_dir st" "as_health (set_services sc srv st) = as_health st"
  by (cases sc; simp)+

lemma srv_of_dir [simp]: "srv_of (st\<lparr>as_dir := d\<rparr>) = srv_of st" "srv_of (st\<lparr>as_health := h\<rparr>) = srv_of st"
  by (rule ext; case_tac x; simp add: srv_of_simps)+

lemma get_services_srv_of: "get_services sc st = Inr srv \<Longrightarrow> srv = srv_of st sc"
  by (cases sc) (auto simp: srv_of_simps split: option.splits)

lemma get_services_none: "get_services sc st = Inl e \<Longrightarrow> srv_of st sc = services_default"
  by (cases sc) (auto simp: srv_of_simps split: option.splits)

lemma get_or_create_services_spec:
  "get_or_create_services sc st = (srv, st') \<Longrightarrow> srv = srv_of st sc \<and> srv_of st' = srv_of st \<and> as_dir st' = as_dir st \<and> as_health st' = as_health st"
proof (cases sc)
  case (ScopeWorkerId w)
  assume "get_or_create_services sc st = (srv, st')"
  moreover have "srv_of (st\<lparr>as_workers := hm_insert w services_default (as_workers st)\<rparr>) = srv_of st" if "hm_get (as_workers st) w = None"
    using that by (intro ext, case_tac x) (auto simp: srv_of_simps)
  ultimately show ?thesis using ScopeWorkerId by (auto simp: get_or_create_worker_services_def srv_of_simps split: option.splits)
qed (auto simp: srv_of_simps)

lemma service_exists_iff: "service_exists sc i st \<longleftrightarrow> service_at st sc i \<noteq> None"
  by (auto simp: service_exists_def srv_of_def services_default_def split: sum.splits)

lemma get_service_id_eq: "get_service_id sc alias st = ss_aliases (srv_of st sc) alias"
  by (auto simp: get_service_id_def srv_of_def services_default_def split: sum.splits)

text \<open>What a lookup finds is a service of the scope under the name that is returned.\<close>

lemma get_service_found:
  "get_service sc id_or_alias particle st = Inr (sv, i) \<Longrightarrow> service_at st sc i = Some sv
     \<and> (\<exists>srv. (get_services sc st :: 'e service_error + 'm services) = Inr srv)"
  for st :: "'m app_services"
  by (cases sc) (auto simp: get_service_def find_service_def srv_of_simps split: option.splits)

section \<open>Nothing panics\<close>

lemma prepare_modules_some: "\<exists>r. prepare_modules v peer an persistent ephemeral ms = Some r"
proof (induction ms)
  case (Cons m ms)
  have "\<exists>r. prepare_module v peer an persistent ephemeral m = Some r"
    by (auto simp: prepare_module_def inject_default_wasi_def inject_vault_def Let_def split: option.splits sum.splits)
  then show ?case using Cons by (auto split: option.splits sum.splits)
qed simp

lemma create_app_service_some: "\<exists>r. create_app_service env an peer blueprint i = Some r"
  using prepare_modules_some [of "sx_vault env" peer an "path_push (sx_persistent_work_dir env) i" "path_push (sx_ephemeral_work_dir env) i"]
  by (auto simp: create_app_service_def Let_def split: option.splits sum.splits)

lemma create_service_inner_some: "\<exists>r. create_service_inner env an wr ty blueprint owner sc i aliases st = Some r"
  using create_app_service_some [of env an "to_peer_id (sx_scopes env) sc" blueprint i]
  by (auto simp: create_service_inner_def Let_def split: sum.splits prod.splits)

lemma create_service_some: "\<exists>r. create_service env an wr i sc ty blueprint owner st = Some r"
  using create_service_inner_some [of env an wr ty blueprint owner sc i "[]" st] by (auto simp: create_service_def split: option.splits prod.splits)

lemma remove_service_file_srv [simp]: "srv_of (remove_service_file fail i st) = srv_of st"
  by (simp add: remove_service_file_def)

lemma get_services_dir [simp]: "get_services sc (st\<lparr>as_dir := d\<rparr>) = get_services sc st"
  by (cases sc) auto

lemma remove_service_check_found:
  "remove_service_check env sc particle id_or_alias init_peer allow st = Inr i \<Longrightarrow> \<exists>sv. get_service sc id_or_alias particle st = (Inr (sv, i) :: 'e service_error + _)
     \<and> is_spell (sv_type sv) = allow \<and> (to_peer_id (sx_scopes env) sc = init_peer \<or> sv_owner_id sv = init_peer \<or> is_management (sx_scopes env) init_peer)"
  for env :: "('m, 'j, 'kp, 'rt, 's, 'e) services_env"
  by (auto simp: remove_service_check_def split: sum.splits if_splits)

lemma remove_service_cases:
  fixes env :: "('m, 'j, 'kp, 'rt, 's, 'e) services_env"
  obtains (refused) e where "remove_service env fail sc particle id_or_alias init_peer allow st = Some (Inl e, st)"
  | (removed) i sv where "remove_service_check env sc particle id_or_alias init_peer allow st = Inr i" "service_at st sc i = Some sv"
    "remove_service env fail sc particle id_or_alias init_peer allow st = Some (Inr (), set_services sc ((srv_of st sc)\<lparr>ss_services := hm_remove i (ss_services (srv_of st sc)),
      ss_aliases := ss_aliases (srv_of st sc) |` (- set (sv_aliases sv))\<rparr>) (remove_service_file fail i st))"
proof (cases "remove_service_check env sc particle id_or_alias init_peer allow st")
  case (Inl e)
  then show ?thesis using refused by (simp add: remove_service_def)
next
  case (Inr i)
  then obtain sv where g: "get_service sc id_or_alias particle st = (Inr (sv, i) :: 'e service_error + _)" using remove_service_check_found by blast
  then obtain srv where s: "(get_services sc st :: 'e service_error + 'm services) = Inr srv" and at: "service_at st sc i = Some sv"
    using get_service_found [of sc id_or_alias particle st sv i] by blast
  have "srv = srv_of st sc" using get_services_srv_of [OF s] .
  then show ?thesis using removed [OF Inr at] Inr s at by (simp add: remove_service_def remove_service_commit_def remove_service_file_def)
qed

section \<open>Consistency\<close>

definition srv_ok :: "peer_scope \<Rightarrow> 'm services \<Rightarrow> bool" where
  "srv_ok sc srv \<longleftrightarrow> hm_ok (ss_services srv)
     \<and> (\<forall>i sv. hm_get (ss_services srv) i = Some sv \<longrightarrow> sv_id sv = i \<and> sv_scope sv = sc \<and> distinct (sv_aliases sv))
     \<and> (\<forall>a i. ss_aliases srv a = Some i \<longleftrightarrow> (\<exists>sv. hm_get (ss_services srv) i = Some sv \<and> a \<in> set (sv_aliases sv)))"

definition files_ok :: "('m, 'j, 'kp, 'rt, 's, 'e) services_env \<Rightarrow> 'm app_services \<Rightarrow> bool" where
  "files_ok env st \<longleftrightarrow>
     (\<forall>sc i sv. service_at st sc i = Some sv \<longrightarrow> (\<exists>bytes. sx_ser env (from_service sv) = Inr bytes \<and> as_dir st (service_file_name i) = Some bytes))
   \<and> (\<forall>name. as_dir st name \<noteq> None \<longrightarrow> (\<exists>sc i. name = service_file_name i \<and> service_at st sc i \<noteq> None))"

definition one_scope :: "'m app_services \<Rightarrow> bool" where
  "one_scope st \<longleftrightarrow> (\<forall>sc sc' i. service_at st sc i \<noteq> None \<and> service_at st sc' i \<noteq> None \<longrightarrow> sc = sc')"

definition services_inv :: "('m, 'j, 'kp, 'rt, 's, 'e) services_env \<Rightarrow> 'm app_services \<Rightarrow> bool" where
  "services_inv env st \<longleftrightarrow> (\<forall>sc. srv_ok sc (srv_of st sc)) \<and> files_ok env st \<and> one_scope st"

lemma service_file_name_inject [simp]: "service_file_name i = service_file_name j \<longleftrightarrow> i = j"
  by (simp add: service_file_name_def)

lemma srv_ok_default [simp]: "srv_ok sc services_default"
  by (simp add: srv_ok_def services_default_def)

lemma persist_service_ok:
  "persist_service env WriteOk ps d = (Inr u, d') \<Longrightarrow> \<exists>bytes. sx_ser env ps = Inr bytes \<and> d' = d(service_file_name (ps_service_id ps) \<mapsto> bytes)"
  by (auto simp: persist_service_def split: sum.splits)

text \<open>Replacing a service and its file by another with the same name, scope and consistent aliases.\<close>

lemma files_ok_insert:
  assumes "files_ok env st" "one_scope st" "\<forall>sc'. sc' \<noteq> sc \<longrightarrow> service_at st sc' i = None"
    and "sx_ser env (from_service sv) = Inr bytes" "srv_of st' = (srv_of st)(sc := srv')" "ss_services srv' = hm_insert i sv (ss_services (srv_of st sc))"
    and "as_dir st' = (as_dir st)(service_file_name i \<mapsto> bytes)"
  shows "files_ok env st' \<and> one_scope st'"
proof -
  have at: "service_at st' sc' j = (if sc' = sc \<and> j = i then Some sv else service_at st sc' j)" for sc' j using assms(5,6) by auto
  have "files_ok env st'" unfolding files_ok_def at assms(7)
  proof (intro conjI allI impI)
    fix sc' j sv'
    assume a: "(if sc' = sc \<and> j = i then Some sv else service_at st sc' j) = Some sv'"
    show "\<exists>bytes'. sx_ser env (from_service sv') = Inr bytes' \<and> ((as_dir st)(service_file_name i \<mapsto> bytes)) (service_file_name j) = Some bytes'"
    proof (cases "j = i")
      case True
      then show ?thesis using a assms(3,4) by (cases "sc' = sc") auto
    next
      case False
      then show ?thesis using a assms(1) by (auto simp: files_ok_def)
    qed
  next
    fix name
    assume "((as_dir st)(service_file_name i \<mapsto> bytes)) name \<noteq> None"
    then show "\<exists>sc' j. name = service_file_name j \<and> (if sc' = sc \<and> j = i then Some sv else service_at st sc' j) \<noteq> None"
      using assms(1) unfolding files_ok_def by (cases "name = service_file_name i") (auto, metis)
  qed
  moreover have "one_scope st'" unfolding one_scope_def at using assms(2,3) by (auto simp: one_scope_def)
  ultimately show ?thesis by blast
qed

lemma create_service_inner_inv:
  assumes inv: "services_inv env st" and fresh: "\<forall>sc'. service_at st sc' i = None"
    and al: "distinct aliases" "\<forall>a \<in> set aliases. ss_aliases (srv_of st sc) a = None"
    and c: "create_service_inner env an WriteOk ty blueprint owner sc i aliases st = Some (r, st1)"
  shows "case r of Inl e \<Rightarrow> st1 = st
    | Inr old \<Rightarrow> old = None \<and> as_health st1 = as_health st \<and> files_ok env st1 \<and> one_scope st1
        \<and> (\<exists>x. srv_of st1 = (srv_of st)(sc := (srv_of st sc)\<lparr>ss_services := hm_insert i
            \<lparr>sv_module = x, sv_id = i, sv_blueprint_id = blueprint, sv_type = ty, sv_owner_id = owner, sv_aliases = aliases, sv_scope = sc\<rparr> (ss_services (srv_of st sc))\<rparr>))"
proof -
  obtain r0 where r0: "create_app_service env an (to_peer_id (sx_scopes env) sc) blueprint i = Some r0" using create_app_service_some by blast
  show ?thesis
  proof (cases r0)
    case (Inl e)
    then show ?thesis using c r0 by (auto simp: create_service_inner_def)
  next
    case (Inr x)
    define sv where "sv = \<lparr>sv_module = x, sv_id = i, sv_blueprint_id = blueprint, sv_type = ty, sv_owner_id = owner, sv_aliases = aliases, sv_scope = sc\<rparr>"
    obtain pr d where p: "persist_service env WriteOk (from_service sv) (as_dir st) = (pr, d)" by (cases "persist_service env WriteOk (from_service sv) (as_dir st)")
    show ?thesis
    proof (cases pr)
      case (Inl e)
      have "d = as_dir st" using p Inl by (auto simp: persist_service_def split: sum.splits)
      then show ?thesis using c r0 Inr p Inl by (auto simp: create_service_inner_def sv_def Let_def)
    next
      case pr: (Inr u)
      obtain bytes where b: "sx_ser env (from_service sv) = Inr bytes" "d = (as_dir st)(service_file_name i \<mapsto> bytes)"
        using persist_service_ok [OF p [unfolded pr]] by (auto simp: from_service_def sv_def)
      obtain srv st2 where g: "get_or_create_services sc (st\<lparr>as_dir := d\<rparr>) = (srv, st2)" by (cases "get_or_create_services sc (st\<lparr>as_dir := d\<rparr>)")
      note gs = get_or_create_services_spec [OF g]
      have res: "r = Inr (hm_get (ss_services srv) i)" "st1 = set_services sc (srv\<lparr>ss_services := hm_insert i sv (ss_services srv)\<rparr>) st2"
        using c r0 Inr p pr g by (auto simp: create_service_inner_def sv_def Let_def)
      have so: "srv_of st1 = (srv_of st)(sc := (srv_of st sc)\<lparr>ss_services := hm_insert i sv (ss_services (srv_of st sc))\<rparr>)"
        using res(2) gs by (auto simp: fun_eq_iff)
      have "files_ok env st1 \<and> one_scope st1"
        by (rule files_ok_insert [where st = st and sc = sc and i = i and sv = sv and bytes = bytes])
          (use inv fresh b so res(2) gs in \<open>auto simp: services_inv_def\<close>)
      then show ?thesis using res gs fresh so by (auto simp: sv_def)
    qed
  qed
qed

text \<open>The writer of service files always succeeds, and what it writes is read back.\<close>

definition services_format :: "('m, 'j, 'kp, 'rt, 's, 'e) services_env \<Rightarrow> bool" where
  "services_format env \<longleftrightarrow> (\<forall>ps. \<exists>bytes. sx_ser env ps = Inr bytes \<and> sx_de env bytes = Inr ps)"

lemma persist_service_format:
  assumes "services_format env"
  obtains bytes where "sx_ser env ps = Inr bytes" "persist_service env WriteOk ps d = (Inr (), d(service_file_name (ps_service_id ps) \<mapsto> bytes))"
proof -
  obtain bytes where "sx_ser env ps = Inr bytes" using assms by (auto simp: services_format_def)
  then show ?thesis using that by (simp add: persist_service_def)
qed

text \<open>Both steps of aliasing rewrite one service and its file.\<close>

lemma srv_remove_alias_spec:
  assumes "services_format env" "service_at st sc i = Some sv" "sv_id sv = i"
  obtains st' bytes where "srv_remove_alias env WriteOk alias sc i st = (Inr (), st')" "sx_ser env (from_service (service_remove_alias alias sv)) = Inr bytes"
    "srv_of st' = (srv_of st)(sc := (srv_of st sc)\<lparr>ss_services := hm_insert i (service_remove_alias alias sv) (ss_services (srv_of st sc))\<rparr>)"
    "as_dir st' = (as_dir st)(service_file_name i \<mapsto> bytes)" "as_health st' = as_health st"
proof -
  obtain srv st1 where g: "get_or_create_services sc st = (srv, st1)" by (cases "get_or_create_services sc st")
  note gs = get_or_create_services_spec [OF g]
  obtain bytes where b: "sx_ser env (from_service (service_remove_alias alias sv)) = Inr bytes"
    "persist_service env WriteOk (from_service (service_remove_alias alias sv)) (as_dir st1) = (Inr (), (as_dir st1)(service_file_name (ps_service_id (from_service (service_remove_alias alias sv))) \<mapsto> bytes))"
    using persist_service_format [OF assms(1)] by blast
  have n: "ps_service_id (from_service (service_remove_alias alias sv)) = i" using assms(3) by (simp add: from_service_def service_remove_alias_def)
  define st2 where "st2 = set_services sc ((srv_of st sc)\<lparr>ss_services := hm_insert i (service_remove_alias alias sv) (ss_services (srv_of st sc))\<rparr>) st1"
  have d: "as_dir st2 = as_dir st1" by (simp add: st2_def)
  show ?thesis
  proof (rule that [of "st2\<lparr>as_dir := (as_dir st2)(service_file_name i \<mapsto> bytes)\<rparr>", OF _ b(1)])
    show "srv_of (st2\<lparr>as_dir := (as_dir st2)(service_file_name i \<mapsto> bytes)\<rparr>)
        = (srv_of st)(sc := (srv_of st sc)\<lparr>ss_services := hm_insert i (service_remove_alias alias sv) (ss_services (srv_of st sc))\<rparr>)"
      using gs by (simp add: st2_def fun_eq_iff)
  qed (use g gs b n d assms(2) in \<open>simp_all add: srv_remove_alias_def find_service_def Let_def st2_def\<close>)
qed

lemma add_alias_inner_spec:
  assumes "services_format env" "service_at st sc i = Some sv" "sv_id sv = i"
  obtains st' bytes where "add_alias_inner env WriteOk alias sc i st = (Inr (), st')" "sx_ser env (from_service (service_add_alias alias sv)) = Inr bytes"
    "srv_of st' = (srv_of st)(sc := (srv_of st sc)\<lparr>ss_services := hm_insert i (service_add_alias alias sv) (ss_services (srv_of st sc)),
       ss_aliases := (ss_aliases (srv_of st sc))(alias \<mapsto> i)\<rparr>)"
    "as_dir st' = (as_dir st)(service_file_name i \<mapsto> bytes)" "as_health st' = as_health st"
proof -
  obtain srv st1 where g: "get_or_create_services sc st = (srv, st1)" by (cases "get_or_create_services sc st")
  note gs = get_or_create_services_spec [OF g]
  obtain bytes where b: "sx_ser env (from_service (service_add_alias alias sv)) = Inr bytes"
    "persist_service env WriteOk (from_service (service_add_alias alias sv)) (as_dir st1) = (Inr (), (as_dir st1)(service_file_name (ps_service_id (from_service (service_add_alias alias sv))) \<mapsto> bytes))"
    using persist_service_format [OF assms(1)] by blast
  have n: "ps_service_id (from_service (service_add_alias alias sv)) = i" using assms(3) by (simp add: from_service_def service_add_alias_def)
  define st2 where "st2 = set_services sc ((srv_of st sc)\<lparr>ss_services := hm_insert i (service_add_alias alias sv) (ss_services (srv_of st sc)), ss_aliases := (ss_aliases (srv_of st sc))(alias \<mapsto> i)\<rparr>) st1"
  have d: "as_dir st2 = as_dir st1" by (simp add: st2_def)
  show ?thesis
  proof (rule that [of "st2\<lparr>as_dir := (as_dir st2)(service_file_name i \<mapsto> bytes)\<rparr>", OF _ b(1)])
    show "srv_of (st2\<lparr>as_dir := (as_dir st2)(service_file_name i \<mapsto> bytes)\<rparr>)
        = (srv_of st)(sc := (srv_of st sc)\<lparr>ss_services := hm_insert i (service_add_alias alias sv) (ss_services (srv_of st sc)), ss_aliases := (ss_aliases (srv_of st sc))(alias \<mapsto> i)\<rparr>)"
      using gs by (simp add: st2_def fun_eq_iff)
  qed (use g gs b n d assms(2) in \<open>simp_all add: add_alias_inner_def find_service_def Let_def st2_def\<close>)
qed

text \<open>The services of a scope after an alias was given to \<open>i\<close>.\<close>

definition realiased :: "string \<Rightarrow> string \<Rightarrow> 'm services \<Rightarrow> 'm services \<Rightarrow> bool" where
  "realiased alias i srv srv' \<longleftrightarrow> ss_aliases srv' = (ss_aliases srv)(alias \<mapsto> i)
     \<and> (\<forall>j. hm_get (ss_services srv') j = map_option (\<lambda>sv. if j = i then service_add_alias alias (service_remove_alias alias sv) else service_remove_alias alias sv)
          (hm_get (ss_services srv) j))"

lemma service_remove_alias_absent: "alias \<notin> set (sv_aliases sv) \<Longrightarrow> service_remove_alias alias sv = sv"
  by (simp add: service_remove_alias_def remove1_idem)

lemma add_alias_cases:
  assumes inv: "services_inv env st" and fmt: "services_format env"
  obtains (refused) e where "add_alias env WriteOk WriteOk sc alias i p st = (Inl e, st)"
  | (added) st' where "add_alias env WriteOk WriteOk sc alias i p st = (Inr (), st')" "alias_permitted env sc p = None" "service_at st sc alias = None"
    "alias \<noteq> ''spell''" "alias \<noteq> ''self''" "alias = ''worker-spell'' \<longrightarrow> is_host (sx_scopes env) p \<or> is_management (sx_scopes env) p"
    "service_at st sc i \<noteq> None" "\<forall>sc'. sc' \<noteq> sc \<longrightarrow> srv_of st' sc' = srv_of st sc'" "realiased alias i (srv_of st sc) (srv_of st' sc)" "hm_ok (ss_services (srv_of st' sc))"
    "files_ok env st' \<and> one_scope st'" "as_health st' = as_health st"
proof (cases "alias_permitted env sc p = None \<and> service_at st sc alias = None \<and> alias \<noteq> ''spell'' \<and> alias \<noteq> ''self''
    \<and> (alias = ''worker-spell'' \<longrightarrow> is_host (sx_scopes env) p \<or> is_management (sx_scopes env) p) \<and> service_at st sc i \<noteq> None")
  case False
  then have "\<exists>e. add_alias env WriteOk WriteOk sc alias i p st = (Inl e, st)"
    by (cases "alias_permitted env sc p") (auto simp: add_alias_def service_exists_iff)
  then show ?thesis using refused by blast
next
  case True
  have ok: "srv_ok sc (srv_of st sc)" and files: "files_ok env st" "one_scope st" using inv by (auto simp: services_inv_def)
  obtain sv where sv: "service_at st sc i = Some sv" using True by auto
  have sid: "sv_id sv = i" using ok sv by (auto simp: srv_ok_def)
  have other: "\<forall>sc'. sc' \<noteq> sc \<longrightarrow> service_at st sc' j = None" if "service_at st sc j \<noteq> None" for j
    using files(2) that unfolding one_scope_def by blast
  have eq: "add_alias env WriteOk WriteOk sc alias i p st =
      (case (case ss_aliases (srv_of st sc) alias of None \<Rightarrow> (Inr (), st) | Some old \<Rightarrow> srv_remove_alias env WriteOk alias sc old st) of
         (Inl e, st1) \<Rightarrow> (Inl e, st1) | (Inr _, st1) \<Rightarrow> add_alias_inner env WriteOk alias sc i st1)"
    using True by (auto simp: add_alias_def service_exists_iff get_service_id_eq)
  show ?thesis
  proof (cases "ss_aliases (srv_of st sc) alias")
    case None
    obtain st' bytes where a: "add_alias_inner env WriteOk alias sc i st = (Inr (), st')" "sx_ser env (from_service (service_add_alias alias sv)) = Inr bytes"
      "srv_of st' = (srv_of st)(sc := (srv_of st sc)\<lparr>ss_services := hm_insert i (service_add_alias alias sv) (ss_services (srv_of st sc)),
         ss_aliases := (ss_aliases (srv_of st sc))(alias \<mapsto> i)\<rparr>)"
      "as_dir st' = (as_dir st)(service_file_name i \<mapsto> bytes)" "as_health st' = as_health st"
      using add_alias_inner_spec [OF fmt sv sid] by blast
    have absent: "alias \<notin> set (sv_aliases sv')" if "service_at st sc j = Some sv'" for j sv'
      using ok None that by (auto simp: srv_ok_def) (metis option.distinct(1))
    have re: "realiased alias i (srv_of st sc) (srv_of st' sc)"
      unfolding realiased_def a(3) using sv absent by (auto simp: service_remove_alias_absent option.map_ident_strong)
        (metis option.map_ident_strong service_remove_alias_absent absent option.set_cases)
    have f: "files_ok env st' \<and> one_scope st'"
      by (rule files_ok_insert [OF files _ a(2,3)]) (use other [of i] sv a(4) in auto)
    show ?thesis
      by (rule added [where st' = st']) (use True eq None a re f ok in \<open>auto simp: srv_ok_def\<close>)
  next
    case (Some old)
    obtain osv where osv: "service_at st sc old = Some osv" "alias \<in> set (sv_aliases osv)" using ok Some by (auto simp: srv_ok_def)
    have oid: "sv_id osv = old" using ok osv by (auto simp: srv_ok_def)
    obtain st1 b1 where r: "srv_remove_alias env WriteOk alias sc old st = (Inr (), st1)" "sx_ser env (from_service (service_remove_alias alias osv)) = Inr b1"
      "srv_of st1 = (srv_of st)(sc := (srv_of st sc)\<lparr>ss_services := hm_insert old (service_remove_alias alias osv) (ss_services (srv_of st sc))\<rparr>)"
      "as_dir st1 = (as_dir st)(service_file_name old \<mapsto> b1)" "as_health st1 = as_health st"
      using srv_remove_alias_spec [OF fmt osv(1) oid] by blast
    have f1: "files_ok env st1 \<and> one_scope st1" by (rule files_ok_insert [OF files _ r(2,3)]) (use other [of old] osv r(4) in auto)
    have absent: "alias \<notin> set (sv_aliases sv')" if "service_at st sc j = Some sv'" "j \<noteq> old" for j sv'
      using ok Some that by (auto simp: srv_ok_def) (metis option.inject)
    have at1: "service_at st1 sc j = map_option (service_remove_alias alias) (service_at st sc j)" for j
      unfolding r(3) using osv absent by (cases "service_at st sc j") (auto simp: service_remove_alias_absent)
    have sv1: "service_at st1 sc i = Some (service_remove_alias alias sv)" using at1 [of i] sv by simp
    have sid1: "sv_id (service_remove_alias alias sv) = i" using sid by (simp add: service_remove_alias_def)
    obtain st' bytes where a: "add_alias_inner env WriteOk alias sc i st1 = (Inr (), st')" "sx_ser env (from_service (service_add_alias alias (service_remove_alias alias sv))) = Inr bytes"
      "srv_of st' = (srv_of st1)(sc := (srv_of st1 sc)\<lparr>ss_services := hm_insert i (service_add_alias alias (service_remove_alias alias sv)) (ss_services (srv_of st1 sc)),
         ss_aliases := (ss_aliases (srv_of st1 sc))(alias \<mapsto> i)\<rparr>)"
      "as_dir st' = (as_dir st1)(service_file_name i \<mapsto> bytes)" "as_health st' = as_health st1"
      using add_alias_inner_spec [OF fmt sv1 sid1] by blast
    have other1: "\<forall>sc'. sc' \<noteq> sc \<longrightarrow> service_at st1 sc' i = None" using other [of i] sv r(3) by simp
    have f: "files_ok env st' \<and> one_scope st'" by (rule files_ok_insert [OF _ _ other1 a(2,3)]) (use f1 a(4) in auto)
    have re: "realiased alias i (srv_of st sc) (srv_of st' sc)"
      unfolding realiased_def a(3) using at1 sv by (auto simp: r(3) split: if_splits)
    show ?thesis
      by (rule added [where st' = st']) (use True eq Some r a re f ok in \<open>auto simp: srv_ok_def\<close>)
  qed
qed

lemma realiased_ok:
  assumes ok: "srv_ok sc srv" and re: "realiased alias i srv srv'" and i: "hm_get (ss_services srv) i \<noteq> None" and hm: "hm_ok (ss_services srv')"
  shows "srv_ok sc srv'"
  unfolding srv_ok_def
proof (intro conjI allI impI)
  have at: "hm_get (ss_services srv') j = map_option (\<lambda>sv. if j = i then service_add_alias alias (service_remove_alias alias sv) else service_remove_alias alias sv) (hm_get (ss_services srv) j)" for j
    using re by (simp add: realiased_def)
  have d: "distinct (sv_aliases sv)" "sv_id sv = j" "sv_scope sv = sc" if "hm_get (ss_services srv) j = Some sv" for j sv using ok that by (auto simp: srv_ok_def)
  show "hm_ok (ss_services srv')" by (rule hm)
  fix j sv'
  assume "hm_get (ss_services srv') j = Some sv'"
  then obtain sv where sv: "hm_get (ss_services srv) j = Some sv" "sv' = (if j = i then service_add_alias alias (service_remove_alias alias sv) else service_remove_alias alias sv)"
    using at by auto
  show "sv_id sv' = j" "sv_scope sv' = sc" "distinct (sv_aliases sv')"
    using d [OF sv(1)] sv(2) by (auto simp: service_add_alias_def service_remove_alias_def)
next
  fix a j
  have at: "hm_get (ss_services srv') j = map_option (\<lambda>sv. if j = i then service_add_alias alias (service_remove_alias alias sv) else service_remove_alias alias sv) (hm_get (ss_services srv) j)"
    using re by (simp add: realiased_def)
  have d: "distinct (sv_aliases sv)" if "hm_get (ss_services srv) j = Some sv" for sv using ok that by (auto simp: srv_ok_def)
  have eq: "ss_aliases srv a = Some j \<longleftrightarrow> (\<exists>sv. hm_get (ss_services srv) j = Some sv \<and> a \<in> set (sv_aliases sv))" using ok by (simp add: srv_ok_def)
  have al: "ss_aliases srv' = (ss_aliases srv)(alias \<mapsto> i)" using re by (simp add: realiased_def)
  show "ss_aliases srv' a = Some j \<longleftrightarrow> (\<exists>sv. hm_get (ss_services srv') j = Some sv \<and> a \<in> set (sv_aliases sv))"
  proof (cases "a = alias")
    case True
    then show ?thesis using at al i d by (cases "hm_get (ss_services srv) j") (auto simp: service_add_alias_def service_remove_alias_def)
  next
    case False
    then show ?thesis using at al eq by (cases "hm_get (ss_services srv) j") (auto simp: service_add_alias_def service_remove_alias_def)
  qed
qed

section \<open>The services as a system\<close>

text \<open>
  Operations one after the other, with a file system that does what it is asked.  The identifier of a
  new service is fresh.
\<close>

datatype ('j, 'e) services_event =
    SeCreate "'e creation_answers" string peer_scope service_type string peer_id
  | SeAddAlias peer_scope string string peer_id
  | SeRemove peer_scope string string peer_id bool
  | SeRemoveAll peer_scope
  | SeCall "'e io_error option" "'j args" particle_params bool

fun services_next :: "('m, 'j, 'kp, 'rt, 's, 'e) services_env \<Rightarrow> ('j, 'e) services_event \<Rightarrow> 'm app_services \<Rightarrow> 'm app_services option" where
  "services_next env (SeCreate an i sc ty blueprint owner) st = map_option snd (create_service env an WriteOk i sc ty blueprint owner st)"
| "services_next env (SeAddAlias sc alias i p) st = Some (snd (add_alias env WriteOk WriteOk sc alias i p st))"
| "services_next env (SeRemove sc particle id_or_alias p allow) st = map_option snd (remove_service env None sc particle id_or_alias p allow st)"
| "services_next env (SeRemoveAll sc) st = Some (snd (remove_services (\<lambda>_. None :: 'e option) sc st))"
| "services_next env (SeCall vault a p create_vault) st = Some (snd (call_service env vault a p create_vault st))"

fun fresh_id :: "('j, 'e) services_event \<Rightarrow> 'm app_services \<Rightarrow> bool" where
  "fresh_id (SeCreate an i sc ty blueprint owner) st = (\<forall>sc'. service_at st sc' i = None)"
| "fresh_id _ st = True"

definition services_step ::
    "('m, 'j, 'kp, 'rt, 's, 'e) services_env \<Rightarrow> 'm app_services \<Rightarrow> ('j, 'e) services_event \<Rightarrow> 'm app_services \<Rightarrow> bool" where
  "services_step env st ev st' \<longleftrightarrow> services_format env \<and> fresh_id ev st \<and> services_next env ev st = Some st'"

definition services_start :: "'m app_services \<Rightarrow> bool" where
  "services_start st \<longleftrightarrow> (\<exists>health. st = app_services_new health Map.empty)"

lemma srv_ok_new:
  assumes ok: "srv_ok sc srv" and fresh: "hm_get (ss_services srv) i = None" and sv: "sv_id sv = i" "sv_scope sv = sc" "distinct (sv_aliases sv)"
    and al: "\<forall>a \<in> set (sv_aliases sv). ss_aliases srv a = None"
  shows "srv_ok sc (srv\<lparr>ss_services := hm_insert i sv (ss_services srv), ss_aliases := (\<lambda>a. if a \<in> set (sv_aliases sv) then Some i else ss_aliases srv a)\<rparr>)"
proof -
  have n: "ss_aliases srv a \<noteq> Some i" for a using ok fresh by (auto simp: srv_ok_def)
  have eq: "ss_aliases srv a = Some j \<longleftrightarrow> (\<exists>sv. hm_get (ss_services srv) j = Some sv \<and> a \<in> set (sv_aliases sv))" for a j using ok by (simp add: srv_ok_def)
  have "(if a \<in> set (sv_aliases sv) then Some i else ss_aliases srv a) = Some j
      \<longleftrightarrow> (\<exists>sv'. (if j = i then Some sv else hm_get (ss_services srv) j) = Some sv' \<and> a \<in> set (sv_aliases sv'))" for a j
    using n [of a] eq [of a j] al by (cases "j = i") auto
  then show ?thesis using ok sv by (auto simp: srv_ok_def)
qed

lemma create_service_inv:
  assumes inv: "services_inv env st" and fresh: "\<forall>sc'. service_at st sc' i = None" and c: "create_service env an WriteOk i sc ty blueprint owner st = Some (r, st1)"
  shows "services_inv env st1"
proof (cases "case sc of ScopeHost \<Rightarrow> None | ScopeWorkerId w \<Rightarrow> if get_runtime_handle (sx_workers env) w = None then Some (ServiceWorkerNotFound w :: 'f service_error) else None")
  case (Some e)
  then show ?thesis using c inv by (auto simp: create_service_def split: peer_scope.splits if_splits)
next
  case None
  then obtain r0 where r0: "create_service_inner env an WriteOk ty blueprint owner sc i [] st = Some (r0, st1)"
    using c by (auto simp: create_service_def split: peer_scope.splits if_splits)
  note sp = create_service_inner_inv [OF inv fresh _ _ r0]
  show ?thesis
  proof (cases r0)
    case (Inl e)
    then show ?thesis using sp inv by simp
  next
    case (Inr old)
    then obtain x where f: "files_ok env st1" "one_scope st1" and so: "srv_of st1 = (srv_of st)(sc := (srv_of st sc)\<lparr>ss_services := hm_insert i
        \<lparr>sv_module = x, sv_id = i, sv_blueprint_id = blueprint, sv_type = ty, sv_owner_id = owner, sv_aliases = [], sv_scope = sc\<rparr> (ss_services (srv_of st sc))\<rparr>)"
      using sp by auto
    have ok: "srv_ok sc' (srv_of st sc')" for sc' using inv by (simp add: services_inv_def)
    have "srv_ok sc (srv_of st1 sc)" unfolding so
      using srv_ok_new [OF ok, of sc i "\<lparr>sv_module = x, sv_id = i, sv_blueprint_id = blueprint, sv_type = ty, sv_owner_id = owner, sv_aliases = [], sv_scope = sc\<rparr>"] fresh
      by (simp add: srv_ok_def)
    then have "srv_ok sc' (srv_of st1 sc')" for sc' using ok so by (cases "sc' = sc") auto
    then show ?thesis using f by (simp add: services_inv_def)
  qed
qed

lemma add_alias_inv:
  assumes "services_inv env st" "services_format env"
  shows "services_inv env (snd (add_alias env WriteOk WriteOk sc alias i p st))"
  using assms
proof (cases rule: add_alias_cases [of env st sc "alias" i p])
  case (refused e)
  then show ?thesis using assms by simp
next
  case (added st')
  have ok: "srv_ok sc' (srv_of st sc')" for sc' using assms(1) by (simp add: services_inv_def)
  have "srv_ok sc (srv_of st' sc)" using realiased_ok [OF ok added(9,7,10)] .
  then have "srv_ok sc' (srv_of st' sc')" for sc' using ok added(8) by (cases "sc' = sc") auto
  then show ?thesis using added(1,11) by (simp add: services_inv_def)
qed

lemma srv_ok_remove:
  assumes ok: "srv_ok sc srv" and sv: "hm_get (ss_services srv) i = Some sv"
  shows "srv_ok sc (srv\<lparr>ss_services := hm_remove i (ss_services srv), ss_aliases := ss_aliases srv |` (- set (sv_aliases sv))\<rparr>)"
proof -
  have "a \<in> set (sv_aliases sv) \<Longrightarrow> ss_aliases srv a = Some i" for a using ok sv by (auto simp: srv_ok_def)
  moreover have "ss_aliases srv a = Some i \<Longrightarrow> a \<in> set (sv_aliases sv)" for a using ok sv by (auto simp: srv_ok_def)
  ultimately show ?thesis using ok unfolding srv_ok_def by (auto simp: restrict_map_def) (metis option.inject)+
qed

text \<open>Removing services with their files keeps the files of the others.\<close>

lemma files_ok_remove:
  assumes "files_ok env st" "one_scope st"
    and at: "\<And>sc' j. service_at st' sc' j = (if sc' = sc \<and> P j then None else service_at st sc' j)"
    and d: "\<And>name. as_dir st' name = (if \<exists>j. name = service_file_name j \<and> P j \<and> service_at st sc j \<noteq> None then None else as_dir st name)"
  shows "files_ok env st' \<and> one_scope st'"
proof -
  have o: "one_scope st'" using assms(2) unfolding one_scope_def at by (auto split: if_splits)
  have "files_ok env st'" unfolding files_ok_def
  proof (intro conjI allI impI)
    fix sc' j sv
    assume a: "service_at st' sc' j = Some sv"
    then have s: "service_at st sc' j = Some sv" "\<not> (sc' = sc \<and> P j)" using at by (auto split: if_splits)
    have "\<not> (P j \<and> service_at st sc j \<noteq> None)" using s assms(2) unfolding one_scope_def by (metis option.distinct(1))
    then have "as_dir st' (service_file_name j) = as_dir st (service_file_name j)" using d by auto
    then show "\<exists>bytes. sx_ser env (from_service sv) = Inr bytes \<and> as_dir st' (service_file_name j) = Some bytes" using assms(1) s(1) by (simp add: files_ok_def)
  next
    fix name
    assume "as_dir st' name \<noteq> None"
    then have n: "as_dir st name \<noteq> None" "\<not> (\<exists>j. name = service_file_name j \<and> P j \<and> service_at st sc j \<noteq> None)" using d by (auto split: if_splits)
    then obtain sc' j where j: "name = service_file_name j" "service_at st sc' j \<noteq> None" using assms(1) unfolding files_ok_def by blast
    then have "service_at st' sc' j \<noteq> None" using at n(2) by auto
    then show "\<exists>sc i. name = service_file_name i \<and> service_at st' sc i \<noteq> None" using j by blast
  qed
  then show ?thesis using o by blast
qed

lemma remove_service_inv:
  assumes inv: "services_inv env st" and r: "remove_service env None sc particle id_or_alias p allow st = Some (res, st')"
  shows "services_inv env st'"
proof (cases rule: remove_service_cases [of env None sc particle id_or_alias p allow st])
  case (refused e)
  then show ?thesis using r inv by simp
next
  case (removed i sv)
  have st': "st' = set_services sc ((srv_of st sc)\<lparr>ss_services := hm_remove i (ss_services (srv_of st sc)),
      ss_aliases := ss_aliases (srv_of st sc) |` (- set (sv_aliases sv))\<rparr>) (remove_service_file (None :: 'f option) i st)"
    using removed(3) r by simp
  have ok: "srv_ok sc' (srv_of st sc')" for sc' using inv by (simp add: services_inv_def)
  have "srv_ok sc (srv_of st' sc)" unfolding st' using srv_ok_remove [OF ok removed(2)] by simp
  then have o: "srv_ok sc' (srv_of st' sc')" for sc' using ok st' by (cases "sc' = sc") auto
  have ex: "as_dir st (service_file_name i) \<noteq> None" using inv removed(2) unfolding services_inv_def files_ok_def by (metis option.distinct(1))
  have "files_ok env st' \<and> one_scope st'"
  proof (rule files_ok_remove [where st = st and sc = sc and P = "\<lambda>j. j = i"])
    show "as_dir st' name = (if \<exists>j. name = service_file_name j \<and> j = i \<and> service_at st sc j \<noteq> None then None else as_dir st name)" for name
      using removed(2) ex by (auto simp: st' remove_service_file_def remove_persisted_service_def fs_remove_def)
  qed (use inv in \<open>auto simp: services_inv_def st'\<close>)
  then show ?thesis using o by (simp add: services_inv_def)
qed

lemma fold_remove_files:
  "as_dir (fold (\<lambda>i. remove_service_file (None :: 'e option) i) ks st) name = (if \<exists>i \<in> set ks. name = service_file_name i then None else as_dir st name)"
  by (induction ks arbitrary: st) (auto simp: remove_service_file_def remove_persisted_service_def fs_remove_def)

lemma fold_remove_files_srv [simp]: "srv_of (fold (remove_service_file x) ks st) = srv_of st"
  by (induction ks arbitrary: st) auto

lemma remove_services_inv:
  assumes inv: "services_inv env st"
  shows "services_inv env (snd (remove_services (\<lambda>_. None :: 'e option) sc st))"
proof (cases "get_services sc st :: 'e service_error + _")
  case (Inl e)
  then show ?thesis using inv by (simp add: remove_services_def)
next
  case (Inr srv)
  let ?st' = "snd (remove_services (\<lambda>_. None :: 'e option) sc st)"
  have srv: "srv = srv_of st sc" using get_services_srv_of [OF Inr] .
  have st': "?st' = set_services sc services_default (fold (\<lambda>i. remove_service_file (None :: 'e option) i) (hm_keys (ss_services (srv_of st sc))) st)"
    using Inr srv by (simp add: remove_services_def)
  have so: "srv_of ?st' sc' = (if sc' = sc then services_default else srv_of st sc')" for sc' unfolding st' by simp
  have "files_ok env ?st' \<and> one_scope ?st'"
  proof (rule files_ok_remove [where st = st and sc = sc and P = "\<lambda>_. True"])
    show "as_dir ?st' name = (if \<exists>j. name = service_file_name j \<and> True \<and> service_at st sc j \<noteq> None then None else as_dir st name)" for name
      unfolding st' as_dir_set using fold_remove_files [of "hm_keys (ss_services (srv_of st sc))" st name] by (auto simp: hm_keys_get)
  qed (use inv in \<open>auto simp: services_inv_def so services_default_def\<close>)
  then show ?thesis using inv so by (simp add: services_inv_def)
qed

lemma call_service_inv:
  fixes env :: "('m, 'j, 'kp, 'rt, 's, 'e) services_env"
  assumes inv: "services_inv env st"
  shows "services_inv env (snd (call_service env vault a p create_vault st))"
proof -
  let ?sc = "pp_peer_scope p" and ?st' = "snd (call_service env vault a p create_vault st)"
  have "?st' = st \<or> (\<exists>i sv x. service_at st ?sc i = Some sv \<and> ?st' = set_services ?sc ((srv_of st ?sc)\<lparr>ss_services := hm_insert i (sv\<lparr>sv_module := x\<rparr>) (ss_services (srv_of st ?sc))\<rparr>) st)"
  proof (cases "get_service ?sc (service_id a) (pp_id p) st :: 'e service_error + _")
    case (Inr r)
    obtain sv i where r: "r = (sv, i)" by (cases r)
    have at: "service_at st ?sc i = Some sv" using get_service_found [OF Inr [unfolded r]] by blast
    show ?thesis using Inr r at by (auto simp: call_service_def Let_def srv_of_def split: sum.splits prod.splits if_splits)
  qed (simp add: call_service_def Let_def)
  then show ?thesis
  proof
    assume "\<exists>i sv x. service_at st ?sc i = Some sv \<and> ?st' = set_services ?sc ((srv_of st ?sc)\<lparr>ss_services := hm_insert i (sv\<lparr>sv_module := x\<rparr>) (ss_services (srv_of st ?sc))\<rparr>) st"
    then obtain i sv x where sv: "service_at st ?sc i = Some sv"
      and st': "?st' = set_services ?sc ((srv_of st ?sc)\<lparr>ss_services := hm_insert i (sv\<lparr>sv_module := x\<rparr>) (ss_services (srv_of st ?sc))\<rparr>) st" by blast
    have ok: "srv_ok sc (srv_of st sc)" for sc using inv by (simp add: services_inv_def)
    have "srv_ok ?sc (srv_of ?st' ?sc)" unfolding st' using ok [of ?sc] sv by (auto simp: srv_ok_def)
    then have o: "srv_ok sc (srv_of ?st' sc)" for sc using ok st' by (cases "sc = ?sc") auto
    have at: "service_at ?st' sc j = (if sc = ?sc \<and> j = i then Some (sv\<lparr>sv_module := x\<rparr>) else service_at st sc j)" for sc j unfolding st' by simp
    have fs: "from_service (sv\<lparr>sv_module := x\<rparr>) = from_service sv" by (simp add: from_service_def)
    have d: "as_dir ?st' = as_dir st" unfolding st' by simp
    have n: "service_at ?st' sc j = None \<longleftrightarrow> service_at st sc j = None" for sc j using at sv by auto
    have "files_ok env ?st'" unfolding files_ok_def
    proof (intro conjI allI impI)
      fix sc j sv'
      assume "service_at ?st' sc j = Some sv'"
      then obtain sv0 where "service_at st sc j = Some sv0" "from_service sv' = from_service sv0" using at sv fs by (metis option.inject)
      then show "\<exists>bytes. sx_ser env (from_service sv') = Inr bytes \<and> as_dir ?st' (service_file_name j) = Some bytes"
        using inv d unfolding services_inv_def files_ok_def by metis
    next
      fix name
      assume "as_dir ?st' name \<noteq> None"
      then show "\<exists>sc i. name = service_file_name i \<and> service_at ?st' sc i \<noteq> None" using inv n d unfolding services_inv_def files_ok_def by metis
    qed
    moreover have "one_scope ?st'" using inv unfolding services_inv_def one_scope_def n by blast
    ultimately show ?thesis using o by (simp add: services_inv_def)
  qed (use inv in simp)
qed

interpretation hosted: invariant_system services_start "services_step env" "services_inv env"
  for env :: "('m, 'j, 'kp, 'rt, 's, 'e) services_env"
proof
  show "services_inv env st" if "services_start st" for st
    using that by (auto simp: services_start_def app_services_new_def services_inv_def files_ok_def one_scope_def srv_of_simps services_default_def srv_ok_def split: option.splits)
      (case_tac sc; simp add: srv_of_simps services_default_def)+
  show "services_inv env st'" if inv: "services_inv env st" and st: "services_step env st ev st'" for st ev st'
  proof (cases ev)
    case (SeCreate an i sc ty blueprint owner)
    then show ?thesis using st create_service_inv [OF inv, of i an sc ty blueprint owner] by (auto simp: services_step_def)
  next
    case (SeAddAlias sc al i p)
    then show ?thesis using st add_alias_inv [OF inv] by (auto simp: services_step_def)
  next
    case (SeRemove sc particle id_or_alias p allow)
    then show ?thesis using st remove_service_inv [OF inv] by (auto simp: services_step_def)
  next
    case (SeRemoveAll sc)
    then show ?thesis using st remove_services_inv [OF inv] by (auto simp: services_step_def)
  next
    case (SeCall vault a p create_vault)
    then show ?thesis using st call_service_inv [OF inv] by (auto simp: services_step_def)
  qed
qed

section \<open>Restart in detail\<close>

lemma create_service_inner_ok:
  assumes "services_format env" "create_app_service env an (to_peer_id (sx_scopes env) sc) blueprint i = Some (Inr x)"
    and sv_def: "sv = \<lparr>sv_module = x, sv_id = i, sv_blueprint_id = blueprint, sv_type = ty, sv_owner_id = owner, sv_aliases = aliases, sv_scope = sc\<rparr>"
  obtains st1 where "create_service_inner env an WriteOk ty blueprint owner sc i aliases st = Some (Inr (service_at st sc i), st1)"
    "srv_of st1 = (srv_of st)(sc := (srv_of st sc)\<lparr>ss_services := hm_insert i sv (ss_services (srv_of st sc))\<rparr>)" "as_health st1 = as_health st"
proof -
  obtain bytes where b: "persist_service env WriteOk (from_service sv) (as_dir st) = (Inr (), (as_dir st)(service_file_name (ps_service_id (from_service sv)) \<mapsto> bytes))"
    using persist_service_format [OF assms(1)] by blast
  define st0 where "st0 = st\<lparr>as_dir := (as_dir st)(service_file_name (ps_service_id (from_service sv)) \<mapsto> bytes)\<rparr>"
  obtain srv st2 where g: "get_or_create_services sc st0 = (srv, st2)" by (cases "get_or_create_services sc st0")
  note gs = get_or_create_services_spec [OF g]
  show ?thesis
    by (rule that [of "set_services sc (srv\<lparr>ss_services := hm_insert i sv (ss_services srv)\<rparr>) st2"])
      (use assms(2) b g gs in \<open>auto simp: create_service_inner_def Let_def sv_def st0_def fun_eq_iff\<close>)
qed

lemma fold_alias: "fold (\<lambda>a m. m(a \<mapsto> i)) as m = (\<lambda>a. if a \<in> set as then Some i else m a)"
  by (induction as arbitrary: m) (auto simp: fun_eq_iff)

lemma insert_aliases_srv:
  "srv_of (insert_aliases sc as i st) = (srv_of st)(sc := (srv_of st sc)\<lparr>ss_aliases := (\<lambda>a. if a \<in> set as then Some i else ss_aliases (srv_of st sc) a)\<rparr>)
   \<and> as_health (insert_aliases sc as i st) = as_health st"
proof -
  obtain srv st1 where g: "get_or_create_services sc st = (srv, st1)" by (cases "get_or_create_services sc st")
  show ?thesis using get_or_create_services_spec [OF g] g by (auto simp: insert_aliases_def fold_alias fun_eq_iff)
qed

text \<open>
  Loading services with distinct names, none of which share an alias in their scope, into a state that has
  none of them.
\<close>

lemma create_loaded_services_spec:
  assumes fmt: "services_format env"
    and eng: "\<And>ps. ps \<in> set pss \<Longrightarrow> \<exists>x. create_app_service env (an (ps_service_id ps)) (to_peer_id (sx_scopes env) (ps_peer_scope ps)) (ps_blueprint_id ps) (ps_service_id ps) = Some (Inr x)"
    and "distinct (map ps_service_id pss)" "\<And>ps. ps \<in> set pss \<Longrightarrow> ps_service_type ps \<noteq> None"
    and "\<And>ps sc. ps \<in> set pss \<Longrightarrow> service_at st sc (ps_service_id ps) = None"
    and "\<And>ps ps' a. ps \<in> set pss \<Longrightarrow> ps' \<in> set pss \<Longrightarrow> ps_peer_scope ps = ps_peer_scope ps' \<Longrightarrow> a \<in> set (ps_aliases ps) \<Longrightarrow> a \<in> set (ps_aliases ps') \<Longrightarrow> ps = ps'"
  shows "\<exists>st'. create_loaded_services env an (\<lambda>_. WriteOk) pss st = Some (length pss, st') \<and> as_health st' = as_health st
    \<and> (\<forall>sc i. map_option from_service (service_at st' sc i) =
         (case find (\<lambda>ps. ps_service_id ps = i \<and> ps_peer_scope ps = sc) pss of Some ps \<Rightarrow> Some ps | None \<Rightarrow> map_option from_service (service_at st sc i)))
    \<and> (\<forall>sc a. ss_aliases (srv_of st' sc) a =
         (case find (\<lambda>ps. ps_peer_scope ps = sc \<and> a \<in> set (ps_aliases ps)) pss of Some ps \<Rightarrow> Some (ps_service_id ps) | None \<Rightarrow> ss_aliases (srv_of st sc) a))"
  using assms(2-)
proof (induction pss arbitrary: st)
  case (Cons ps pss)
  let ?i = "ps_service_id ps" and ?sc = "ps_peer_scope ps"
  obtain x where x: "create_app_service env (an ?i) (to_peer_id (sx_scopes env) ?sc) (ps_blueprint_id ps) ?i = Some (Inr x)" using Cons.prems(1) by force
  define sv where "sv = \<lparr>sv_module = x, sv_id = ?i, sv_blueprint_id = ps_blueprint_id ps, sv_type = persisted_service_type env ps, sv_owner_id = ps_owner_id ps,
    sv_aliases = ps_aliases ps, sv_scope = ?sc\<rparr>"
  obtain st1 where c: "create_service_inner env (an ?i) WriteOk (persisted_service_type env ps) (ps_blueprint_id ps) (ps_owner_id ps) ?sc ?i (ps_aliases ps) st = Some (Inr (service_at st ?sc ?i), st1)"
    "srv_of st1 = (srv_of st)(?sc := (srv_of st ?sc)\<lparr>ss_services := hm_insert ?i sv (ss_services (srv_of st ?sc))\<rparr>)" "as_health st1 = as_health st"
    using create_service_inner_ok [OF fmt x sv_def] by blast
  define st2 where "st2 = insert_aliases ?sc (ps_aliases ps) ?i st1"
  have s2: "srv_of st2 = (srv_of st1)(?sc := (srv_of st1 ?sc)\<lparr>ss_aliases := (\<lambda>a. if a \<in> set (ps_aliases ps) then Some ?i else ss_aliases (srv_of st1 ?sc) a)\<rparr>)"
    "as_health st2 = as_health st1" using insert_aliases_srv unfolding st2_def by blast+
  have at2: "service_at st2 sc j = (if sc = ?sc \<and> j = ?i then Some sv else service_at st sc j)" for sc j using c(2) s2(1) by auto
  have al2: "ss_aliases (srv_of st2 sc) a = (if sc = ?sc \<and> a \<in> set (ps_aliases ps) then Some ?i else ss_aliases (srv_of st sc) a)" for sc a using c(2) s2(1) by auto
  have fs: "from_service sv = ps" using Cons.prems(3) [of ps] by (cases ps) (auto simp: from_service_def sv_def persisted_service_type_def)
  have nin: "?i \<notin> set (map ps_service_id pss)" using Cons.prems(2) by simp
  have nin': "\<And>q. q \<in> set pss \<Longrightarrow> ps_service_id q \<noteq> ?i" using nin by (metis imageI set_map)
  have "\<exists>st'. create_loaded_services env an (\<lambda>_. WriteOk) pss st2 = Some (length pss, st') \<and> as_health st' = as_health st2
    \<and> (\<forall>sc i. map_option from_service (service_at st' sc i) =
         (case find (\<lambda>ps. ps_service_id ps = i \<and> ps_peer_scope ps = sc) pss of Some ps \<Rightarrow> Some ps | None \<Rightarrow> map_option from_service (service_at st2 sc i)))
    \<and> (\<forall>sc a. ss_aliases (srv_of st' sc) a =
         (case find (\<lambda>ps. ps_peer_scope ps = sc \<and> a \<in> set (ps_aliases ps)) pss of Some ps \<Rightarrow> Some (ps_service_id ps) | None \<Rightarrow> ss_aliases (srv_of st2 sc) a))"
  proof (rule Cons.IH)
    fix q sc
    assume q: "q \<in> set pss"
    then have "ps_service_id q \<noteq> ?i" using nin by (metis imageI set_map)
    then show "service_at st2 sc (ps_service_id q) = None" using at2 Cons.prems(4) q by simp
  qed (use Cons.prems in auto)
  then obtain st' where st': "create_loaded_services env an (\<lambda>_. WriteOk) pss st2 = Some (length pss, st')" "as_health st' = as_health st2"
    "\<And>sc i. map_option from_service (service_at st' sc i) =
         (case find (\<lambda>ps. ps_service_id ps = i \<and> ps_peer_scope ps = sc) pss of Some ps \<Rightarrow> Some ps | None \<Rightarrow> map_option from_service (service_at st2 sc i))"
    "\<And>sc a. ss_aliases (srv_of st' sc) a =
         (case find (\<lambda>ps. ps_peer_scope ps = sc \<and> a \<in> set (ps_aliases ps)) pss of Some ps \<Rightarrow> Some (ps_service_id ps) | None \<Rightarrow> ss_aliases (srv_of st2 sc) a)"
    by blast
  have none: "service_at st ?sc ?i = None" using Cons.prems(4) [of ps] by simp
  have f1: "find (\<lambda>q. ps_service_id q = ?i \<and> ps_peer_scope q = sc) pss = None" for sc unfolding find_None_iff using nin' by blast
  have f2: "find (\<lambda>q. ps_peer_scope q = ?sc \<and> a \<in> set (ps_aliases q)) pss = None" if "a \<in> set (ps_aliases ps)" for a
    unfolding find_None_iff
  proof (intro notI, elim exE conjE)
    fix q
    assume q: "q \<in> set pss" "ps_peer_scope q = ?sc" "a \<in> set (ps_aliases q)"
    then have "q = ps" using Cons.prems(5) [of q ps a] that by simp
    then show False using nin' [OF q(1)] by simp
  qed
  show ?case
  proof (intro exI [of _ st'] conjI allI)
    show "create_loaded_services env an (\<lambda>_. WriteOk) (ps # pss) st = Some (length (ps # pss), st')"
      using c(1) none st'(1) by (simp add: st2_def Let_def)
    show "as_health st' = as_health st" using st'(2) s2(2) c(3) by simp
    show "map_option from_service (service_at st' sc i) =
         (case find (\<lambda>ps. ps_service_id ps = i \<and> ps_peer_scope ps = sc) (ps # pss) of Some ps \<Rightarrow> Some ps | None \<Rightarrow> map_option from_service (service_at st sc i))" for sc i
    proof (cases "sc = ?sc \<and> i = ?i")
      case True
      then show ?thesis unfolding st'(3) at2 using f1 [of sc] fs by simp
    next
      case False
      then have "\<not> (?i = i \<and> ?sc = sc)" by blast
      then show ?thesis unfolding st'(3) at2 if_not_P [OF False] by (simp only: find.simps if_False)
    qed
    show "ss_aliases (srv_of st' sc) a =
         (case find (\<lambda>ps. ps_peer_scope ps = sc \<and> a \<in> set (ps_aliases ps)) (ps # pss) of Some ps \<Rightarrow> Some (ps_service_id ps) | None \<Rightarrow> ss_aliases (srv_of st sc) a)" for sc a
    proof (cases "sc = ?sc \<and> a \<in> set (ps_aliases ps)")
      case True
      then show ?thesis unfolding st'(4) al2 using f2 [of a] by simp
    next
      case False
      then have "\<not> (?sc = sc \<and> a \<in> set (ps_aliases ps))" by blast
      then show ?thesis unfolding st'(4) al2 if_not_P [OF False] by (simp only: find.simps if_False)
    qed
  qed
qed simp

text \<open>The files of consistent services are exactly these services.\<close>

lemma loaded_services:
  assumes inv: "services_inv env st" and fmt: "services_format env" and full: "full_listing (as_dir st) names"
  obtains loaded where "load_persisted_services env ce (Some (map Inr names)) (\<lambda>_. None) (as_dir st) = Inr loaded"
    "set (map fst loaded) = {from_service sv | sc i sv. service_at st sc i = Some sv}" "distinct (map ps_service_id (map fst loaded))"
proof -
  obtain loaded where l: "load_persisted_data ce (Some (map Inr names)) (\<lambda>_. None) is_service (sx_de env) (as_dir st) = Inr loaded"
    "set loaded = {(x, n). is_service n \<and> (\<exists>bytes. as_dir st n = Some bytes \<and> sx_de env bytes = Inr x)}" "distinct (map snd loaded)"
    using load_persisted_data_full [OF full, of ce is_service "sx_de env"] by blast
  have onfile: "as_dir st (service_file_name i) = Some bytes \<longleftrightarrow> (\<exists>sc sv. service_at st sc i = Some sv \<and> sx_ser env (from_service sv) = Inr bytes)" for i bytes
  proof
    assume a: "as_dir st (service_file_name i) = Some bytes"
    then obtain sc sv where "service_at st sc i = Some sv" using inv unfolding services_inv_def files_ok_def by (metis option.exhaust option.distinct(1) service_file_name_inject)
    then show "\<exists>sc sv. service_at st sc i = Some sv \<and> sx_ser env (from_service sv) = Inr bytes" using inv a unfolding services_inv_def files_ok_def by (metis option.inject)
  next
    assume "\<exists>sc sv. service_at st sc i = Some sv \<and> sx_ser env (from_service sv) = Inr bytes"
    then show "as_dir st (service_file_name i) = Some bytes" using inv unfolding services_inv_def files_ok_def by (metis sum.inject(2))
  qed
  have de: "sx_ser env ps = Inr bytes \<Longrightarrow> sx_de env bytes = Inr ps" for ps bytes using fmt unfolding services_format_def by (metis sum.inject(2))
  have names: "as_dir st n \<noteq> None \<Longrightarrow> \<exists>i. n = service_file_name i" for n using inv unfolding services_inv_def files_ok_def by blast
  have mem: "(ps, n) \<in> set loaded \<longleftrightarrow> (\<exists>sc i sv. n = service_file_name i \<and> service_at st sc i = Some sv \<and> ps = from_service sv)" for ps n
  proof
    assume "(ps, n) \<in> set loaded"
    then obtain bytes where b: "as_dir st n = Some bytes" "sx_de env bytes = Inr ps" using l(2) by auto
    then obtain i where i: "n = service_file_name i" using names by blast
    then obtain sc sv where "service_at st sc i = Some sv" "sx_ser env (from_service sv) = Inr bytes" using b onfile by blast
    then show "\<exists>sc i sv. n = service_file_name i \<and> service_at st sc i = Some sv \<and> ps = from_service sv" using b(2) i de by fastforce
  next
    assume "\<exists>sc i sv. n = service_file_name i \<and> service_at st sc i = Some sv \<and> ps = from_service sv"
    then obtain sc i sv where s: "n = service_file_name i" "service_at st sc i = Some sv" "ps = from_service sv" by blast
    obtain bytes where "sx_ser env (from_service sv) = Inr bytes" using fmt by (auto simp: services_format_def)
    then have "as_dir st n = Some bytes" "sx_de env bytes = Inr ps" using s onfile de by blast+
    then show "(ps, n) \<in> set loaded" using l(2) s(1) by (auto simp: is_service_def service_file_name_def suffix_def)
  qed
  have "set (map fst loaded) = {from_service sv | sc i sv. service_at st sc i = Some sv}" using mem by force
  moreover have "snd q = service_file_name (ps_service_id (fst q))" if qin: "q \<in> set loaded" for q
  proof -
    obtain ps n where q: "q = (ps, n)" by (cases q)
    then obtain sc i sv where s: "n = service_file_name i" "service_at st sc i = Some sv" "ps = from_service sv" using qin mem by blast
    have "sv_id sv = i" using inv s(2) unfolding services_inv_def srv_ok_def by blast
    then show ?thesis using q s by (simp add: from_service_def)
  qed
  then have "map snd loaded = map service_file_name (map ps_service_id (map fst loaded))" by simp
  then have "distinct (map ps_service_id (map fst loaded))" using l(3) by (metis distinct_map)
  ultimately show ?thesis using that l(1) by (simp add: load_persisted_services_def)
qed

lemma find_unique:
  assumes "x \<in> set xs" "P x" "\<And>y. y \<in> set xs \<Longrightarrow> P y \<Longrightarrow> y = x"
  shows "find P xs = Some x"
proof -
  obtain y where y: "find P xs = Some y" using assms(1,2) by (cases "find P xs") (auto simp: find_None_iff)
  then have "y \<in> set xs" "P y" unfolding find_Some_iff by auto
  then show ?thesis using y assms(3) by blast
qed

text \<open>The files of a consistent registry give every service and every alias back.\<close>

lemma persisted_found:
  assumes ok: "\<And>sc. srv_ok sc (srv_of st sc)" and pss: "set pss = {from_service sv | sc i sv. service_at st sc i = Some sv}"
  shows "find (\<lambda>ps. ps_service_id ps = i \<and> ps_peer_scope ps = sc) pss = map_option from_service (service_at st sc i)"
proof (cases "service_at st sc i")
  case None
  have "\<not> (ps_service_id q = i \<and> ps_peer_scope q = sc)" if q: "q \<in> set pss" for q
    using q None ok unfolding pss srv_ok_def from_service_def by fastforce
  then have "find (\<lambda>ps. ps_service_id ps = i \<and> ps_peer_scope ps = sc) pss = None" unfolding find_None_iff by blast
  then show ?thesis using None by simp
next
  case (Some sv)
  have "find (\<lambda>ps. ps_service_id ps = i \<and> ps_peer_scope ps = sc) pss = Some (from_service sv)"
  proof (rule find_unique)
    show "from_service sv \<in> set pss" using Some unfolding pss by blast
    show "ps_service_id (from_service sv) = i \<and> ps_peer_scope (from_service sv) = sc" using Some ok by (simp add: srv_ok_def from_service_def)
    show "q = from_service sv" if q: "q \<in> set pss" "ps_service_id q = i \<and> ps_peer_scope q = sc" for q
      using q Some ok unfolding pss srv_ok_def from_service_def by fastforce
  qed
  then show ?thesis using Some by simp
qed

lemma persisted_alias_found:
  assumes ok: "\<And>sc. srv_ok sc (srv_of st sc)" and pss: "set pss = {from_service sv | sc i sv. service_at st sc i = Some sv}"
  shows "map_option ps_service_id (find (\<lambda>ps. ps_peer_scope ps = sc \<and> a \<in> set (ps_aliases ps)) pss) = ss_aliases (srv_of st sc) a"
proof -
  have named: "ss_aliases (srv_of st sc) a = Some (ps_service_id q)" if q: "q \<in> set pss" "ps_peer_scope q = sc \<and> a \<in> set (ps_aliases q)" for q
    using q ok unfolding pss srv_ok_def from_service_def by fastforce
  show ?thesis
  proof (cases "find (\<lambda>ps. ps_peer_scope ps = sc \<and> a \<in> set (ps_aliases ps)) pss")
    case None
    have "ss_aliases (srv_of st sc) a \<noteq> Some i" for i
    proof
      assume "ss_aliases (srv_of st sc) a = Some i"
      then obtain sv where "service_at st sc i = Some sv" "a \<in> set (sv_aliases sv)" "sv_scope sv = sc" using ok [of sc] by (auto simp: srv_ok_def)
      then show False using None unfolding find_None_iff pss from_service_def by fastforce
    qed
    then show ?thesis using None by (cases "ss_aliases (srv_of st sc) a") auto
  next
    case (Some q)
    then have "q \<in> set pss" "ps_peer_scope q = sc \<and> a \<in> set (ps_aliases q)" unfolding find_Some_iff by auto
    then show ?thesis using named Some by simp
  qed
qed

lemma create_loaded_restores:
  fixes st :: "'m app_services"
  assumes fmt: "services_format env" and ok: "\<And>sc. srv_ok sc (srv_of st sc)"
    and pss: "set pss = {from_service sv | sc i sv. service_at st sc i = Some sv}" "distinct (map ps_service_id pss)"
    and eng: "\<And>sc i sv. service_at st sc i = Some sv \<Longrightarrow> \<exists>x. create_app_service env (an i) (to_peer_id (sx_scopes env) sc) (sv_blueprint_id sv) i = Some (Inr x)"
    and empty: "\<And>sc. srv_of st0 sc = (services_default :: 'm services)"
  shows "\<exists>st'. create_loaded_services env an (\<lambda>_. WriteOk) pss st0 = Some (length pss, st') \<and> as_health st' = as_health st0
    \<and> (\<forall>sc i. map_option from_service (service_at st' sc i) = map_option from_service (service_at st sc i))
    \<and> (\<forall>sc a. ss_aliases (srv_of st' sc) a = ss_aliases (srv_of st sc) a)"
proof -
  have at: "sv_id sv = i \<and> sv_scope sv = sc" if "service_at st sc i = Some sv" for sc i sv using ok [of sc] that by (simp add: srv_ok_def)
  have mem: "\<exists>sc i sv. service_at st sc i = Some sv \<and> ps = from_service sv \<and> ps_service_id ps = i \<and> ps_peer_scope ps = sc" if "ps \<in> set pss" for ps
    using that at unfolding pss(1) by (fastforce simp: from_service_def)
  have dflt: "hm_get (ss_services (services_default :: 'm services)) i = None" "ss_aliases (services_default :: 'm services) a = None" for i a
    by (simp_all add: services_default_def)
  have "\<exists>st'. create_loaded_services env an (\<lambda>_. WriteOk) pss st0 = Some (length pss, st') \<and> as_health st' = as_health st0
    \<and> (\<forall>sc i. map_option from_service (service_at st' sc i) =
         (case find (\<lambda>ps. ps_service_id ps = i \<and> ps_peer_scope ps = sc) pss of Some ps \<Rightarrow> Some ps | None \<Rightarrow> map_option from_service (service_at st0 sc i)))
    \<and> (\<forall>sc a. ss_aliases (srv_of st' sc) a =
         (case find (\<lambda>ps. ps_peer_scope ps = sc \<and> a \<in> set (ps_aliases ps)) pss of Some ps \<Rightarrow> Some (ps_service_id ps) | None \<Rightarrow> ss_aliases (srv_of st0 sc) a))"
  proof (rule create_loaded_services_spec [OF fmt _ pss(2)])
    fix ps
    assume ps: "ps \<in> set pss"
    obtain sc i sv where s: "service_at st sc i = Some sv" "ps = from_service sv" "ps_service_id ps = i" "ps_peer_scope ps = sc" using mem [OF ps] by blast
    then show "\<exists>x. create_app_service env (an (ps_service_id ps)) (to_peer_id (sx_scopes env) (ps_peer_scope ps)) (ps_blueprint_id ps) (ps_service_id ps) = Some (Inr x)"
      using eng [OF s(1)] by (simp add: from_service_def)
    show "ps_service_type ps \<noteq> None" using s(2) by (simp add: from_service_def)
    show "service_at st0 sc' (ps_service_id ps) = None" for sc' by (simp only: empty dflt)
  next
    fix ps ps' a
    assume p: "ps \<in> set pss" "ps' \<in> set pss" "ps_peer_scope ps = ps_peer_scope ps'" "a \<in> set (ps_aliases ps)" "a \<in> set (ps_aliases ps')"
    obtain sc i sv where s: "service_at st sc i = Some sv" "ps = from_service sv" "ps_peer_scope ps = sc" using mem [OF p(1)] by blast
    obtain i' sv' where s': "service_at st sc i' = Some sv'" "ps' = from_service sv'" using mem [OF p(2)] s(3) p(3) by metis
    have "ss_aliases (srv_of st sc) a = Some i" using ok [of sc] s p(4) by (auto simp: srv_ok_def from_service_def)
    moreover have "ss_aliases (srv_of st sc) a = Some i'" using ok [of sc] s' p(5) by (auto simp: srv_ok_def from_service_def)
    ultimately show "ps = ps'" using s(1,2) s'(1,2) by simp
  qed
  moreover have "(case find (\<lambda>ps. ps_service_id ps = i \<and> ps_peer_scope ps = sc) pss of Some ps \<Rightarrow> Some ps | None \<Rightarrow> None) = map_option from_service (service_at st sc i)" for sc i
    unfolding persisted_found [OF ok pss(1)] by (simp split: option.split)
  moreover have "(case find (\<lambda>ps. ps_peer_scope ps = sc \<and> a \<in> set (ps_aliases ps)) pss of Some ps \<Rightarrow> Some (ps_service_id ps) | None \<Rightarrow> None) = ss_aliases (srv_of st sc) a" for sc a
    unfolding persisted_alias_found [OF ok pss(1), symmetric] by (simp split: option.split)
  ultimately show ?thesis unfolding empty dflt option.map by metis
qed

text \<open>An alias that names nothing, and the failure that leads to it.\<close>

lemma get_service_by_id: "service_at st sc i = Some sv \<Longrightarrow> get_service sc i particle st = (Inr (sv, i) :: 'e service_error + _)"
  by (cases sc) (auto simp: get_service_def srv_of_simps services_default_def split: option.splits)

lemma srv_remove_alias_fails:
  assumes "service_at st sc i = Some sv" "sv_id sv = i" "sx_ser env (from_service (service_remove_alias a sv)) = Inr bytes"
  shows "\<exists>st'. srv_remove_alias env (WriteFailed err left) a sc i st = (Inl (WritePersistedService (service_file_name i) err), st')
    \<and> srv_of st' = (srv_of st)(sc := (srv_of st sc)\<lparr>ss_services := hm_insert i (service_remove_alias a sv) (ss_services (srv_of st sc))\<rparr>)"
proof -
  obtain srv st0 where g: "get_or_create_services sc st = (srv, st0)" by (cases "get_or_create_services sc st")
  have s: "srv = srv_of st sc" "srv_of st0 = srv_of st" using get_or_create_services_spec [OF g] by simp_all
  have i: "ps_service_id (from_service (service_remove_alias a sv)) = i" using assms(2) by (simp add: from_service_def service_remove_alias_def)
  show ?thesis using assms(1,3) unfolding srv_remove_alias_def g s(1) by (simp add: find_service_def persist_service_def i s(2) fun_eq_iff)
qed

lemma dangling_alias:
  assumes "service_at st sc old = None" "ss_aliases (srv_of st sc) a = Some old"
  shows "\<exists>e. fst (add_alias env wr1 wr2 sc a j p st) = Inl e"
proof -
  obtain srv st0 where g: "get_or_create_services sc st = (srv, st0)" by (cases "get_or_create_services sc st")
  have "srv_remove_alias env wr1 a sc old st = (Inl (NoSuchService old sc), st0)"
    using assms(1) get_or_create_services_spec [OF g] by (simp add: srv_remove_alias_def g find_service_def)
  then show ?thesis using assms(2) by (auto simp: add_alias_def get_service_id_eq split: option.split)
qed

section \<open>Locks\<close>

text \<open>
  The operations take two read-write locks of the scope: on the services and on the aliases.  A program
  is the sequence in which an operation takes and releases them.  \<open>get_service\<close> with an alias reads the
  aliases while it still holds the services; \<open>remove_service\<close>, \<open>remove_services\<close> and \<open>add_alias_inner\<close>
  take the aliases first.
\<close>

datatype lock_name = LockServices | LockAliases

datatype lock_action = LockRead lock_name | LockWrite lock_name | Unlock lock_name

definition get_service_locks :: "bool \<Rightarrow> lock_action list" where
  "get_service_locks by_alias =
     LockRead LockServices # (if by_alias then [LockRead LockAliases, Unlock LockAliases] else []) @ [Unlock LockServices]"

definition remove_commit_locks :: "lock_action list" where
  "remove_commit_locks = [LockWrite LockAliases, LockWrite LockServices, Unlock LockServices, Unlock LockAliases]"

definition remove_service_locks :: "bool \<Rightarrow> lock_action list" where
  "remove_service_locks by_alias = get_service_locks by_alias @ remove_commit_locks"

definition add_alias_inner_locks :: "lock_action list" where
  "add_alias_inner_locks = remove_commit_locks"

text \<open>The tasks with what is left of their programs, and the holders of each lock.\<close>

record lock_state =
  lk_programs :: "lock_action list list"
  lk_readers :: "lock_name \<Rightarrow> nat set"
  lk_writer :: "lock_name \<Rightarrow> nat option"

definition lock_start :: "lock_action list list \<Rightarrow> lock_state" where
  "lock_start progs = \<lparr>lk_programs = progs, lk_readers = (\<lambda>_. {}), lk_writer = (\<lambda>_. None)\<rparr>"

text \<open>A task reads when nobody writes, and writes when nobody else holds the lock.\<close>

fun lock_enabled :: "nat \<Rightarrow> lock_action \<Rightarrow> lock_state \<Rightarrow> bool" where
  "lock_enabled t (LockRead l) s = (lk_writer s l = None)"
| "lock_enabled t (LockWrite l) s = (lk_writer s l = None \<and> lk_readers s l = {})"
| "lock_enabled t (Unlock l) s = True"

fun lock_effect :: "nat \<Rightarrow> lock_action \<Rightarrow> lock_state \<Rightarrow> lock_state" where
  "lock_effect t (LockRead l) s = s\<lparr>lk_readers := (lk_readers s)(l := insert t (lk_readers s l))\<rparr>"
| "lock_effect t (LockWrite l) s = s\<lparr>lk_writer := (lk_writer s)(l := Some t)\<rparr>"
| "lock_effect t (Unlock l) s =
     s\<lparr>lk_readers := (lk_readers s)(l := lk_readers s l - {t}), lk_writer := (lk_writer s)(l := if lk_writer s l = Some t then None else lk_writer s l)\<rparr>"

definition lock_step :: "lock_state \<Rightarrow> nat \<Rightarrow> lock_state \<Rightarrow> bool" where
  "lock_step s t s' \<longleftrightarrow> t < length (lk_programs s) \<and> (case lk_programs s ! t of
       [] \<Rightarrow> False
     | a # rest \<Rightarrow> lock_enabled t a s \<and> s' = lock_effect t a (s\<lparr>lk_programs := (lk_programs s)[t := rest]\<rparr>))"

text \<open>Somebody still has to go on, and nobody can.\<close>

definition deadlocked :: "lock_state \<Rightarrow> bool" where
  "deadlocked s \<longleftrightarrow> (\<exists>p \<in> set (lk_programs s). p \<noteq> [])
     \<and> (\<forall>t < length (lk_programs s). case lk_programs s ! t of [] \<Rightarrow> True | a # _ \<Rightarrow> \<not> lock_enabled t a s)"

definition may_deadlock :: "lock_action list list \<Rightarrow> bool" where
  "may_deadlock progs \<longleftrightarrow> (\<exists>s. reachable (\<lambda>s. s = lock_start progs) lock_step s \<and> deadlocked s)"

lemma deadlocked_stuck: "deadlocked s \<Longrightarrow> \<not> lock_step s t s'"
  by (auto simp: deadlocked_def lock_step_def split: list.splits)

text \<open>One step of a task, on a concrete state.\<close>

definition lock_next :: "nat \<Rightarrow> lock_state \<Rightarrow> lock_state" where
  "lock_next t s = (case lk_programs s ! t of [] \<Rightarrow> s | a # rest \<Rightarrow> lock_effect t a (s\<lparr>lk_programs := (lk_programs s)[t := rest]\<rparr>))"

fun lock_run :: "nat list \<Rightarrow> lock_state \<Rightarrow> lock_state option" where
  "lock_run [] s = Some s"
| "lock_run (t # ts) s = (if t < length (lk_programs s) \<and> (case lk_programs s ! t of [] \<Rightarrow> False | a # _ \<Rightarrow> lock_enabled t a s) then lock_run ts (lock_next t s) else None)"

lemma lock_run_trace: "lock_run ts s = Some s' \<Longrightarrow> trace lock_step s ts s'"
proof (induction ts arbitrary: s)
  case (Cons t ts)
  then have "lock_step s t (lock_next t s)" "lock_run ts (lock_next t s) = Some s'"
    by (auto simp: lock_step_def lock_next_def split: if_splits list.splits)
  then show ?case using Cons.IH trace_Cons by metis
qed (auto intro: trace_Nil)

lemma may_deadlock_run:
  assumes "case lock_run ts (lock_start progs) of None \<Rightarrow> False | Some s \<Rightarrow> deadlocked s"
  shows "may_deadlock progs"
proof -
  obtain s where s: "lock_run ts (lock_start progs) = Some s" "deadlocked s" using assms by (auto split: option.splits)
  have "reachable (\<lambda>s. s = lock_start progs) lock_step (lock_start progs)" by (rule reach_start) simp
  then show ?thesis using s trace_reachable [OF lock_run_trace [OF s(1)]] unfolding may_deadlock_def by blast
qed

lemmas lock_eval = lock_next_def lock_start_def get_service_locks_def remove_commit_locks_def deadlocked_def All_less_Suc

text \<open>Tasks that only read go on.\<close>

definition only_reads :: "lock_state \<Rightarrow> bool" where
  "only_reads s \<longleftrightarrow> lk_writer s = (\<lambda>_. None) \<and> (\<forall>p \<in> set (lk_programs s). \<forall>l. LockWrite l \<notin> set p)"

lemma only_reads_step: "only_reads s \<Longrightarrow> lock_step s t s' \<Longrightarrow> only_reads s'"
proof -
  assume o: "only_reads s" and st: "lock_step s t s'"
  obtain a rest where p: "t < length (lk_programs s)" "lk_programs s ! t = a # rest" "s' = lock_effect t a (s\<lparr>lk_programs := (lk_programs s)[t := rest]\<rparr>)"
    using st by (auto simp: lock_step_def split: list.splits)
  have m: "a # rest \<in> set (lk_programs s)" using p(1,2) by (metis nth_mem)
  have progs: "\<forall>q \<in> set ((lk_programs s)[t := rest]). \<forall>l. LockWrite l \<notin> set q"
    using o m set_update_subset_insert [of "lk_programs s" t rest] unfolding only_reads_def by fastforce
  have "a \<noteq> LockWrite l" for l using o m unfolding only_reads_def by fastforce
  then show "only_reads s'" using o progs unfolding p(3) only_reads_def by (cases a) (auto simp: fun_eq_iff)
qed

interpretation reading: invariant_system "\<lambda>s. s = lock_start progs \<and> only_reads s" lock_step only_reads
  for progs
  by unfold_locales (auto intro: only_reads_step)

lemma only_reads_goes_on: "only_reads s \<Longrightarrow> \<not> deadlocked s"
proof
  assume o: "only_reads s" and d: "deadlocked s"
  obtain p where p: "p \<in> set (lk_programs s)" "p \<noteq> []" using d by (auto simp: deadlocked_def)
  obtain t where t: "t < length (lk_programs s)" "lk_programs s ! t = p" using p(1) by (auto simp: in_set_conv_nth)
  obtain a r where a: "p = a # r" using p(2) by (cases p) auto
  have "\<not> lock_enabled t a s" using d t a unfolding deadlocked_def by fastforce
  moreover have "lock_enabled t a s" using o p(1) a unfolding only_reads_def by (cases a) fastforce+
  ultimately show False by simp
qed

lemma reads_never_deadlock:
  assumes "\<forall>p \<in> set progs. \<forall>l. LockWrite l \<notin> set p"
  shows "\<not> may_deadlock progs"
proof -
  have "only_reads (lock_start progs)" using assms by (simp add: only_reads_def lock_start_def)
  then have "(\<lambda>s. s = lock_start progs \<and> only_reads s) = (\<lambda>s. s = lock_start progs)" by auto
  then show ?thesis using reading.reachable_inv [of progs] only_reads_goes_on unfolding may_deadlock_def by metis
qed

section \<open>Properties\<close>


text \<open>
  C16: who may give an alias, and to what.  A request succeeds only for a manager, for the host in the
  host's scope, and for the worker or its creator in a worker's scope; the alias is not reserved, not the
  identifier of a service, and \<^verbatim>\<open>worker-spell\<close> only for the host and managers; the service exists.  Then
  the alias names that service, it is taken from the service that had it, and nothing else changes.
  Otherwise nothing changes at all.
\<close>

theorem add_alias_correct:
  fixes env :: "('m, 'j, 'kp, 'rt, 's, 'e) services_env"
  assumes "reachable services_start (services_step env) st" "services_format env" "add_alias env WriteOk WriteOk sc alias i p st = (r, st')"
  shows "case r of
      Inl e \<Rightarrow> st' = st
    | Inr _ \<Rightarrow> (is_management (sx_scopes env) p \<or> (case sc of ScopeHost \<Rightarrow> p = get_host_peer_id (sx_scopes env)
             | ScopeWorkerId w \<Rightarrow> p = worker_peer_id w \<or> get_worker_creator (sx_workers env) w = (Inr p :: 'e workers_error + peer_id)))
        \<and> alias \<notin> {''spell'', ''self''} \<and> service_at st sc alias = None \<and> service_at st sc i \<noteq> None
        \<and> (alias = ''worker-spell'' \<longrightarrow> is_host (sx_scopes env) p \<or> is_management (sx_scopes env) p)
        \<and> ss_aliases (srv_of st' sc) = (ss_aliases (srv_of st sc))(alias \<mapsto> i)
        \<and> (\<forall>j. map_option (\<lambda>sv. (set (sv_aliases sv), sv\<lparr>sv_aliases := []\<rparr>)) (service_at st' sc j) =
             map_option (\<lambda>sv. (if j = i then insert alias (set (sv_aliases sv)) else set (sv_aliases sv) - {alias}, sv\<lparr>sv_aliases := []\<rparr>)) (service_at st sc j))
        \<and> (\<forall>sc'. sc' \<noteq> sc \<longrightarrow> srv_of st' sc' = srv_of st sc')"
proof -
  have inv: "services_inv env st" using hosted.reachable_inv [OF assms(1)] .
  show ?thesis
    using inv assms(2)
  proof (cases rule: add_alias_cases [of env st sc "alias" i p])
    case (refused e)
    then show ?thesis using assms(3) by simp
  next
    case (added st1)
    have r: "r = Inr ()" "st1 = st'" using added(1) assms(3) by simp_all
    have perm: "is_management (sx_scopes env) p \<or> (case sc of ScopeHost \<Rightarrow> p = get_host_peer_id (sx_scopes env)
             | ScopeWorkerId w \<Rightarrow> p = worker_peer_id w \<or> get_worker_creator (sx_workers env) w = (Inr p :: 'e workers_error + peer_id))"
      using added(2) by (auto simp: alias_permitted_def get_worker_creator_def split: if_splits peer_scope.splits sum.splits option.splits)
    have d: "distinct (sv_aliases sv)" if "service_at st sc j = Some sv" for j sv using inv that unfolding services_inv_def srv_ok_def by blast
    have at: "map_option (\<lambda>sv. (set (sv_aliases sv), sv\<lparr>sv_aliases := []\<rparr>)) (service_at st' sc j) =
             map_option (\<lambda>sv. (if j = i then insert alias (set (sv_aliases sv)) else set (sv_aliases sv) - {alias}, sv\<lparr>sv_aliases := []\<rparr>)) (service_at st sc j)" for j
      using added(9) d r(2) by (cases "service_at st sc j") (auto simp: realiased_def service_add_alias_def service_remove_alias_def)
    have "ss_aliases (srv_of st' sc) = (ss_aliases (srv_of st sc))(alias \<mapsto> i)" using added(9) r(2) by (simp add: realiased_def)
    then show ?thesis using added r perm at by simp
  qed
qed

text \<open>
  C18: the services survive a restart.  Let a registry start on the files of another one, whose directory is
  listed completely, and let the WebAssembly host accept every service again.  Then every service is back in
  its scope, with its type, blueprint, owner and aliases, every alias names what it named, nothing else
  exists, and the check of the health of the services passes.
\<close>

theorem services_restart:
  fixes env :: "('m, 'j, 'kp, 'rt, 's, 'e) services_env"
  assumes "reachable services_start (services_step env) st" "services_format env" "full_listing (as_dir st) names"
    and "\<And>sc i sv. service_at st sc i = Some sv \<Longrightarrow> \<exists>x. create_app_service env (an i) (to_peer_id (sx_scopes env) sc) (sv_blueprint_id sv) i = Some (Inr x)"
  shows "\<exists>st'. create_persisted_services env ce (Some (map Inr names)) (\<lambda>_. None) an (\<lambda>_. WriteOk) (app_services_new (Some service_health_new) (as_dir st)) = Some (Inr (), st')
    \<and> (\<forall>sc. ss_aliases (srv_of st' sc) = ss_aliases (srv_of st sc)
         \<and> (\<forall>i. map_option from_service (service_at st' sc i) = map_option from_service (service_at st sc i)))
    \<and> map_option service_health_status (as_health st') = Some True"
proof -
  have inv: "services_inv env st" using hosted.reachable_inv [OF assms(1)] .
  have ok: "srv_ok sc (srv_of st sc)" for sc using inv by (simp add: services_inv_def)
  obtain loaded where l: "load_persisted_services env ce (Some (map Inr names)) (\<lambda>_. None) (as_dir st) = Inr loaded"
    "set (map fst loaded) = {from_service sv | sc i sv. service_at st sc i = Some sv}" "distinct (map ps_service_id (map fst loaded))"
    using loaded_services [OF inv assms(2,3)] by blast
  let ?new = "app_services_new (Some service_health_new) (as_dir st) :: 'm app_services"
  have empty: "srv_of (?new\<lparr>as_health := Some (start_creation service_health_new)\<rparr>) sc = services_default" for sc
    by (cases sc) (simp_all add: srv_of_simps app_services_new_def)
  have new: "as_dir ?new = as_dir st" "as_health ?new = Some service_health_new" by (simp_all add: app_services_new_def)
  obtain st' where st': "create_loaded_services env an (\<lambda>_. WriteOk) (map fst loaded) (?new\<lparr>as_health := Some (start_creation service_health_new)\<rparr>) = Some (length (map fst loaded), st')"
    "as_health st' = Some (start_creation service_health_new)"
    "\<And>sc i. map_option from_service (service_at st' sc i) = map_option from_service (service_at st sc i)"
    "\<And>sc a. ss_aliases (srv_of st' sc) a = ss_aliases (srv_of st sc) a"
    using create_loaded_restores [OF assms(2) ok l(2,3) assms(4) empty] by auto
  show ?thesis
    by (rule exI [of _ "st'\<lparr>as_health := map_option finish_creation (as_health st')\<rparr>"])
      (use st' in \<open>simp add: create_persisted_services_def new l(1) fun_eq_iff service_health_status_def finish_creation_def start_creation_def\<close>)
qed

text \<open>
  C17: who may remove a service, and what goes.  A service is removed only for the host or worker it lives on,
  for its owner and for managers; spells only where spells are meant and other services only where they are.
  Then exactly the service found under the identifier or alias is gone, with every alias that named it.
  Otherwise nothing changes.
\<close>

theorem remove_service_correct:
  fixes env :: "('m, 'j, 'kp, 'rt, 's, 'e) services_env"
  assumes "reachable services_start (services_step env) st" "remove_service env fail sc particle x p allow st = Some (r, st')"
  shows "case r of
      Inl e \<Rightarrow> st' = st
    | Inr _ \<Rightarrow> (\<exists>i sv. service_at st sc i = Some sv
        \<and> (if service_at st sc x \<noteq> None then i = x
           else if x \<in> {''spell'', ''self''} \<and> get_spell_id particle \<noteq> None then get_spell_id particle = Some i
           else ss_aliases (srv_of st sc) x = Some i)
        \<and> is_spell (sv_type sv) = allow
        \<and> (p = to_peer_id (sx_scopes env) sc \<or> p = sv_owner_id sv \<or> is_management (sx_scopes env) p)
        \<and> (\<forall>j. service_at st' sc j = (if j = i then None else service_at st sc j))
        \<and> (\<forall>a. ss_aliases (srv_of st' sc) a = (if ss_aliases (srv_of st sc) a = Some i then None else ss_aliases (srv_of st sc) a))
        \<and> (\<forall>sc'. sc' \<noteq> sc \<longrightarrow> srv_of st' sc' = srv_of st sc'))"
proof (cases rule: remove_service_cases [of env fail sc particle x p allow st])
  case (refused e)
  then show ?thesis using assms(2) by simp
next
  case (removed i sv)
  have ok: "srv_ok sc (srv_of st sc)" using hosted.reachable_inv [OF assms(1)] by (simp add: services_inv_def)
  obtain sv' where g: "get_service sc x particle st = (Inr (sv', i) :: 'e service_error + _)" "is_spell (sv_type sv') = allow"
    "to_peer_id (sx_scopes env) sc = p \<or> sv_owner_id sv' = p \<or> is_management (sx_scopes env) p"
    using remove_service_check_found [OF removed(1)] by blast
  then have sv': "sv' = sv" using get_service_found [of sc x particle st sv' i] removed(2) by auto
  have found: "if service_at st sc x \<noteq> None then i = x
           else if x \<in> {''spell'', ''self''} \<and> get_spell_id particle \<noteq> None then get_spell_id particle = Some i
           else ss_aliases (srv_of st sc) x = Some i"
    using g(1) by (cases sc) (auto simp: get_service_def resolve_alias_def find_service_def srv_of_simps split: option.splits sum.splits if_splits)
  have al: "(ss_aliases (srv_of st sc) |` (- set (sv_aliases sv))) a = (if ss_aliases (srv_of st sc) a = Some i then None else ss_aliases (srv_of st sc) a)" for a
    using ok removed(2) by (auto simp: srv_ok_def restrict_map_def)
  have st': "r = Inr ()" "st' = set_services sc ((srv_of st sc)\<lparr>ss_services := hm_remove i (ss_services (srv_of st sc)),
      ss_aliases := ss_aliases (srv_of st sc) |` (- set (sv_aliases sv))\<rparr>) (remove_service_file fail i st)"
    using removed(3) assms(2) by simp_all
  have "srv_of (remove_service_file fail i st) = srv_of st" by (simp add: remove_service_file_def)
  then have "\<forall>j. service_at st' sc j = (if j = i then None else service_at st sc j)"
    "\<forall>a. ss_aliases (srv_of st' sc) a = (if ss_aliases (srv_of st sc) a = Some i then None else ss_aliases (srv_of st sc) a)"
    "\<forall>sc'. sc' \<noteq> sc \<longrightarrow> srv_of st' sc' = srv_of st sc'"
    using al unfolding st'(2) by simp_all
  moreover have "p = to_peer_id (sx_scopes env) sc \<or> p = sv_owner_id sv \<or> is_management (sx_scopes env) p" "is_spell (sv_type sv) = allow"
    using g(2,3) unfolding sv' by blast+
  ultimately show ?thesis using removed(2) found unfolding st'(1) sum.case by blast
qed

text \<open>
  C20: an alias can get stuck.  Let giving an alias away fail because the file of the service that has it cannot
  be written.  The alias still names that service, which no longer lists it; when the service is then removed,
  the alias stays, names nothing, and no request can ever give it to another service.
\<close>

theorem failed_alias_sticks:
  fixes env :: "('m, 'j, 'kp, 'rt, 's, 'e) services_env"
  assumes "reachable services_start (services_step env) st" "services_format env" "ss_aliases (srv_of st sc) a = Some old"
    and "add_alias env (WriteFailed err left) wr sc a i p st = (Inl (WritePersistedService (service_file_name old) err), st1)"
    and "remove_service env fail sc particle old q allow st1 = Some (Inr (), st2)"
  shows "service_at st2 sc old = None \<and> ss_aliases (srv_of st2 sc) a = Some old
    \<and> (\<forall>wr1 wr2 j p'. \<exists>e. fst (add_alias env wr1 wr2 sc a j p' st2) = Inl e)"
proof -
  have inv: "services_inv env st" using hosted.reachable_inv [OF assms(1)] .
  obtain sv where sv: "service_at st sc old = Some sv" "a \<in> set (sv_aliases sv)" "sv_id sv = old" "distinct (sv_aliases sv)"
    using inv assms(3) by (auto simp: services_inv_def srv_ok_def)
  obtain bytes where b: "sx_ser env (from_service (service_remove_alias a sv)) = Inr bytes" using assms(2) by (auto simp: services_format_def)
  obtain st' where r: "srv_remove_alias env (WriteFailed err left) a sc old st = (Inl (WritePersistedService (service_file_name old) err), st')"
    "srv_of st' = (srv_of st)(sc := (srv_of st sc)\<lparr>ss_services := hm_insert old (service_remove_alias a sv) (ss_services (srv_of st sc))\<rparr>)"
    using srv_remove_alias_fails [OF sv(1,3) b] by blast
  have "st1 = st'" using assms(3,4) r(1) by (auto simp: add_alias_def get_service_id_eq alias_permitted_def split: option.splits if_splits peer_scope.splits sum.splits)
  then have here: "service_at st1 sc old = Some (service_remove_alias a sv)" "ss_aliases (srv_of st1 sc) a = Some old" using r(2) assms(3) by simp_all
  have gone: "a \<notin> set (sv_aliases (service_remove_alias a sv))" using sv(4) by (simp add: service_remove_alias_def)
  show ?thesis
  proof (cases rule: remove_service_cases [of env fail sc particle old q allow st1])
    case (refused e)
    then show ?thesis using assms(5) by simp
  next
    case (removed j sv')
    have "j = old" using remove_service_check_found [OF removed(1)] get_service_by_id [OF here(1), of particle, where 'e = 'e] by auto
    then have "service_at st2 sc old = None" "ss_aliases (srv_of st2 sc) a = Some old"
      using removed(2,3) assms(5) here gone by (auto simp: restrict_map_def)
    then show ?thesis using dangling_alias by blast
  qed
qed

text \<open>
  Removing a service twice at once panics.  A removal looks its service up and checks the caller before it
  takes the locks it removes the service under.  If two removals have both passed their checks, the first one
  succeeds and the second one panics.
\<close>

theorem simultaneous_removals_panic:
  fixes env :: "('m, 'j, 'kp, 'rt, 's, 'e) services_env"
  assumes "remove_service_check env sc particle1 x1 p1 allow1 st = Inr i" "remove_service_check env sc particle2 x2 p2 allow2 st = Inr i"
  shows "\<exists>st1. remove_service_commit sc i (remove_service_file fail1 i st) = Some (Inr (), st1)
    \<and> remove_service_commit sc i (remove_service_file fail2 i st1) = None"
proof -
  obtain sv where "get_service sc x1 particle1 st = (Inr (sv, i) :: 'e service_error + _)" using remove_service_check_found [OF assms(1)] by blast
  then show ?thesis
    by (cases sc) (auto simp: get_service_def find_service_def remove_service_commit_def remove_service_file_def split: option.splits sum.splits)
qed

text \<open>
  C19: a lookup and a removal can block each other for ever.  A lookup by alias takes the services and then the
  aliases; a removal, like an alias being given, takes the aliases and then the services.  There are runs of a
  lookup with either of the two in which each holds what the other waits for.  Lookups among themselves never
  block each other.
\<close>

theorem lookup_removal_deadlock:
  "may_deadlock [get_service_locks True, remove_service_locks by_alias] \<and> may_deadlock [get_service_locks True, add_alias_inner_locks]
    \<and> \<not> may_deadlock (replicate n (get_service_locks True))"
proof -
  have "may_deadlock [get_service_locks True, remove_service_locks by_alias]"
    by (rule may_deadlock_run [of "(if by_alias then [1, 1] else []) @ [1, 1, 0, 1]"])
      (simp add: lock_eval remove_service_locks_def)
  moreover have "may_deadlock [get_service_locks True, add_alias_inner_locks]"
    by (rule may_deadlock_run [of "[0, 1]"]) (simp add: lock_eval add_alias_inner_locks_def)
  moreover have "\<not> may_deadlock (replicate n (get_service_locks True))" by (rule reads_never_deadlock) (auto simp: get_service_locks_def)
  ultimately show ?thesis by blast
qed

section \<open>A concrete run\<close>

text \<open>A format of files: the fields one after the other, each character marked.\<close>

definition demo_field :: "string \<Rightarrow> string" where
  "demo_field s = concat (map (\<lambda>c. [CHR ''c'', c]) s) @ ''.''"

fun demo_fields :: "string \<Rightarrow> string \<Rightarrow> string list" where
  "demo_fields cur [] = []"
| "demo_fields cur [t] = [cur]"
| "demo_fields cur (t # c # r) = (if t = CHR ''.'' then cur # demo_fields [] (c # r) else demo_fields (cur @ [c]) r)"

lemma demo_fields_field: "demo_fields cur (demo_field s @ r) = (cur @ s) # demo_fields [] r"
proof (induction s arbitrary: cur)
  case Nil
  show ?case by (cases r) (simp_all add: demo_field_def)
next
  case (Cons c s)
  have "demo_field (c # s) @ r = CHR ''c'' # c # demo_field s @ r" by (simp add: demo_field_def)
  then show ?case using Cons by simp
qed

lemma demo_fields_inverse: "demo_fields [] (concat (map demo_field ss)) = ss"
  by (induction ss) (simp_all add: demo_fields_field)

definition demo_service_text :: "persisted_service \<Rightarrow> string" where
  "demo_service_text ps = concat (map demo_field ([ps_service_id ps,
     (case ps_service_type ps of None \<Rightarrow> ''none'' | Some TypeService \<Rightarrow> ''service'' | Some TypeSpell \<Rightarrow> ''spell''), ps_blueprint_id ps, ps_owner_id ps,
     (case ps_peer_scope ps of ScopeHost \<Rightarrow> ''host'' | ScopeWorkerId _ \<Rightarrow> ''worker''),
     (case ps_peer_scope ps of ScopeHost \<Rightarrow> [] | ScopeWorkerId w \<Rightarrow> worker_peer_id w)] @ ps_aliases ps))"

definition demo_service_de :: "string \<Rightarrow> unit + persisted_service" where
  "demo_service_de t = (case demo_fields [] t of
     i # ty # b # owner # sc # w # aliases \<Rightarrow> Inr \<lparr>ps_service_id = i,
       ps_service_type = (if ty = ''none'' then None else if ty = ''service'' then Some TypeService else Some TypeSpell),
       ps_blueprint_id = b, ps_aliases = aliases, ps_owner_id = owner, ps_peer_scope = (if sc = ''host'' then ScopeHost else ScopeWorkerId (WorkerId w))\<rparr>
   | _ \<Rightarrow> Inl ())"

lemma demo_service_format: "demo_service_de (demo_service_text ps) = Inr ps"
  unfolding demo_service_text_def demo_service_de_def demo_fields_inverse
  by (cases ps) (auto split: option.split service_type.split peer_scope.split)

definition demo_services_env :: "(string, string, string, nat, nat, unit) services_env" where
  "demo_services_env = \<lparr>sx_scopes = peer_scopes_new ''host'' ''manager'' ''builtins'' demo_key_storage,
     sx_workers = \<lparr>worker_ids = Map.empty, worker_infos = [], workers_dir = Map.empty, w_key_storage = demo_key_storage, runtimes = [],
       w_core_manager = 0, runtime_counter = 0, sent_events = []\<rparr>,
     sx_vault = demo_vault, sx_persistent_work_dir = Path True [''persistent''], sx_ephemeral_work_dir = Path True [''ephemeral''],
     sx_resolve_blueprint = (\<lambda>b. if b = ''blueprint'' then Inr [\<lparr>md_import_name = ''module'', md_wasi = None\<rparr>] else Inl ()),
     sx_blueprint_name = (\<lambda>_. None), sx_new_app_service = (\<lambda>ms _ i. Inr i), sx_call = (\<lambda>m f args _. (Inr f, m)),
     sx_ser = (\<lambda>ps. Inr (demo_service_text ps)), sx_de = demo_service_de, sx_jerror = (\<lambda>_. JError [])\<rparr>"

definition demo_creation :: "unit creation_answers" where
  "demo_creation = \<lparr>cr_persistent = None, cr_ephemeral = None, cr_vault = None, cr_module_persistent = (\<lambda>_. None), cr_module_ephemeral = (\<lambda>_. None)\<rparr>"

definition demo_service :: "string list \<Rightarrow> string service" where
  "demo_service aliases = \<lparr>sv_module = ''s1'', sv_id = ''s1'', sv_blueprint_id = ''blueprint'', sv_type = TypeService, sv_owner_id = ''me'',
     sv_aliases = aliases, sv_scope = ScopeHost\<rparr>"

definition demo_hosting :: "string list \<Rightarrow> string app_services" where
  "demo_hosting aliases = \<lparr>as_root = \<lparr>ss_services = [(''s1'', demo_service aliases)], ss_aliases = (\<lambda>a. if a \<in> set aliases then Some ''s1'' else None)\<rparr>, as_workers = [],
     as_dir = [''s1_service.toml'' \<mapsto> demo_service_text (from_service (demo_service aliases))], as_health = None\<rparr>"

lemmas demo_services_eval = demo_services_env_def demo_creation_def demo_service_def demo_hosting_def create_app_service_def prepare_module_def
  inject_default_wasi_def inject_vault_def inject_persistent_dirs_def inject_ephemeral_dirs_def inject_dirs_def initialize_worker_def Let_def
  persist_service_def service_file_name_def from_service_def hm_insert_def hm_get_def hm_keys_def peer_scopes_new_def

lemma demo_services_laws: "services_format demo_services_env"
  by (simp add: services_format_def demo_services_env_def demo_service_format)

lemma demo_creates: "\<exists>x. create_app_service demo_services_env demo_creation peer ''blueprint'' i = Some (Inr x)"
  by (simp add: demo_services_eval)

lemma demo_step_create:
  "services_step demo_services_env (app_services_new None Map.empty) (SeCreate demo_creation ''s1'' ScopeHost TypeService ''blueprint'' ''me'') (demo_hosting [])"
proof -
  have "services_next demo_services_env (SeCreate demo_creation ''s1'' ScopeHost TypeService ''blueprint'' ''me'') (app_services_new None Map.empty) = Some (demo_hosting [])"
    by (simp add: create_service_def create_service_inner_def app_services_new_def services_default_def demo_services_eval fun_eq_iff)
  moreover have "service_at (app_services_new None Map.empty :: string app_services) sc ''s1'' = None" for sc
    by (cases sc) (simp_all add: srv_of_simps app_services_new_def services_default_def)
  ultimately show ?thesis by (simp add: services_step_def demo_services_laws)
qed

lemma demo_step_alias: "services_step demo_services_env (demo_hosting []) (SeAddAlias ScopeHost ''a'' ''s1'' ''host'') (demo_hosting [''a''])"
proof -
  have "add_alias demo_services_env WriteOk WriteOk ScopeHost ''a'' ''s1'' ''host'' (demo_hosting []) = (Inr (), demo_hosting [''a''])"
    by (simp add: add_alias_def alias_permitted_def service_exists_def get_service_id_def add_alias_inner_def find_service_def service_add_alias_def
        is_management_def is_host_def get_host_peer_id_def demo_services_eval fun_eq_iff)
  then show ?thesis by (simp add: services_step_def demo_services_laws)
qed

lemma demo_hosting_reachable: "reachable services_start (services_step demo_services_env) (demo_hosting [''a''])"
proof -
  have "reachable services_start (services_step demo_services_env) (app_services_new None Map.empty)" by (rule reach_start) (auto simp: services_start_def)
  then have "reachable services_start (services_step demo_services_env) (demo_hosting [])" using demo_step_create by (rule reach_step)
  then show ?thesis using demo_step_alias by (rule reach_step)
qed

lemma demo_at: "service_at (demo_hosting aliases) sc i = (if sc = ScopeHost \<and> i = ''s1'' then Some (demo_service aliases) else None)"
  by (cases sc) (simp_all add: srv_of_simps demo_hosting_def hm_get_def services_default_def)


theorem add_alias_correct_witness:
  "\<exists>st'. add_alias demo_services_env WriteOk WriteOk ScopeHost ''b'' ''s1'' ''manager'' (demo_hosting [''a'']) = (Inr (), st')
     \<and> ss_aliases (srv_of st' ScopeHost) ''b'' = Some ''s1'' \<and> is_management (sx_scopes demo_services_env) ''manager''"
proof -
  obtain st' where st': "add_alias demo_services_env WriteOk WriteOk ScopeHost ''b'' ''s1'' ''manager'' (demo_hosting [''a'']) = (Inr (), st')"
    by (simp add: add_alias_def alias_permitted_def service_exists_def get_service_id_def add_alias_inner_def find_service_def service_add_alias_def
        is_management_def is_host_def get_host_peer_id_def demo_services_eval)
  then show ?thesis using add_alias_correct [OF demo_hosting_reachable demo_services_laws st']
    by (simp add: is_management_def demo_services_env_def peer_scopes_new_def)
qed

theorem services_restart_witness:
  "\<exists>st'. create_persisted_services demo_services_env None (Some [Inr ''s1_service.toml'']) (\<lambda>_. None) (\<lambda>_. demo_creation) (\<lambda>_. WriteOk)
       (app_services_new (Some service_health_new) (as_dir (demo_hosting [''a'']))) = Some (Inr (), st')
     \<and> ss_aliases (srv_of st' ScopeHost) ''a'' = Some ''s1'' \<and> map_option service_health_status (as_health st') = Some True"
proof -
  have "full_listing (as_dir (demo_hosting [''a''])) [''s1_service.toml'']" by (simp add: full_listing_def demo_hosting_def)
  moreover have "\<exists>x. create_app_service demo_services_env demo_creation (to_peer_id (sx_scopes demo_services_env) sc) (sv_blueprint_id sv) i = Some (Inr x)"
    if "service_at (demo_hosting [''a'']) sc i = Some sv" for sc i sv
  proof -
    have "sv_blueprint_id sv = ''blueprint''" using that by (auto simp: demo_at demo_service_def split: if_splits)
    then show ?thesis using demo_creates by simp
  qed
  moreover have "ss_aliases (srv_of (demo_hosting [''a'']) ScopeHost) ''a'' = Some ''s1''" by (simp add: srv_of_simps demo_hosting_def)
  ultimately show ?thesis
    using services_restart [OF demo_hosting_reachable demo_services_laws, of "[''s1_service.toml'']" "\<lambda>_. demo_creation" None] by fastforce
qed

theorem remove_service_correct_witness:
  "\<exists>st'. remove_service demo_services_env None ScopeHost ''particle'' ''a'' ''me'' False (demo_hosting [''a'']) = Some (Inr (), st')
     \<and> service_at st' ScopeHost ''s1'' = None \<and> ss_aliases (srv_of st' ScopeHost) ''a'' = None"
proof -
  have al: "ss_aliases (srv_of (demo_hosting [''a'']) ScopeHost) ''a'' = Some ''s1''" by (simp add: srv_of_simps demo_hosting_def)
  obtain st' where st': "remove_service demo_services_env None ScopeHost ''particle'' ''a'' ''me'' False (demo_hosting [''a'']) = Some (Inr (), st')"
    by (simp add: remove_service_def remove_service_check_def remove_service_commit_def remove_service_file_def get_service_def resolve_alias_def find_service_def is_spell_def
        demo_services_eval)
  then show ?thesis using remove_service_correct [OF demo_hosting_reachable st'] al by (auto simp: demo_at)
qed

theorem failed_alias_sticks_witness:
  "\<exists>st1 st2. add_alias demo_services_env (WriteFailed (OtherIo ()) None) WriteOk ScopeHost ''a'' ''s1'' ''host'' (demo_hosting [''a''])
       = (Inl (WritePersistedService ''s1_service.toml'' (OtherIo ())), st1)
     \<and> remove_service demo_services_env None ScopeHost ''particle'' ''s1'' ''me'' False st1 = Some (Inr (), st2)
     \<and> ss_aliases (srv_of st2 ScopeHost) ''a'' = Some ''s1''"
proof -
  have al: "ss_aliases (srv_of (demo_hosting [''a'']) ScopeHost) ''a'' = Some ''s1''" by (simp add: srv_of_simps demo_hosting_def)
  obtain st1 st2 where st: "add_alias demo_services_env (WriteFailed (OtherIo ()) None) WriteOk ScopeHost ''a'' ''s1'' ''host'' (demo_hosting [''a''])
       = (Inl (WritePersistedService (service_file_name ''s1'') (OtherIo ())), st1)"
    "remove_service demo_services_env None ScopeHost ''particle'' ''s1'' ''me'' False st1 = Some (Inr (), st2)"
    by (simp add: add_alias_def alias_permitted_def service_exists_def get_service_id_def srv_remove_alias_def find_service_def service_remove_alias_def
        is_management_def is_host_def get_host_peer_id_def remove_service_def remove_service_check_def remove_service_commit_def remove_service_file_def get_service_def
        is_spell_def demo_services_eval)
  then show ?thesis using failed_alias_sticks [OF demo_hosting_reachable demo_services_laws al st] by (simp add: service_file_name_def)
qed

theorem simultaneous_removals_panic_witness:
  "\<exists>st1. remove_service_commit ScopeHost ''s1'' (remove_service_file (None :: unit option) ''s1'' (demo_hosting [''a''])) = Some (Inr () :: unit service_error + unit, st1)
     \<and> (remove_service_commit ScopeHost ''s1'' (remove_service_file (None :: unit option) ''s1'' st1) :: ((unit service_error + unit) \<times> _) option) = None"
proof -
  have "remove_service_check demo_services_env ScopeHost ''particle'' ''s1'' ''me'' False (demo_hosting [''a'']) = Inr ''s1''"
    by (simp add: remove_service_check_def get_service_def is_spell_def demo_services_eval)
  from simultaneous_removals_panic [OF this this] show ?thesis by blast
qed

end
