(* ===== verification/Spec2Isabelle.thy ===== *)
theory Spec2Isabelle
  imports Deal_Id Spell_Bus Core_Persistence Workers_Restart Connection_Pool Kademlia Aquamarine App_Services
begin

text \<open>
  A verification development for the nox peer, a node of the Fluence network written in Rust.  Paths are
  relative to \<^verbatim>\<open>src/\<close>.

  \<^bold>\<open>The program.\<close>  Peers exchange particles, which are scripts with data, an author and a lifetime.  The
  connection pool keeps the connections and carries particles between peers.  Aquamarine executes them: a
  particle that comes in is checked, put into the mailbox of the actor of its signature, executed on a
  machine from a pool, and sent on to the next peers, which may be the node itself or one of its workers.
  Workers are peers of their own inside a node, created for deals; the registry keeps their key pairs,
  their files, their runtimes and the cores they run on, which the core manager hands out.  Spells are
  scripts that the spell event bus starts on a timer or when a peer connects or disconnects.  Services are
  WebAssembly modules that particles call by identifier or alias; the node keeps them per scope, which is
  the node itself or a worker.  Kademlia finds the addresses of other peers.

  \<^bold>\<open>Theories and sources.\<close>
  \<^item> \<^verbatim>\<open>Nox_Prelude\<close>: machine integers with checked arithmetic, hash maps as association lists, event
    systems with \<^verbatim>\<open>reachable\<close> and \<^verbatim>\<open>trace\<close>, and the locale \<^verbatim>\<open>invariant_system\<close>.
  \<^item> \<^verbatim>\<open>Deal_Id\<close>: \<^verbatim>\<open>crates/types/src/deal_id.rs\<close>, \<^verbatim>\<open>peer_scope.rs\<close>.
  \<^item> \<^verbatim>\<open>Spell_Config\<close>, \<^verbatim>\<open>Spell_Bus\<close>: \<^verbatim>\<open>crates/spell-event-bus/src/config.rs\<close>, \<^verbatim>\<open>bus.rs\<close>.  The state of the
    actor is a record; commands, timers, peer events and the clock are the labels of its steps.
  \<^item> \<^verbatim>\<open>Core_Types\<close>, \<^verbatim>\<open>Core_Range\<close>, \<^verbatim>\<open>Core_Manager\<close>, \<^verbatim>\<open>Core_Strict\<close>, \<^verbatim>\<open>Core_Dev\<close>, \<^verbatim>\<open>Core_Persistence\<close>:
    \<^verbatim>\<open>crates/core-manager/src\<close>.  The locale \<^verbatim>\<open>core_manager\<close> is the contract that the worker registry relies
    on; the strict and the development manager are interpretations of it.
  \<^item> \<^verbatim>\<open>Fs_Utils\<close>, \<^verbatim>\<open>Key_Storage\<close>, \<^verbatim>\<open>Workers\<close>, \<^verbatim>\<open>Workers_Concurrent\<close>, \<^verbatim>\<open>Workers_Restart\<close>:
    \<^verbatim>\<open>crates/fs-utils/src\<close>, \<^verbatim>\<open>crates/workers/src\<close>.  Files are a map that every operation changes explicitly.  An
    operation that takes several locks is several steps, so that calls interleave as the locks allow.
  \<^item> \<^verbatim>\<open>Particle_Protocol\<close>, \<^verbatim>\<open>Connection_Pool\<close>: \<^verbatim>\<open>particle-protocol/src\<close>, \<^verbatim>\<open>connection-pool/src\<close>.
  \<^item> \<^verbatim>\<open>Kademlia\<close>: \<^verbatim>\<open>crates/kademlia/src\<close>, \<^verbatim>\<open>crates/server-config/src/kademlia_config.rs\<close>.  The routing table and its
    queries are a record of functions; commands, their events, polls and the clock are the labels of the steps.
  \<^item> \<^verbatim>\<open>Vm_Pool\<close>: \<^verbatim>\<open>aquamarine/src/vm_pool.rs\<close>.  The locale \<^verbatim>\<open>slot_pool\<close> is what the plumber needs of a pool: which
    machines are out, and that returning one cannot fail while it is.
  \<^item> \<^verbatim>\<open>Particle_Functions\<close>: \<^verbatim>\<open>aquamarine/src/particle_functions.rs\<close>, \<^verbatim>\<open>crates/particle-args/src\<close>, and
    \<^verbatim>\<open>particle-execution/src/particle_params.rs\<close>, \<^verbatim>\<open>function_outcome.rs\<close>.
  \<^item> \<^verbatim>\<open>Particle_Vault\<close>, \<^verbatim>\<open>Particle_Data_Store\<close>: \<^verbatim>\<open>particle-execution/src/particle_vault.rs\<close>,
    \<^verbatim>\<open>aquamarine/src/particle_data_store.rs\<close>, on a file system of byte lists.
  \<^item> \<^verbatim>\<open>Aqua_Actor\<close>: \<^verbatim>\<open>aquamarine/src/actor.rs\<close>, \<^verbatim>\<open>deadline.rs\<close>, \<^verbatim>\<open>particle_effects.rs\<close>, \<^verbatim>\<open>particle_executor.rs\<close>
    and the outcome part of \<^verbatim>\<open>aqua_runtime.rs\<close>.
  \<^item> \<^verbatim>\<open>Plumber\<close>, \<^verbatim>\<open>Aquamarine\<close>: \<^verbatim>\<open>aquamarine/src/plumber.rs\<close>, \<^verbatim>\<open>error.rs\<close>, \<^verbatim>\<open>aquamarine.rs\<close>, \<^verbatim>\<open>command.rs\<close>.
  \<^item> \<^verbatim>\<open>App_Services\<close>: \<^verbatim>\<open>particle-services/src/app_services.rs\<close>, \<^verbatim>\<open>persistence.rs\<close>, \<^verbatim>\<open>health.rs\<close>, \<^verbatim>\<open>error.rs\<close> and the
    names of service files in \<^verbatim>\<open>crates/service-modules/src/modules/file_names.rs\<close>.  The maps of a scope are a record,
    and the locks that the operations take are programs of a small system of their own.

  \<^bold>\<open>How code becomes definitions.\<close>  A struct is a record and an enum a datatype.  A method is a function
  that takes and returns the state.  A \<^verbatim>\<open>Result\<close> is a sum with the error on the left, and a panic is
  \<^verbatim>\<open>None\<close> where the code can panic.  Integers have their width where they can overflow.  Hash maps whose
  iteration shows are association lists, others are maps.  What the environment decides is an argument or
  the label of a step: the clock, whether a file operation succeeds and what it leaves behind, whether a
  future is ready, how much room a channel has, the order in which a hash map or a directory is walked.
  Foreign code, such as signatures, MessagePack, Base58, JSON and the interpreter, is a record of
  functions; the laws a theorem needs of it are its hypotheses, and an example instance satisfies them.

  \<^bold>\<open>What is shown.\<close>
  \<^item> Cores: a grant gives every requested unit a core, no core is given to two units by the strict manager,
    releasing undoes acquiring, a constructor separates system cores from the others, the state survives a
    restart, and the persistence task writes the last state.  The development manager spreads units evenly.
  \<^item> Workers: the maps of the registry agree in every interleaving of calls; the registry survives a restart;
    removal undoes creation; loading hangs exactly if there are more workers than the channel has room for.
  \<^item> Spells: the queue and the subscriptions of the bus stay consistent, a timer fires and is scheduled again
    as configured, a one-shot spell fires once, an unsubscribed spell not at all, and which configurations
    are refused.
  \<^item> Particles and connections: lifetimes without overflow, signing and verifying, and what a signature does
    not bind; a particle crosses the wire unchanged; every caller of the pool is answered at most once and no
    reply is lost inside it; the pool does not sleep on work.
  \<^item> Execution: the pool of machines refines a set of slots; no two executions of a scope share a machine and
    polling does not panic; an actor executes its particles one by one and in order; which particles are
    admitted; what an execution stores and reports on every branch; where effects are routed; what is
    cleaned up; that the plumber does not sleep on effects; what the backend forwards and what it loses.
  \<^item> Files of particles: a read stays inside the vault of the particle, what is put is read back, and the
    stored data of a particle is read back until it is cleaned up.
  \<^item> Discovery: every command is answered at most once and is otherwise kept, a request for a peer is answered
    in bounded time, and when the ban of a peer ends.
  \<^item> Services: the maps of services and aliases agree, who may give an alias and remove a service and what
    that changes, the services and aliases survive a restart; an alias can get stuck after a failed write, and
    a lookup by alias can deadlock with a removal.

  Several theorems describe behaviour that a reader of the code may not expect, as the text before them
  says: among them the signature of a shifted particle, a connection request that is not answered, the
  vault of a particle whose id has dots, the actor that outlives its worker, the ban that polling renews,
  and the locks of services that are taken in two orders.

  \<^bold>\<open>Termination and bounds.\<close>  No definition uses fuel.  Loops are structural, or have a measure: the
  creation futures left to visit in a poll of the machine pool, the text left when a prefix is trimmed, and the buffered events in a poll of the
  backend.  A loop of a task that runs for ever is a step relation.  The bound of 1024 actors that a
  clean-up removes, the frame limit of the codec and the threshold of an anomalous execution are the constants of the code.

  \<^bold>\<open>Not modelled.\<close>
  \<^item> Modules and blueprints, builtins and the sorcerer: they surround the WebAssembly host and the
    spell service, which are other crates, and mostly translate JSON.
  \<^item> The chain listener and connector: ABI encodings and JSON-RPC.
  \<^item> The Kademlia crate itself and the callbacks that only forward to it.
  \<^item> The node itself, configuration, system services: wiring, input and output.
  \<^item> Metrics, health checks, logging and tracing: nothing reads them back.
  \<^item> Which operating system thread runs a task, and cancellation of tasks.
\<close>

end
